(* ===== verification/Prelude.thy ===== *)
theory Prelude
  imports Main "HOL-Library.Word"
begin

text \<open>
  What every component of the development shares: bytes and 16-bit integers as machine words, Go
  strings as byte strings, big-endian encoding as \<open>encoding/binary\<close> does it, Go's \<open>copy\<close> on
  slices, results that are an error or a value, and the collections of simplification rules the
  component proofs use.

  A Go string is a sequence of bytes, and so is Isabelle's \<^typ>\<open>string\<close> (a \<^typ>\<open>char\<close> is eight
  bits), so Go strings are \<^typ>\<open>string\<close> and byte slices are lists of 8-bit words.
\<close>

unbundle bit_operations_syntax

type_synonym byte = "8 word"
type_synonym u16 = "16 word"

named_theorems wire_simps "encoding and decoding of the wire formats"
named_theorems gostring_simps "evaluation of the Go string functions on constructors"

section \<open>Strings and bytes\<close>

definition byte_of :: "char \<Rightarrow> byte" where
  "byte_of c = of_char c"

definition char_of_byte :: "byte \<Rightarrow> char" where
  "char_of_byte b = char_of (unat b)"

text \<open>The conversions \<open>[]byte(s)\<close> and \<open>string(b)\<close>.\<close>

definition bytes_of :: "string \<Rightarrow> byte list" where
  "bytes_of s = map byte_of s"

definition string_of :: "byte list \<Rightarrow> string" where
  "string_of bs = map char_of_byte bs"

lemma unat_byte_of [simp]: "unat (byte_of c) = of_char c"
proof -
  have "byte_of c = of_nat (of_char c)" by (simp add: byte_of_def of_nat_of_char)
  then show ?thesis by (simp add: unat_of_nat take_bit_eq_mod)
qed

lemma char_of_byte_of [simp]: "char_of_byte (byte_of c) = c"
  by (simp add: char_of_byte_def)

lemma byte_of_char_of_byte [simp]: "byte_of (char_of_byte b) = b"
proof -
  have "unat b < 256" using unsigned_less [of b, where ?'a = nat] by simp
  then have "unat (byte_of (char_of_byte b)) = unat b"
    by (simp only: unat_byte_of) (simp add: char_of_byte_def)
  then show ?thesis by (simp add: word_unat_eq_iff)
qed

lemma string_of_bytes_of [simp, wire_simps]: "string_of (bytes_of s) = s"
  by (induction s) (simp_all add: string_of_def bytes_of_def)

lemma bytes_of_string_of [simp, wire_simps]: "bytes_of (string_of bs) = bs"
  by (induction bs) (simp_all add: string_of_def bytes_of_def)

lemma length_bytes_of [simp]: "length (bytes_of s) = length s"
  by (simp add: bytes_of_def)

lemma length_string_of [simp]: "length (string_of bs) = length bs"
  by (simp add: string_of_def)

section \<open>Big-endian 16-bit integers\<close>

text \<open>
  \<open>binary.BigEndian.PutUint16\<close> stores \<open>byte(v >> 8)\<close> and \<open>byte(v)\<close>; \<open>binary.BigEndian.Uint16\<close> reads
  \<open>uint16(b[1]) | uint16(b[0]) << 8\<close>. Every use in the program passes a slice of two bytes.
\<close>

definition put_uint16 :: "u16 \<Rightarrow> byte list" where
  "put_uint16 v = [ucast (drop_bit 8 v), ucast v]"

definition get_uint16 :: "byte list \<Rightarrow> u16" where
  "get_uint16 b = ucast (b ! 1) OR push_bit 8 (ucast (b ! 0))"

lemma length_put_uint16 [simp]: "length (put_uint16 v) = 2"
  by (simp add: put_uint16_def)

lemma get_put_uint16 [simp, wire_simps]: "get_uint16 (put_uint16 v) = v"
  by (rule bit_word_eqI)
    (auto simp: get_uint16_def put_uint16_def bit_simps not_le less_diff_conv2 not_less)

lemma put_get_uint16_pair [wire_simps]: "put_uint16 (get_uint16 [a, b]) = [a, b]"
proof -
  have "ucast (drop_bit 8 (get_uint16 [a, b])) = a"
    by (rule bit_word_eqI) (auto simp: get_uint16_def bit_simps dest: bit_imp_le_length)
  moreover have "ucast (get_uint16 [a, b]) = b"
    by (rule bit_word_eqI) (auto simp: get_uint16_def bit_simps)
  ultimately show ?thesis by (simp add: put_uint16_def)
qed

lemma put_get_uint16 [wire_simps]:
  assumes "length bs = 2"
  shows "put_uint16 (get_uint16 bs) = bs"
proof -
  from assms obtain a b where "bs = [a, b]"
    by (auto simp: numeral_2_eq_2 length_Suc_conv)
  then show ?thesis by (simp add: put_get_uint16_pair)
qed

text \<open>\<open>uint16(n)\<close> of a Go \<open>int\<close> keeps the low 16 bits.\<close>

lemma unat_u16_of_nat: "unat (of_nat n :: u16) = n mod 65536"
  by (simp add: unat_of_nat take_bit_eq_mod)

lemma unat_u16_small [simp]: "n < 65536 \<Longrightarrow> unat (of_nat n :: u16) = n"
  by (simp add: unat_u16_of_nat)

lemma unat_u16_less [simp]: "unat (v :: u16) < 65536"
  using unsigned_less [of v, where ?'a = nat] by simp

section \<open>Slices\<close>

text \<open>\<open>copy(dst, src)\<close> overwrites the front of \<open>dst\<close> with as many elements as both slices have.\<close>

definition copy_slice :: "'a list \<Rightarrow> 'a list \<Rightarrow> 'a list" where
  "copy_slice dst src = take (length dst) src @ drop (length src) dst"

lemma length_copy_slice [simp]: "length (copy_slice dst src) = length dst"
  by (simp add: copy_slice_def)

lemma copy_slice_same [simp]: "length src = length dst \<Longrightarrow> copy_slice dst src = src"
  by (simp add: copy_slice_def)

section \<open>Results: an error or a value\<close>

fun rbind :: "'e + 'a \<Rightarrow> ('a \<Rightarrow> 'e + 'b) \<Rightarrow> 'e + 'b" where
  "rbind (Inl e) f = Inl e"
| "rbind (Inr a) f = f a"

lemma rbind_Inr_iff: "rbind m f = Inr b \<longleftrightarrow> (\<exists>a. m = Inr a \<and> f a = Inr b)"
  by (cases m) auto

text \<open>A loop that stops at the first error and collects the values otherwise.\<close>

fun traverse :: "('a \<Rightarrow> 'e + 'b) \<Rightarrow> 'a list \<Rightarrow> 'e + 'b list" where
  "traverse f [] = Inr []"
| "traverse f (x # xs) = rbind (f x) (\<lambda>y. rbind (traverse f xs) (\<lambda>ys. Inr (y # ys)))"

lemma traverse_Inr_list_all2:
  "traverse f xs = Inr ys \<longleftrightarrow> list_all2 (\<lambda>x y. f x = Inr y) xs ys"
  by (induction xs arbitrary: ys) (auto simp: rbind_Inr_iff list_all2_Cons1)

lemma list_all2_image: "list_all2 P xs ys \<Longrightarrow> y \<in> set ys \<Longrightarrow> \<exists>x \<in> set xs. P x y"
  by (induction rule: list_all2_induct) auto

section \<open>Outcomes: a panic, an error or a value\<close>

text \<open>
  The result of code that can also panic (an index out of range, a nil pointer). A panic ends the
  program, so nothing runs after it.
\<close>

datatype ('e, 'a) outcome = Panic | Error 'e | Ok 'a

fun obind :: "('e, 'a) outcome \<Rightarrow> ('a \<Rightarrow> ('e, 'b) outcome) \<Rightarrow> ('e, 'b) outcome" where
  "obind Panic f = Panic"
| "obind (Error e) f = Error e"
| "obind (Ok a) f = f a"

fun otraverse :: "('a \<Rightarrow> ('e, 'b) outcome) \<Rightarrow> 'a list \<Rightarrow> ('e, 'b list) outcome" where
  "otraverse f [] = Ok []"
| "otraverse f (x # xs) = obind (f x) (\<lambda>y. obind (otraverse f xs) (\<lambda>ys. Ok (y # ys)))"

lemma obind_assoc: "obind (obind m f) g = obind m (\<lambda>a. obind (f a) g)"
  by (cases m) auto

end
