(* ===== verification/Go_Strings.thy ===== *)
theory Go_Strings
  imports Prelude
begin

text \<open>
  The functions of Go's \<open>strings\<close>, \<open>strconv\<close> and \<open>bufio\<close> packages the program uses, as it uses
  them: \<open>IndexRune\<close> of an ASCII character, \<open>Split\<close> on a one-byte separator, \<open>HasPrefix\<close>,
  \<open>ToLower\<close> (of ASCII letters; the program applies it to protocol names), \<open>TrimSpace\<close> and \<open>Fields\<close>
  with Unicode white space in its UTF-8 encoding, \<open>Itoa\<close> of a port, \<open>ParseUint(s, 10, 16)\<close>, and
  the lines of a \<open>bufio.Scanner\<close> with its limit of 64 KiB.
\<close>

section \<open>Index, Split, HasPrefix, ToLower\<close>

fun index_rune :: "string \<Rightarrow> char \<Rightarrow> nat option" where
  "index_rune [] c = None"
| "index_rune (x # xs) c = (if x = c then Some 0 else map_option Suc (index_rune xs c))"

lemma index_rune_None: "index_rune s c = None \<longleftrightarrow> c \<notin> set s"
  by (induction s) auto

lemma index_rune_Some:
  "index_rune s c = Some i \<longleftrightarrow> i < length s \<and> s ! i = c \<and> c \<notin> set (take i s)"
proof (induction s arbitrary: i)
  case Nil
  show ?case by simp
next
  case (Cons x xs)
  then show ?case by (cases i) auto
qed

lemma index_rune_append: "c \<notin> set s \<Longrightarrow> index_rune (s @ c # t) c = Some (length s)"
  by (induction s) auto

text \<open>\<open>strings.Split(s, sep)\<close> never returns an empty slice.\<close>

fun split_on :: "char \<Rightarrow> string \<Rightarrow> string list" where
  "split_on c [] = [[]]"
| "split_on c (x # xs) =
     (if x = c then [] # split_on c xs
      else case split_on c xs of [] \<Rightarrow> [[x]] | w # ws \<Rightarrow> (x # w) # ws)"

lemma split_on_not_Nil [simp]: "split_on c s \<noteq> []"
  by (induction s) (auto split: list.splits)

lemma split_on_id [simp, gostring_simps]: "c \<notin> set s \<Longrightarrow> split_on c s = [s]"
  by (induction s) auto

lemma split_on_sep [simp, gostring_simps]:
  "c \<notin> set s \<Longrightarrow> split_on c (s @ c # t) = s # split_on c t"
  by (induction s) auto

lemma length_split_on: "length (split_on c s) = Suc (count_list s c)"
proof (induction s)
  case Nil
  show ?case by simp
next
  case (Cons x xs)
  then show ?case by (cases "split_on c xs") auto
qed

lemma split_on_words: "w \<in> set (split_on c s) \<Longrightarrow> c \<notin> set w"
proof (induction s arbitrary: w)
  case Nil
  then show ?case by simp
next
  case (Cons x xs)
  then show ?case
    by (cases "split_on c xs") (auto split: if_splits)
qed

lemma split_on_single: "split_on c s = [w] \<Longrightarrow> s = w"
proof (induction s arbitrary: w)
  case Nil
  then show ?case by simp
next
  case (Cons x xs)
  then show ?case by (cases "split_on c xs") (auto split: if_splits)
qed

lemma split_on_pair: "split_on c s = [v, w] \<Longrightarrow> s = v @ c # w"
proof (induction s arbitrary: v)
  case Nil
  then show ?case by simp
next
  case (Cons x xs)
  then show ?case
    by (cases "split_on c xs") (auto split: if_splits dest: split_on_single)
qed

definition has_prefix :: "string \<Rightarrow> string \<Rightarrow> bool" where
  "has_prefix s p \<longleftrightarrow> take (length p) s = p"

lemma has_prefix_append: "has_prefix s p \<longleftrightarrow> (\<exists>t. s = p @ t)"
  by (metis append_eq_conv_conj append_take_drop_id has_prefix_def)

definition lower_char :: "char \<Rightarrow> char" where
  "lower_char c =
     (let n = of_char c :: nat in if 65 \<le> n \<and> n \<le> 90 then char_of (n + 32) else c)"

definition to_lower :: "string \<Rightarrow> string" where
  "to_lower s = map lower_char s"

section \<open>Numbers\<close>

definition is_digit :: "char \<Rightarrow> bool" where
  "is_digit c \<longleftrightarrow> 48 \<le> (of_char c :: nat) \<and> (of_char c :: nat) \<le> 57"

definition digit_val :: "char \<Rightarrow> nat" where
  "digit_val c = of_char c - 48"

definition digit_char :: "nat \<Rightarrow> char" where
  "digit_char d = char_of (48 + d)"

lemma is_digit_char [simp]: "d < 10 \<Longrightarrow> is_digit (digit_char d)"
  by (simp add: is_digit_def digit_char_def)

lemma digit_val_char [simp]: "d < 10 \<Longrightarrow> digit_val (digit_char d) = d"
  by (simp add: digit_val_def digit_char_def)

text \<open>\<open>strconv.Itoa\<close> of a number that is not negative.\<close>

fun itoa :: "nat \<Rightarrow> string" where
  "itoa n = (if n < 10 then [digit_char n] else itoa (n div 10) @ [digit_char (n mod 10)])"

declare itoa.simps [simp del]

text \<open>The value of a string of decimal digits, from the most significant one.\<close>

fun digits_val :: "nat \<Rightarrow> string \<Rightarrow> nat option" where
  "digits_val acc [] = Some acc"
| "digits_val acc (c # cs) =
     (if is_digit c then digits_val (10 * acc + digit_val c) cs else None)"

lemma digits_val_append:
  "digits_val acc (s @ t) = Option.bind (digits_val acc s) (\<lambda>a. digits_val a t)"
  by (induction acc s rule: digits_val.induct) auto

text \<open>
  \<open>strconv.ParseUint(s, 10, 16)\<close>: an error (here \<^const>\<open>None\<close>; the program drops its text) on the
  empty string, on a character that is no digit (signs, spaces and underscores included) and on a
  value of more than 16 bits. Leading zeros are accepted.
\<close>

definition parse_uint16 :: "string \<Rightarrow> u16 option" where
  "parse_uint16 s =
     (if s = [] then None
      else case digits_val 0 s of
             None \<Rightarrow> None
           | Some n \<Rightarrow> if n < 65536 then Some (of_nat n) else None)"

lemma digits_val_itoa: "digits_val 0 (itoa n) = Some n"
proof (induction n rule: itoa.induct)
  case (1 n)
  show ?case
  proof (cases "n < 10")
    case True
    then show ?thesis by (subst itoa.simps) simp
  next
    case False
    with 1 have "digits_val 0 (itoa (n div 10)) = Some (n div 10)" by simp
    with False show ?thesis by (subst itoa.simps) (simp add: digits_val_append)
  qed
qed

lemma itoa_not_Nil [simp]: "itoa n \<noteq> []"
  by (subst itoa.simps) simp

lemma itoa_digits: "c \<in> set (itoa n) \<Longrightarrow> is_digit c"
proof (induction n rule: itoa.induct)
  case (1 n)
  show ?case
  proof (cases "n < 10")
    case True
    with 1(2) show ?thesis by (simp add: itoa.simps [of n])
  next
    case False
    with 1(2) have "c \<in> set (itoa (n div 10)) \<or> c = digit_char (n mod 10)"
      by (auto simp: itoa.simps [of n])
    with 1(1) False show ?thesis by auto
  qed
qed

lemma not_digit_itoa: "\<not> is_digit c \<Longrightarrow> c \<notin> set (itoa n)"
  using itoa_digits by blast

lemma not_digit_chars [simp]:
  "\<not> is_digit CHR '':''" "\<not> is_digit CHR ''@''" "\<not> is_digit CHR ''.''" "\<not> is_digit CHR ''/''"
  by (simp_all add: is_digit_def)

lemma parse_uint16_itoa [simp]: "parse_uint16 (itoa (unat p)) = Some p"
  by (simp add: parse_uint16_def digits_val_itoa)

lemma parse_uint16_Nil [simp]: "parse_uint16 [] = None"
  by (simp add: parse_uint16_def)

lemma digits_val_all_digits: "digits_val acc s = Some n \<Longrightarrow> \<forall>c \<in> set s. is_digit c"
  by (induction acc s rule: digits_val.induct) (auto split: if_splits)

lemma parse_uint16_Some_digits:
  "parse_uint16 s = Some p \<Longrightarrow> s \<noteq> [] \<and> (\<forall>c \<in> set s. is_digit c)"
  by (auto simp: parse_uint16_def dest: digits_val_all_digits split: if_splits option.splits)

section \<open>White space\<close>

text \<open>
  \<open>unicode.IsSpace\<close> on UTF-8 text: the ASCII spaces, U+0085 and U+00A0 (two bytes), U+1680,
  U+2000 to U+200A, U+2028, U+2029, U+202F, U+205F and U+3000 (three bytes). No continuation byte
  starts one of these sequences, so stepping over other text byte by byte finds the same spaces as
  decoding it rune by rune.
\<close>

definition ascii_space :: "char \<Rightarrow> bool" where
  "ascii_space c \<longleftrightarrow> (let n = of_char c :: nat in n = 32 \<or> (9 \<le> n \<and> n \<le> 13))"

definition space2 :: "char \<Rightarrow> char \<Rightarrow> bool" where
  "space2 a b \<longleftrightarrow> (of_char a :: nat) = 194 \<and> ((of_char b :: nat) = 133 \<or> (of_char b :: nat) = 160)"

definition space3 :: "char \<Rightarrow> char \<Rightarrow> char \<Rightarrow> bool" where
  "space3 a b c \<longleftrightarrow>
     (let x = of_char a :: nat; y = of_char b :: nat; z = of_char c :: nat in
        x = 225 \<and> y = 154 \<and> z = 128 \<or>
        x = 226 \<and> y = 128 \<and> (128 \<le> z \<and> z \<le> 138 \<or> z = 168 \<or> z = 169 \<or> z = 175) \<or>
        x = 226 \<and> y = 129 \<and> z = 159 \<or>
        x = 227 \<and> y = 128 \<and> z = 128)"

text \<open>The length of the space a string starts with, 0 when it starts with none.\<close>

fun space_len :: "string \<Rightarrow> nat" where
  "space_len [] = 0"
| "space_len [a] = (if ascii_space a then 1 else 0)"
| "space_len [a, b] = (if ascii_space a then 1 else if space2 a b then 2 else 0)"
| "space_len (a # b # c # s) =
     (if ascii_space a then 1 else if space2 a b then 2 else if space3 a b c then 3 else 0)"

text \<open>The same for the end of a string, which is given backwards.\<close>

fun rspace_len :: "string \<Rightarrow> nat" where
  "rspace_len [] = 0"
| "rspace_len [a] = (if ascii_space a then 1 else 0)"
| "rspace_len [b, a] = (if ascii_space b then 1 else if space2 a b then 2 else 0)"
| "rspace_len (c # b # a # s) =
     (if ascii_space c then 1 else if space2 b c then 2 else if space3 a b c then 3 else 0)"

lemma space_len_le: "space_len s \<le> length s"
  by (induction s rule: space_len.induct) auto

lemma rspace_len_le: "rspace_len s \<le> length s"
  by (induction s rule: rspace_len.induct) auto

function trim_left :: "string \<Rightarrow> string" where
  "trim_left s = (if space_len s = 0 then s else trim_left (drop (space_len s) s))"
  by pat_completeness auto
termination
proof (relation "measure length")
  fix s :: string
  assume "space_len s \<noteq> 0"
  with space_len_le [of s] show "(drop (space_len s) s, s) \<in> measure length" by simp
qed simp

function trim_rev :: "string \<Rightarrow> string" where
  "trim_rev s = (if rspace_len s = 0 then s else trim_rev (drop (rspace_len s) s))"
  by pat_completeness auto
termination
proof (relation "measure length")
  fix s :: string
  assume "rspace_len s \<noteq> 0"
  with rspace_len_le [of s] show "(drop (rspace_len s) s, s) \<in> measure length" by simp
qed simp

declare trim_left.simps [simp del] trim_rev.simps [simp del]

definition trim_space :: "string \<Rightarrow> string" where
  "trim_space s = rev (trim_rev (rev (trim_left s)))"

lemma trim_left_id: "space_len s = 0 \<Longrightarrow> trim_left s = s"
  by (subst trim_left.simps) simp

lemma trim_rev_id: "rspace_len s = 0 \<Longrightarrow> trim_rev s = s"
  by (subst trim_rev.simps) simp

text \<open>\<open>strings.Fields\<close>: the words between white space. The second argument is the word read so far.\<close>

function fields_from :: "string \<Rightarrow> string \<Rightarrow> string list" where
  "fields_from [] w = (if w = [] then [] else [w])"
| "fields_from (c # cs) w =
     (if space_len (c # cs) = 0 then fields_from cs (w @ [c])
      else (if w = [] then [] else [w]) @ fields_from (drop (space_len (c # cs)) (c # cs)) [])"
  by pat_completeness auto
termination
proof (relation "measure (\<lambda>(s, w). length s)")
  fix c :: char and cs w :: string
  assume "space_len (c # cs) \<noteq> 0"
  with space_len_le [of "c # cs"]
  show "((drop (space_len (c # cs)) (c # cs), []), c # cs, w) \<in> measure (\<lambda>(s, w). length s)"
    by simp
qed simp_all

definition strings_fields :: "string \<Rightarrow> string list" where
  "strings_fields s = fields_from s []"

lemma fields_from_nonempty: "w \<in> set (fields_from s v) \<Longrightarrow> w \<noteq> []"
  by (induction s v rule: fields_from.induct) (auto split: if_splits)

lemma fields_nonempty: "[] \<notin> set (strings_fields s)"
  using fields_from_nonempty by (auto simp: strings_fields_def)

text \<open>Words of ASCII characters that are no spaces: what a line of a targets file is made of.\<close>

definition plain_word :: "string \<Rightarrow> bool" where
  "plain_word w \<longleftrightarrow> w \<noteq> [] \<and> (\<forall>c \<in> set w. (of_char c :: nat) < 128 \<and> \<not> ascii_space c)"

lemma space_len_plain:
  "(of_char c :: nat) < 128 \<Longrightarrow> \<not> ascii_space c \<Longrightarrow> space_len (c # s) = 0"
  by (induction "c # s" rule: space_len.induct) (auto simp: space2_def space3_def Let_def)

lemma space_len_space: "ascii_space c \<Longrightarrow> space_len (c # s) = 1"
  by (induction "c # s" rule: space_len.induct) auto

lemma ascii_space_blank [simp]: "ascii_space CHR '' ''"
  by (simp add: ascii_space_def)

lemma fields_from_plain:
  "\<forall>c \<in> set u. (of_char c :: nat) < 128 \<and> \<not> ascii_space c \<Longrightarrow>
     fields_from (u @ s) w = fields_from s (w @ u)"
  by (induction u arbitrary: w) (simp_all add: space_len_plain)

lemma fields_from_space:
  "ascii_space c \<Longrightarrow> fields_from (c # s) w = (if w = [] then [] else [w]) @ fields_from s []"
  by (simp add: space_len_space)

fun join_words :: "string list \<Rightarrow> string" where
  "join_words [] = []"
| "join_words [w] = w"
| "join_words (w # ws) = w @ '' '' @ join_words ws"

lemma fields_join_words:
  "\<forall>w \<in> set ws. plain_word w \<Longrightarrow> strings_fields (join_words ws) = ws"
proof (induction ws rule: join_words.induct)
  case 1
  show ?case by (simp add: strings_fields_def)
next
  case (2 w)
  then show ?case
    using fields_from_plain [of w "[]" "[]"] by (simp add: strings_fields_def plain_word_def)
next
  case (3 w v ws)
  have "fields_from (w @ '' '' @ join_words (v # ws)) [] = w # fields_from (join_words (v # ws)) []"
    using 3(2) fields_from_plain [of w "'' '' @ join_words (v # ws)" "[]"]
    by (simp add: plain_word_def fields_from_space del: fields_from.simps)
  with 3 show ?case by (simp add: strings_fields_def)
qed

section \<open>The lines of a bufio.Scanner\<close>

text \<open>
  \<open>bufio.ScanLines\<close>: the text between newlines, without a carriage return at the end of a line; no
  empty last line. A line that does not fit the buffer of 65536 bytes ends the scan, and the scanner
  keeps \<open>ErrTooLong\<close> for its \<open>Err\<close> method.
\<close>

definition max_token :: nat where
  "max_token = 65536"

definition drop_cr :: "string \<Rightarrow> string" where
  "drop_cr l = (if l \<noteq> [] \<and> (of_char (last l) :: nat) = 13 then butlast l else l)"

definition raw_lines :: "string \<Rightarrow> string list" where
  "raw_lines s = (let ls = split_on (CHR 0x0A) s in if last ls = [] then butlast ls else ls)"

definition scan_lines :: "string \<Rightarrow> string list" where
  "scan_lines s = map drop_cr (takeWhile (\<lambda>l. length l < max_token) (raw_lines s))"

definition scan_err :: "string \<Rightarrow> bool" where
  "scan_err s \<longleftrightarrow> (\<exists>l \<in> set (raw_lines s). max_token \<le> length l)"

lemma scan_lines_complete: "\<not> scan_err s \<Longrightarrow> scan_lines s = map drop_cr (raw_lines s)"
proof -
  assume "\<not> scan_err s"
  then have "takeWhile (\<lambda>l. length l < max_token) (raw_lines s) = raw_lines s"
    by (simp add: scan_err_def not_le takeWhile_eq_all_conv)
  then show ?thesis by (simp only: scan_lines_def)
qed

end
