(* ===== verification/Net_IP.thy ===== *)
theory Net_IP
  imports Go_Strings
begin

text \<open>
  IP addresses as Go's standard library reads and prints them: \<open>net.ParseIP\<close> (on \<open>net/netip\<close>),
  \<open>IP.To4\<close>, \<open>IP.String\<close> and \<open>net.JoinHostPort\<close>. The program hands user input to \<open>ParseIP\<close> and
  prints the address of a header for the dialer, so what these functions accept and print is part of
  its behaviour.
\<close>

type_synonym ip = "byte list"

section \<open>IPv4\<close>

text \<open>
  \<open>parseIPv4Fields\<close>: the character before, the value and the number of digits of the current field,
  the fields read. A field has no leading zero and is at most 255; a dot is neither first nor last
  nor next to another dot; there are four fields.
\<close>

fun v4_fields :: "char option \<Rightarrow> nat \<Rightarrow> nat \<Rightarrow> byte list \<Rightarrow> string \<Rightarrow> ip option" where
  "v4_fields prev val digs fs [] = (if length fs < 3 then None else Some (fs @ [of_nat val]))"
| "v4_fields prev val digs fs (c # cs) =
     (if is_digit c then
        if digs = 1 \<and> val = 0 then None
        else if 255 < val * 10 + digit_val c then None
        else v4_fields (Some c) (val * 10 + digit_val c) (Suc digs) fs cs
      else if c = CHR ''.'' then
        if prev = None \<or> cs = [] \<or> prev = Some (CHR ''.'') \<or> length fs = 3 then None
        else v4_fields (Some c) 0 0 (fs @ [of_nat val]) cs
      else None)"

definition parse_ipv4 :: "string \<Rightarrow> ip option" where
  "parse_ipv4 s = v4_fields None 0 0 [] s"

definition v4_string :: "ip \<Rightarrow> string" where
  "v4_string b =
     itoa (unat (b ! 0)) @ ''.'' @ itoa (unat (b ! 1)) @ ''.'' @
     itoa (unat (b ! 2)) @ ''.'' @ itoa (unat (b ! 3))"

text \<open>The sixteen-byte form of an IPv4 address, and back.\<close>

definition v4_in_v6 :: "ip \<Rightarrow> ip" where
  "v4_in_v6 b = replicate 10 0 @ [255, 255] @ b"

definition to4 :: "ip \<Rightarrow> ip option" where
  "to4 b =
     (if length b = 4 then Some b
      else if length b = 16 \<and> take 12 b = replicate 10 0 @ [255, 255] then Some (drop 12 b)
      else None)"

lemma to4_v4_in_v6 [simp]: "length b = 4 \<Longrightarrow> to4 (v4_in_v6 b) = Some b"
  by (simp add: to4_def v4_in_v6_def numeral_eq_Suc)

lemma length_to4: "to4 b = Some c \<Longrightarrow> length c = 4"
  by (auto simp: to4_def split: if_splits)

lemma itoa_snoc: "0 < a \<Longrightarrow> d < 10 \<Longrightarrow> itoa (a * 10 + d) = itoa a @ [digit_char d]"
  by (subst itoa.simps) simp

lemma itoa_digit: "d < 10 \<Longrightarrow> itoa d = [digit_char d]"
  by (subst itoa.simps) simp

lemma byte_itoa_cases:
  fixes n :: nat
  assumes "n < 256"
  obtains (one) "n < 10"
    | (two) a d where "0 < a" "a < 10" "d < 10" "n = a * 10 + d"
    | (three) a d e where "0 < a" "a < 10" "d < 10" "e < 10" "n = (a * 10 + d) * 10 + e"
proof -
  have split: "m = m div 10 * 10 + m mod 10" "m mod 10 < 10" for m :: nat by simp_all
  consider "n < 10" | "10 \<le> n" "n < 100" | "100 \<le> n" by linarith
  then show thesis
  proof cases
    case 1
    then show thesis by (rule one)
  next
    case 2
    then have "0 < n div 10" "n div 10 < 10" by arith+
    then show thesis using two split by blast
  next
    case 3
    with assms have "0 < n div 10 div 10" "n div 10 div 10 < 10" by arith+
    then show thesis using three [of "n div 10 div 10" "n div 10 mod 10" "n mod 10"] split by simp
  qed
qed

lemma v4_fields_itoa:
  fixes n :: nat
  assumes "n < 256"
  shows "\<exists>c k. is_digit c \<and> v4_fields prev 0 0 fs (itoa n @ s) = v4_fields (Some c) n k fs s"
  using assms
proof (cases rule: byte_itoa_cases)
  case one
  then show ?thesis
    by (intro exI [of _ "digit_char n"] exI [of _ 1]) (simp add: itoa_digit)
next
  case (two a d)
  with assms show ?thesis
    by (intro exI [of _ "digit_char d"] exI [of _ 2]) (simp add: itoa_digit itoa_snoc numeral_2_eq_2)
next
  case (three a d e)
  then have i: "itoa n = [digit_char a, digit_char d, digit_char e]"
    using itoa_snoc [of "a * 10 + d" e] itoa_snoc [of a d] itoa_digit [of a] by simp
  show ?thesis unfolding i
    using three assms by (intro exI [of _ "digit_char e"] exI [of _ 3]) (simp add: numeral_3_eq_3)
qed

lemma v4_fields_dotted:
  assumes "length fs < 3" and "s \<noteq> []"
  shows "v4_fields prev 0 0 fs (itoa (unat b) @ ''.'' @ s) = v4_fields (Some (CHR ''.'')) 0 0 (fs @ [b]) s"
proof -
  have "unat b < 256" using unsigned_less [of b, where ?'a = nat] by simp
  then obtain c k where c: "is_digit c"
    and "v4_fields prev 0 0 fs (itoa (unat b) @ ''.'' @ s) = v4_fields (Some c) (unat b) k fs (''.'' @ s)"
    using v4_fields_itoa [of "unat b" prev fs "''.'' @ s"] by auto
  moreover have "c \<noteq> CHR ''.''" using c by auto
  ultimately show ?thesis using assms by simp
qed

text \<open>Every IPv4 address is read back from its text.\<close>

lemma parse_ipv4_v4_string:
  assumes "length b = 4"
  shows "parse_ipv4 (v4_string b) = Some b"
proof -
  from assms obtain p q r t where b: "b = [p, q, r, t]"
    by (auto simp: numeral_eq_Suc length_Suc_conv)
  have t: "unat t < 256" using unsigned_less [of t, where ?'a = nat] by simp
  have "parse_ipv4 (v4_string b) = v4_fields (Some (CHR ''.'')) 0 0 [p, q, r] (itoa (unat t) @ [])"
    unfolding parse_ipv4_def v4_string_def b
    by (simp add: v4_fields_dotted [simplified])
  also obtain c k where "\<dots> = v4_fields (Some c) (unat t) k [p, q, r] []"
    using v4_fields_itoa [OF t, of "Some (CHR ''.'')" "[p, q, r]" "[]"] by auto
  also have "\<dots> = Some b" by (simp add: b)
  finally show ?thesis .
qed

lemma length_v4_fields: "v4_fields prev val digs fs s = Some b \<Longrightarrow> length fs \<le> 3 \<Longrightarrow> length b = 4"
  by (induction prev val digs fs s rule: v4_fields.induct) (auto split: if_splits)

lemma length_parse_ipv4: "parse_ipv4 s = Some b \<Longrightarrow> length b = 4"
  by (auto simp: parse_ipv4_def dest: length_v4_fields)

section \<open>IPv6\<close>

definition hex_val :: "char \<Rightarrow> nat option" where
  "hex_val c =
     (let n = of_char c :: nat in
        if 48 \<le> n \<and> n \<le> 57 then Some (n - 48)
        else if 97 \<le> n \<and> n \<le> 102 then Some (n - 87)
        else if 65 \<le> n \<and> n \<le> 70 then Some (n - 55)
        else None)"

text \<open>One group: the number of digits and the value read so far; more than four digits fail.\<close>

fun hex_group :: "nat \<Rightarrow> nat \<Rightarrow> string \<Rightarrow> (nat \<times> nat \<times> string) option" where
  "hex_group off acc [] = Some (off, acc, [])"
| "hex_group off acc (c # cs) =
     (case hex_val c of
        None \<Rightarrow> Some (off, acc, c # cs)
      | Some v \<Rightarrow> if 3 < off then None else hex_group (Suc off) (16 * acc + v) cs)"

text \<open>
  The loop of \<open>parseIPv6\<close>: the bytes read, where the ellipsis stands, the text left. It stops at
  sixteen bytes, at the end of the text, or after an IPv4 address in the last four bytes.
\<close>

function v6_loop :: "ip \<Rightarrow> nat option \<Rightarrow> string \<Rightarrow> (ip \<times> nat option \<times> string) option" where
  "v6_loop b el s =
     (if length b < 16 then
        (case hex_group 0 0 s of
           None \<Rightarrow> None
         | Some (off, acc, r) \<Rightarrow>
             if off = 0 then None
             else if r \<noteq> [] \<and> hd r = CHR ''.'' then
               if el = None \<and> length b \<noteq> 12 then None
               else if 16 < length b + 4 then None
               else (case v4_fields None 0 0 [] s of
                       None \<Rightarrow> None
                     | Some f \<Rightarrow> Some (b @ f, el, []))
             else
               (let b' = b @ [of_nat (acc div 256), of_nat acc] in
                  case r of
                    [] \<Rightarrow> Some (b', el, [])
                  | c # r1 \<Rightarrow>
                      if c \<noteq> CHR '':'' \<or> r1 = [] then None
                      else if hd r1 = CHR '':'' then
                        if el \<noteq> None then None
                        else if tl r1 = [] then Some (b', Some (length b'), [])
                        else v6_loop b' (Some (length b')) (tl r1)
                      else v6_loop b' el r1))
      else Some (b, el, s))"
  by pat_completeness auto
termination by (relation "measure (\<lambda>(b, el, s). 16 - length b)") auto

declare v6_loop.simps [simp del]

definition v6_finish :: "(ip \<times> nat option \<times> string) option \<Rightarrow> ip option" where
  "v6_finish res =
     (case res of
        None \<Rightarrow> None
      | Some (b, el, s) \<Rightarrow>
          if s \<noteq> [] then None
          else if length b < 16 then
            (case el of
               None \<Rightarrow> None
             | Some e \<Rightarrow> Some (take e b @ replicate (16 - length b) 0 @ drop e b))
          else if el \<noteq> None then None
          else Some b)"

text \<open>A zone makes \<open>net.ParseIP\<close> fail, whatever stands before it.\<close>

definition parse_ipv6 :: "string \<Rightarrow> ip option" where
  "parse_ipv6 s =
     (if CHR ''%'' \<in> set s then None
      else if take 2 s = ''::'' then
        if drop 2 s = [] then Some (replicate 16 0)
        else v6_finish (v6_loop [] (Some 0) (drop 2 s))
      else v6_finish (v6_loop [] None s))"

fun ip_form :: "string \<Rightarrow> char option" where
  "ip_form [] = None"
| "ip_form (c # cs) =
     (if c = CHR ''.'' \<or> c = CHR '':'' \<or> c = CHR ''%'' then Some c else ip_form cs)"

text \<open>\<open>net.ParseIP\<close>: sixteen bytes, or \<open>nil\<close>.\<close>

definition parse_ip :: "string \<Rightarrow> ip option" where
  "parse_ip s =
     (case ip_form s of
        None \<Rightarrow> None
      | Some c \<Rightarrow>
          if c = CHR ''.'' then map_option v4_in_v6 (parse_ipv4 s)
          else if c = CHR '':'' then parse_ipv6 s
          else None)"

section \<open>Printing\<close>

fun hex_string :: "nat \<Rightarrow> string" where
  "hex_string n =
     (if n < 16 then [''0123456789abcdef'' ! n]
      else hex_string (n div 16) @ [''0123456789abcdef'' ! (n mod 16)])"

declare hex_string.simps [simp del]

definition v6_groups :: "ip \<Rightarrow> nat list" where
  "v6_groups b = map (\<lambda>i. 256 * unat (b ! (2 * i)) + unat (b ! (2 * i + 1))) [0..<8]"

text \<open>The longest run of at least two zero groups, the first one where two are as long.\<close>

definition longer_run :: "nat list \<Rightarrow> nat \<Rightarrow> nat \<times> nat \<Rightarrow> nat \<times> nat" where
  "longer_run gs i best =
     (let l = length (takeWhile (\<lambda>g. g = 0) (drop i gs)) in
        if 2 \<le> l \<and> snd best - fst best < l then (i, i + l) else best)"

definition zero_run :: "nat list \<Rightarrow> nat \<times> nat" where
  "zero_run gs = fold (longer_run gs) [0..<8] (255, 255)"

function v6_out :: "nat list \<Rightarrow> nat \<times> nat \<Rightarrow> nat \<Rightarrow> string" where
  "v6_out gs z i =
     (if i < 8 then
        if i = fst z then
          ''::'' @ (if snd z < 8 \<and> i < snd z then hex_string (gs ! snd z) @ v6_out gs z (Suc (snd z)) else [])
        else (if 0 < i then '':'' else []) @ hex_string (gs ! i) @ v6_out gs z (Suc i)
      else [])"
  by pat_completeness auto
termination by (relation "measure (\<lambda>(gs, z, i). 8 - i)") auto

declare v6_out.simps [simp del]

definition v6_string :: "ip \<Rightarrow> string" where
  "v6_string b = (let gs = v6_groups b in v6_out gs (zero_run gs) 0)"

definition hex_bytes :: "ip \<Rightarrow> string" where
  "hex_bytes b =
     concat (map (\<lambda>x. [''0123456789abcdef'' ! (unat x div 16), ''0123456789abcdef'' ! (unat x mod 16)]) b)"

definition ip_string :: "ip \<Rightarrow> string" where
  "ip_string b =
     (if b = [] then ''<nil>''
      else if length b \<noteq> 4 \<and> length b \<noteq> 16 then ''?'' @ hex_bytes b
      else case to4 b of Some p \<Rightarrow> v4_string p | None \<Rightarrow> v6_string b)"

lemma ip_string_v4: "length b = 4 \<Longrightarrow> ip_string b = v4_string b"
  by (auto simp: ip_string_def to4_def)

lemma ip_form_v4_string: "ip_form (v4_string b) = Some (CHR ''.'')"
proof -
  have dots: "\<forall>c \<in> set s. is_digit c \<Longrightarrow> ip_form (s @ ''.'' @ t) = Some (CHR ''.'')" for s t
    by (induction s) (auto simp: is_digit_def)
  show ?thesis unfolding v4_string_def by (rule dots) (simp add: itoa_digits)
qed

lemma v4_string_no_slash: "CHR ''/'' \<notin> set (v4_string b)"
  by (auto simp: v4_string_def is_digit_def dest: itoa_digits)

lemma parse_ip_v4_string:
  "length b = 4 \<Longrightarrow> parse_ip (v4_string b) = Some (v4_in_v6 b)"
  by (simp add: parse_ip_def ip_form_v4_string parse_ipv4_v4_string)

text \<open>Host and port for the dialer and the listener: a host with a colon goes in brackets.\<close>

definition join_host_port :: "string \<Rightarrow> string \<Rightarrow> string" where
  "join_host_port host port =
     (if CHR '':'' \<in> set host then ''['' @ host @ '']:'' @ port else host @ '':'' @ port)"

end
