(* ===== verification/Go_IO.thy ===== *)
theory Go_IO
  imports Prelude
begin

text \<open>
  Input and output as the program uses Go's \<open>io\<close> package: the error values, a connection's
  incoming side as a script of what its \<open>Read\<close> calls meet, \<open>io.ReadFull\<close>, and the two interfaces
  the components rely on. \<open>full_reader\<close> is what a decoder needs from \<open>io.ReadFull\<close>; \<open>writer\<close> is
  what \<open>xio.WriteFull\<close> needs from an \<open>io.Writer\<close>.
\<close>

datatype io_error =
    EOF
  | ErrUnexpectedEOF
  | ErrShortWrite
  | ErrTimeout
  | ErrClosed
  | ErrOther string

section \<open>Reading\<close>

text \<open>
  The incoming side of a connection, as its peer and the network will deliver it: chunks of bytes
  (a \<open>Read\<close> returns at most one chunk, and what it has no room for stays), and failures such as a
  deadline that passes. After the script there is the end of the stream.
\<close>

datatype rd_event = Chunk "byte list" | Fail io_error

type_synonym stream = "rd_event list"

text \<open>\<open>r.Read(buf)\<close> with room for \<open>k\<close> bytes: the bytes put into the buffer, the error, the rest.\<close>

fun rd :: "nat \<Rightarrow> stream \<Rightarrow> byte list \<times> io_error option \<times> stream" where
  "rd k [] = ([], Some EOF, [])"
| "rd k (Fail e # s) = ([], Some e, s)"
| "rd k (Chunk bs # s) =
     (if length bs \<le> k then (bs, None, s) else (take k bs, None, Chunk (drop k bs) # s))"

text \<open>
  \<open>io.ReadFull(r, buf)\<close> with \<open>k\<close> bytes still missing and \<open>acc\<close> read: it calls \<open>Read\<close> until the
  buffer is full or an error comes. The end of the stream after some bytes is \<open>ErrUnexpectedEOF\<close>;
  every other error is returned as it is, and the bytes read before it are gone from the stream.
\<close>

fun read_loop :: "nat \<Rightarrow> byte list \<Rightarrow> stream \<Rightarrow> byte list \<times> io_error option \<times> stream" where
  "read_loop 0 acc s = (acc, None, s)"
| "read_loop (Suc k) acc [] = (acc, Some (if acc = [] then EOF else ErrUnexpectedEOF), [])"
| "read_loop (Suc k) acc (Fail e # s) =
     (acc, Some (if e = EOF \<and> acc \<noteq> [] then ErrUnexpectedEOF else e), s)"
| "read_loop (Suc k) acc (Chunk bs # s) =
     (if length bs \<le> Suc k then read_loop (Suc k - length bs) (acc @ bs) s
      else (acc @ take (Suc k) bs, None, Chunk (drop (Suc k) bs) # s))"

definition read_full :: "nat \<Rightarrow> stream \<Rightarrow> byte list \<times> io_error option \<times> stream" where
  "read_full k s = read_loop k [] s"

text \<open>Each round of the loop is one call of \<^const>\<open>rd\<close>.\<close>

lemma read_loop_rd:
  "0 < k \<Longrightarrow>
   read_loop k acc s =
     (case rd k s of
        (bs, None, s') \<Rightarrow> read_loop (k - length bs) (acc @ bs) s'
      | (bs, Some e, s') \<Rightarrow>
          (acc @ bs, Some (if e = EOF \<and> acc @ bs \<noteq> [] then ErrUnexpectedEOF else e), s'))"
  by (cases "(k, acc, s)" rule: read_loop.cases) auto

text \<open>The bytes a stream holds before its first failure.\<close>

fun pending :: "stream \<Rightarrow> byte list" where
  "pending [] = []"
| "pending (Fail e # s) = []"
| "pending (Chunk bs # s) = bs @ pending s"

lemma read_loop_enough:
  "k \<le> length (pending s) \<Longrightarrow>
     \<exists>s'. read_loop k acc s = (acc @ take k (pending s), None, s') \<and> pending s' = drop k (pending s)"
  by (induction k acc s rule: read_loop.induct) auto

lemma read_loop_short:
  "length (pending s) < k \<Longrightarrow> \<exists>e s'. read_loop k acc s = (acc @ pending s, Some e, s')"
  by (induction k acc s rule: read_loop.induct) auto

text \<open>
  The interface of \<open>io.ReadFull\<close>: it delivers exactly the next bytes when the source has that many,
  whatever the chunks, and fails otherwise. Every decoder of the program (the header, the UDP
  frames, the SOCKS5 messages) reads through it.
\<close>

locale full_reader =
  fixes rf :: "nat \<Rightarrow> 's \<Rightarrow> byte list \<times> io_error option \<times> 's"
    and avail :: "'s \<Rightarrow> byte list"
  assumes enough: "k \<le> length (avail s) \<Longrightarrow>
      \<exists>s'. rf k s = (take k (avail s), None, s') \<and> avail s' = drop k (avail s)"
    and short: "length (avail s) < k \<Longrightarrow> \<exists>bs e s'. rf k s = (bs, Some e, s')"
begin

lemma prefix:
  assumes "avail s = bs @ rest" and "length bs = k"
  obtains s' where "rf k s = (bs, None, s')" and "avail s' = rest"
  using enough [of k s] assms by auto

lemma ok_iff: "(\<exists>bs s'. rf k s = (bs, None, s')) \<longleftrightarrow> k \<le> length (avail s)"
proof (cases "k \<le> length (avail s)")
  case True
  then show ?thesis using enough [of k s] by auto
next
  case False
  then show ?thesis using short [of s k] by auto
qed

lemma ok_data:
  assumes "rf k s = (bs, None, s')"
  shows "avail s = bs @ avail s'" and "length bs = k"
proof -
  have "k \<le> length (avail s)" using assms ok_iff [of k s] by auto
  then have "bs = take k (avail s)" and "avail s' = drop k (avail s)" and "k \<le> length (avail s)"
    using enough [of k s] assms by auto
  then show "avail s = bs @ avail s'" and "length bs = k" by simp_all
qed

end

interpretation conn: full_reader read_full pending
proof unfold_locales
  fix k :: nat and s
  assume "k \<le> length (pending s)"
  then show "\<exists>s'. read_full k s = (take k (pending s), None, s') \<and> pending s' = drop k (pending s)"
    using read_loop_enough [of k s "[]"] by (simp add: read_full_def)
next
  fix s and k :: nat
  assume "length (pending s) < k"
  then show "\<exists>bs e s'. read_full k s = (bs, Some e, s')"
    using read_loop_short [of s k "[]"] by (auto simp: read_full_def)
qed

text \<open>A \<open>bytes.Buffer\<close>, which the tests read from, keeps the contract too.\<close>

definition buffer_read_full :: "nat \<Rightarrow> byte list \<Rightarrow> byte list \<times> io_error option \<times> byte list" where
  "buffer_read_full k bs =
     (if k \<le> length bs then (take k bs, None, drop k bs)
      else (bs, Some (if bs = [] then EOF else ErrUnexpectedEOF), []))"

interpretation buffer: full_reader buffer_read_full "\<lambda>bs. bs"
  by unfold_locales (auto simp: buffer_read_full_def)

section \<open>Writing\<close>

text \<open>
  \<open>w.Write(p)\<close> returns the number of bytes it took, an error, and the writer's next state. The
  interface asks less than the documentation of \<open>io.Writer\<close>, as the fake writer of the tests does
  less: a writer may take only a part of the bytes without an error, but it does not take none.
\<close>

locale writer =
  fixes wr :: "'w \<Rightarrow> byte list \<Rightarrow> nat \<times> io_error option \<times> 'w"
    and sent :: "'w \<Rightarrow> byte list"
  assumes count: "wr w p = (n, e, w') \<Longrightarrow> n \<le> length p"
    and appends: "wr w p = (n, e, w') \<Longrightarrow> sent w' = sent w @ take n p"
    and progress: "wr w p = (n, None, w') \<Longrightarrow> p \<noteq> [] \<Longrightarrow> 0 < n"

text \<open>
  The outgoing side of a connection: the bytes it has accepted, the packets they came in, and what
  its \<open>Write\<close> calls will do: take at most so many bytes, or fail after so many.
\<close>

datatype wr_event = Accept nat | Refuse nat io_error

record sink =
  accepted :: "byte list"
  packets :: "byte list list"
  wr_script :: "wr_event list"

definition take_in :: "nat \<Rightarrow> byte list \<Rightarrow> sink \<Rightarrow> sink" where
  "take_in n p w =
     w\<lparr>accepted := accepted w @ take n p, packets := packets w @ [take n p],
       wr_script := tl (wr_script w)\<rparr>"

text \<open>Where the script ends the connection takes everything.\<close>

definition sink_write :: "sink \<Rightarrow> byte list \<Rightarrow> nat \<times> io_error option \<times> sink" where
  "sink_write w p =
     (case wr_script w of
        [] \<Rightarrow> (length p, None, take_in (length p) p w)
      | Accept n # _ \<Rightarrow> (let m = min (length p) (Suc n) in (m, None, take_in m p w))
      | Refuse n e # _ \<Rightarrow> (let m = min (length p) n in (m, Some e, take_in m p w)))"

lemma accepted_take_in [simp]: "accepted (take_in n p w) = accepted w @ take n p"
  by (simp add: take_in_def)

interpretation conn_out: writer sink_write accepted
  by unfold_locales
    (auto simp: sink_write_def Let_def split: list.splits wr_event.splits)

definition fresh_sink :: sink where
  "fresh_sink = \<lparr>accepted = [], packets = [], wr_script = []\<rparr>"

end
