(* ===== verification/Wire.thy ===== *)
theory Wire
  imports Net_IP Go_IO
begin

text \<open>
  The wire protocol, \<open>pkg/xnet\<close>: addresses (\<open>addr.go\<close>), the request header (\<open>header.go\<close>), the
  acknowledgement (\<open>ack.go\<close>) and the protocol numbers (\<open>proto.go\<close>). The header is proved to be a
  canonical, self-delimiting encoding: \<open>FromReader\<close> reads back what \<open>Marshal\<close> writes and leaves the
  bytes behind it, and accepts nothing else.
\<close>

section \<open>Protocol numbers and addresses\<close>

definition ProtocolTCP :: byte where "ProtocolTCP = 0"
definition ProtocolUDP :: byte where "ProtocolUDP = 1"
definition ProtocolKeepalive :: byte where "ProtocolKeepalive = 2"

lemmas protocol_defs = ProtocolTCP_def ProtocolUDP_def ProtocolKeepalive_def

definition AddrTypeIP :: byte where "AddrTypeIP = 0"
definition AddrTypeHost :: byte where "AddrTypeHost = 1"

record addr =
  a_typ :: byte
  a_data :: "byte list"

definition addr_marshal :: "addr \<Rightarrow> byte list" where
  "addr_marshal a = a_data a"

definition addr_string :: "addr \<Rightarrow> string" where
  "addr_string a =
     (if a_typ a = AddrTypeIP then ip_string (a_data a) else string_of (a_data a))"

definition addr_is_zero :: "addr \<Rightarrow> bool" where
  "addr_is_zero a \<longleftrightarrow> length (a_data a) = 0"

definition addr_from_bytes :: "byte \<Rightarrow> byte list \<Rightarrow> addr" where
  "addr_from_bytes addrType data = \<lparr>a_typ = addrType, a_data = data\<rparr>"

text \<open>\<open>AddrFromIP\<close>; the only error is the one for an invalid text, with the text in it.\<close>

definition addr_from_ip :: "string \<Rightarrow> string + addr" where
  "addr_from_ip ipStr =
     (case parse_ip ipStr of
        None \<Rightarrow> Inl (''invalid ip: '' @ ipStr)
      | Some ip \<Rightarrow>
          (case to4 ip of
             Some ipv4 \<Rightarrow> Inr \<lparr>a_typ = AddrTypeIP, a_data = ipv4\<rparr>
           | None \<Rightarrow> Inr \<lparr>a_typ = AddrTypeIP, a_data = ip\<rparr>))"

definition zero_addr :: addr where
  "zero_addr = \<lparr>a_typ = 0, a_data = []\<rparr>"

definition addr_from_host :: "string \<Rightarrow> addr" where
  "addr_from_host host = \<lparr>a_typ = AddrTypeHost, a_data = bytes_of host\<rparr>"

record addr_port =
  ap_addr :: addr
  ap_port :: u16

definition addr_port_from :: "addr \<Rightarrow> u16 \<Rightarrow> addr_port" where
  "addr_port_from a p = \<lparr>ap_addr = a, ap_port = p\<rparr>"

definition addr_port_string :: "addr_port \<Rightarrow> string" where
  "addr_port_string ap = join_host_port (addr_string (ap_addr ap)) (itoa (unat (ap_port ap)))"

text \<open>\<open>xnet.JoinHostPort\<close> (\<open>utils.go\<close>), which the server uses on the fields of a header.\<close>

definition xnet_join_host_port :: "string \<Rightarrow> u16 \<Rightarrow> string" where
  "xnet_join_host_port host port = join_host_port host (itoa (unat port))"

lemma addr_string_host [simp]: "addr_string (addr_from_host h) = h"
  by (simp add: addr_string_def addr_from_host_def AddrTypeIP_def AddrTypeHost_def)

lemma addr_from_ip_v4:
  "length b = 4 \<Longrightarrow> addr_from_ip (v4_string b) = Inr \<lparr>a_typ = AddrTypeIP, a_data = b\<rparr>"
  by (simp add: addr_from_ip_def parse_ip_v4_string)

lemma addr_from_ip_typ: "addr_from_ip s = Inr a \<Longrightarrow> a_typ a = AddrTypeIP"
  by (auto simp: addr_from_ip_def split: option.splits)

section \<open>Request identifiers\<close>

definition lengthRequestID :: nat where "lengthRequestID = 5"
definition lengthAllMandatoryFields :: nat where "lengthAllMandatoryFields = 12"

lemmas header_lengths = lengthRequestID_def lengthAllMandatoryFields_def

definition letterRunes :: string where
  "letterRunes = ''abcdefghijklmnopqrstuvwxyzABCDEFGHIJKLMNOPQRSTUVWXYZ0123456789''"

text \<open>\<open>rand.Intn(n)\<close> is the \<open>i\<close>-th draw of an arbitrary source, brought below \<open>n\<close>.\<close>

definition new_request_id :: "(nat \<Rightarrow> nat) \<Rightarrow> string" where
  "new_request_id rand =
     map (\<lambda>i. letterRunes ! (rand i mod length letterRunes)) [0..<lengthRequestID]"

lemma length_new_request_id [simp]: "length (new_request_id rand) = lengthRequestID"
  by (simp add: new_request_id_def)

lemma set_new_request_id: "set (new_request_id rand) \<subseteq> set letterRunes"
proof
  fix c
  assume "c \<in> set (new_request_id rand)"
  then obtain i where "c = letterRunes ! (rand i mod length letterRunes)"
    by (auto simp: new_request_id_def)
  moreover have "rand i mod length letterRunes < length letterRunes"
    by (rule mod_less_divisor) (simp add: letterRunes_def)
  ultimately show "c \<in> set letterRunes" by simp
qed

section \<open>The header\<close>

record header =
  hVersion :: byte
  hRequestID :: string
  hProtocol :: byte
  hPort :: u16
  hAddr :: addr

definition header_marshal :: "header \<Rightarrow> byte list" where
  "header_marshal h =
     (let addrBytes = addr_marshal (hAddr h);
          totalLen = lengthAllMandatoryFields + length addrBytes
      in [hVersion h]
         @ put_uint16 (of_nat totalLen)
         @ copy_slice (replicate lengthRequestID 0) (bytes_of (hRequestID h))
         @ [hProtocol h]
         @ put_uint16 (hPort h)
         @ [a_typ (hAddr h)]
         @ copy_slice (replicate (length addrBytes) 0) addrBytes)"

datatype header_error =
    ReadTotalLength io_error
  | BodyTooShort u16
  | ReadFullBody io_error

text \<open>
  \<open>(*Header).FromReader\<close>: the header as the method leaves it, the error, the reader's next state.
  First what follows the length field: the body is at least nine bytes, so no index of the code is
  out of range.
\<close>

definition header_body ::
  "(nat \<Rightarrow> 's \<Rightarrow> byte list \<times> io_error option \<times> 's) \<Rightarrow> header \<Rightarrow> u16 \<Rightarrow> 's
   \<Rightarrow> header \<times> header_error option \<times> 's"
where
  "header_body rf h totalLen s =
     (if totalLen < of_nat lengthAllMandatoryFields then (h, Some (BodyTooShort totalLen), s)
      else
        (case rf (unat (totalLen - 3)) s of
           (_, Some e, s') \<Rightarrow> (h, Some (ReadFullBody e), s')
         | (bodyBuf, None, s') \<Rightarrow>
             (h\<lparr>hRequestID := string_of (take lengthRequestID bodyBuf),
                hProtocol := bodyBuf ! 5,
                hPort := get_uint16 (take 2 (drop 6 bodyBuf)),
                hAddr := addr_from_bytes (bodyBuf ! 8) (drop 9 bodyBuf)\<rparr>,
              None, s')))"

definition header_from_reader ::
  "(nat \<Rightarrow> 's \<Rightarrow> byte list \<times> io_error option \<times> 's) \<Rightarrow> header \<Rightarrow> 's
   \<Rightarrow> header \<times> header_error option \<times> 's"
where
  "header_from_reader rf h s =
     (case rf 3 s of
        (_, Some e, s1) \<Rightarrow> (h, Some (ReadTotalLength e), s1)
      | (lengthBuf, None, s1) \<Rightarrow>
          header_body rf (h\<lparr>hVersion := lengthBuf ! 0\<rparr>) (get_uint16 (drop 1 lengthBuf)) s1)"

text \<open>What a header must satisfy to survive the trip: five bytes of identifier, a 16-bit length.\<close>

definition wf_header :: "header \<Rightarrow> bool" where
  "wf_header h \<longleftrightarrow>
     length (hRequestID h) = lengthRequestID \<and>
     lengthAllMandatoryFields + length (a_data (hAddr h)) < 65536"

lemma header_marshal_wf:
  assumes "wf_header h"
  shows "header_marshal h =
    hVersion h # put_uint16 (of_nat (12 + length (a_data (hAddr h)))) @ bytes_of (hRequestID h)
    @ hProtocol h # put_uint16 (hPort h) @ a_typ (hAddr h) # a_data (hAddr h)"
  using assms by (simp add: header_marshal_def wf_header_def addr_marshal_def header_lengths Let_def)

lemma length_header_marshal:
  "length (header_marshal h) = lengthAllMandatoryFields + length (a_data (hAddr h))"
  by (simp add: header_marshal_def Let_def addr_marshal_def header_lengths)

lemma total_len_ge_3:
  fixes t :: u16
  assumes "\<not> t < of_nat lengthAllMandatoryFields"
  shows "unat (t - 3) = unat t - 3" and "12 \<le> unat t"
proof -
  have "12 \<le> t" using assms by (simp add: header_lengths not_less)
  then show "12 \<le> unat t" by (simp add: word_le_nat_alt)
  then have "3 \<le> t" by (simp add: word_le_nat_alt)
  then show "unat (t - 3) = unat t - 3" by (simp add: unat_sub)
qed

lemma body_layout:
  assumes "9 \<le> length b"
  shows "b = take 5 b @ b ! 5 # take 2 (drop 6 b) @ b ! 8 # drop 9 b"
proof -
  from assms obtain b0 b1 b2 b3 b4 b5 b6 b7 b8 r where "b = b0 # b1 # b2 # b3 # b4 # b5 # b6 # b7 # b8 # r"
    by (auto simp: numeral_eq_Suc Suc_le_length_iff)
  then show ?thesis by simp
qed

context full_reader
begin

lemma header_decodes:
  assumes wf: "wf_header h" and av: "avail s = header_marshal h @ rest"
  shows "\<exists>s'. header_from_reader rf h0 s = (h, None, s') \<and> avail s' = rest"
proof -
  let ?n = "12 + length (a_data (hAddr h))"
  let ?t = "of_nat ?n :: u16"
  let ?body = "bytes_of (hRequestID h) @ hProtocol h # put_uint16 (hPort h)
    @ a_typ (hAddr h) # a_data (hAddr h)"
  have n: "?n < 65536" and id: "length (hRequestID h) = 5"
    using wf by (simp_all add: wf_header_def header_lengths)
  then have t: "unat ?t = ?n" by (simp only: unat_u16_small)
  have notshort: "\<not> ?t < of_nat lengthAllMandatoryFields"
    using t by (simp only: word_less_nat_alt header_lengths) simp
  have av3: "avail s = (hVersion h # put_uint16 ?t) @ (?body @ rest)"
    using av header_marshal_wf [OF wf] by simp
  obtain s1 where r1: "rf 3 s = (hVersion h # put_uint16 ?t, None, s1)" and s1: "avail s1 = ?body @ rest"
    by (rule prefix [OF av3, of 3]) simp_all
  have len: "unat (?t - 3) = length ?body"
    using total_len_ge_3 [OF notshort] t id by simp
  obtain s2 where r2: "rf (unat (?t - 3)) s1 = (?body, None, s2)" and s2: "avail s2 = rest"
    by (rule prefix [OF s1, of "unat (?t - 3)"]) (simp_all only: len)
  have "header_from_reader rf h0 s = (h, None, s2)"
    unfolding header_from_reader_def r1
    using notshort r2 id
    by (simp add: header_body_def header_lengths nth_append addr_from_bytes_def)
  with s2 show ?thesis by blast
qed

lemma header_decoded:
  assumes dec: "header_from_reader rf h0 s = (h, None, s')"
  shows "wf_header h" and "avail s = header_marshal h @ avail s'"
proof -
  obtain lb s1 where r1: "rf 3 s = (lb, None, s1)"
    using dec by (auto simp: header_from_reader_def split: prod.splits option.splits)
  define t where "t = get_uint16 (drop 1 lb)"
  have hb: "header_body rf (h0\<lparr>hVersion := lb ! 0\<rparr>) t s1 = (h, None, s')"
    using dec r1 by (simp add: header_from_reader_def t_def)
  then have notshort: "\<not> t < of_nat lengthAllMandatoryFields"
    by (auto simp: header_body_def split: if_splits)
  then obtain body where r2: "rf (unat (t - 3)) s1 = (body, None, s')"
    using hb by (auto simp: header_body_def split: prod.splits option.splits)
  have h: "h = h0\<lparr>hVersion := lb ! 0, hRequestID := string_of (take 5 body), hProtocol := body ! 5,
      hPort := get_uint16 (take 2 (drop 6 body)), hAddr := addr_from_bytes (body ! 8) (drop 9 body)\<rparr>"
    using hb r2 notshort by (simp add: header_body_def header_lengths)
  have lb: "length lb = 3" and body: "length body = unat t - 3" and t12: "12 \<le> unat t"
    using ok_data [OF r1] ok_data [OF r2] total_len_ge_3 [OF notshort] by simp_all
  have tlt: "unat t < 65536" by simp
  show wf: "wf_header h"
    using h body t12 tlt by (simp add: wf_header_def header_lengths addr_from_bytes_def)
  have n: "12 + length (a_data (hAddr h)) = unat t"
    using h body t12 by (simp add: addr_from_bytes_def)
  have "put_uint16 t = drop 1 lb"
    unfolding t_def by (rule put_get_uint16) (simp add: lb)
  then have "lb = hVersion h # put_uint16 (of_nat (12 + length (a_data (hAddr h))))"
    using lb h unfolding n by (cases lb) simp_all
  moreover have "body = bytes_of (hRequestID h) @ hProtocol h # put_uint16 (hPort h)
      @ a_typ (hAddr h) # a_data (hAddr h)"
  proof -
    have "9 \<le> length body" using body t12 by simp
    then have "body = take 5 body @ body ! 5 # take 2 (drop 6 body) @ body ! 8 # drop 9 body"
      by (rule body_layout)
    moreover have "put_uint16 (get_uint16 (take 2 (drop 6 body))) = take 2 (drop 6 body)"
      by (rule put_get_uint16) (use body t12 in simp)
    ultimately show ?thesis using h by (simp add: addr_from_bytes_def)
  qed
  ultimately show "avail s = header_marshal h @ avail s'"
    using ok_data(1) [OF r1] ok_data(1) [OF r2] header_marshal_wf [OF wf] by simp
qed

text \<open>The same by the number of bytes there are, errors included.\<close>

lemma header_no_length:
  assumes "length (avail s) < 3"
  shows "\<exists>e s'. header_from_reader rf h0 s = (h0, Some (ReadTotalLength e), s')"
proof -
  obtain b e s1 where "rf 3 s = (b, Some e, s1)" using short [OF assms] by blast
  then show ?thesis by (simp add: header_from_reader_def)
qed

lemma header_with_length:
  assumes "3 \<le> length (avail s)"
  shows "\<exists>h1 s1. avail s1 = drop 3 (avail s) \<and>
    header_from_reader rf h0 s = header_body rf h1 (get_uint16 (take 2 (drop 1 (avail s)))) s1"
proof -
  obtain s1 where "rf 3 s = (take 3 (avail s), None, s1)" and "avail s1 = drop 3 (avail s)"
    using enough [OF assms] by blast
  then show ?thesis by (auto simp: header_from_reader_def drop_take)
qed

lemma header_body_short:
  assumes "unat t < 12"
  shows "header_body rf h t s = (h, Some (BodyTooShort t), s)"
  using assms by (simp add: header_body_def header_lengths word_less_nat_alt)

lemma header_body_read:
  assumes "12 \<le> unat t"
  shows "if length (avail s) < unat t - 3
    then \<exists>e s'. header_body rf h t s = (h, Some (ReadFullBody e), s')
    else \<exists>h' s'. header_body rf h t s = (h', None, s') \<and> avail s' = drop (unat t - 3) (avail s)"
proof -
  have notshort: "\<not> t < of_nat lengthAllMandatoryFields"
    using assms by (simp add: header_lengths word_less_nat_alt)
  note k = total_len_ge_3(1) [OF notshort]
  show ?thesis
  proof (cases "length (avail s) < unat t - 3")
    case True
    then obtain b e s' where "rf (unat (t - 3)) s = (b, Some e, s')" using short k by metis
    with True notshort show ?thesis by (simp add: header_body_def)
  next
    case False
    then obtain b s' where "rf (unat (t - 3)) s = (b, None, s')" "avail s' = drop (unat t - 3) (avail s)"
      using enough [of "unat (t - 3)" s] k by auto
    with False notshort show ?thesis by (simp add: header_body_def)
  qed
qed

end

section \<open>The acknowledgement\<close>

definition AckCodeOK :: byte where "AckCodeOK = 1"
definition AckCodeUnknownError :: byte where "AckCodeUnknownError = 2"
definition AckCodeNoSuchHost :: byte where "AckCodeNoSuchHost = 3"
definition AckCodeResolveTimeout :: byte where "AckCodeResolveTimeout = 4"
definition AckCodeConnectTimeout :: byte where "AckCodeConnectTimeout = 5"
definition AckCodeUnknownProtocol :: byte where "AckCodeUnknownProtocol = 6"

lemmas ack_code_defs = AckCodeOK_def AckCodeUnknownError_def AckCodeNoSuchHost_def
  AckCodeResolveTimeout_def AckCodeConnectTimeout_def AckCodeUnknownProtocol_def

definition ack_code_error :: "byte \<Rightarrow> string" where
  "ack_code_error c =
     (if c = AckCodeUnknownError then ''Unknown error''
      else if c = AckCodeNoSuchHost then ''No such host''
      else if c = AckCodeResolveTimeout then ''Resolve timeout''
      else if c = AckCodeConnectTimeout then ''Connect timeout''
      else if c = AckCodeUnknownProtocol then ''Unknown protocol''
      else ''Unknown code'')"

record acknowledgement =
  ack_Code :: byte

definition ack_marshal :: "acknowledgement \<Rightarrow> byte list" where
  "ack_marshal a = [ack_Code a]"

text \<open>
  \<open>(*Acknowledgement).FromReader\<close> calls \<open>Read\<close> once, not \<open>io.ReadFull\<close>: a \<open>Read\<close> that returns no
  byte and no error leaves the zero of the buffer as the code.
\<close>

definition ack_from_reader ::
  "acknowledgement \<Rightarrow> stream \<Rightarrow> acknowledgement \<times> io_error option \<times> stream"
where
  "ack_from_reader a s =
     (case rd 1 s of
        (_, Some e, s') \<Rightarrow> (a, Some e, s')
      | (bs, None, s') \<Rightarrow> (a\<lparr>ack_Code := copy_slice [0] bs ! 0\<rparr>, None, s'))"

lemma ack_from_reader_Fail [simp]: "ack_from_reader a (Fail e # s) = (a, Some e, s)"
  by (simp add: ack_from_reader_def)

lemma ack_from_reader_Nil [simp]: "ack_from_reader a [] = (a, Some EOF, [])"
  by (simp add: ack_from_reader_def)

lemma ack_from_reader_Chunk:
  "ack_from_reader a (Chunk (b # bs) # s) = (\<lparr>ack_Code = b\<rparr>, None, if bs = [] then s else Chunk bs # s)"
  by (cases a) (auto simp: ack_from_reader_def copy_slice_def)

section \<open>Properties\<close>

text \<open>
  C8: A header with a five-byte identifier and an address of at most 65523 bytes survives the trip: from
  any stream that delivers \<open>Marshal\<close>'s bytes, in whatever chunks, \<open>FromReader\<close> returns that header and
  leaves exactly the bytes that follow it.
\<close>

theorem header_roundtrip:
  assumes "wf_header h" and "pending s = header_marshal h @ rest"
  shows "\<exists>s'. header_from_reader read_full h0 s = (h, None, s') \<and> pending s' = rest"
  using assms by (rule conn.header_decodes)

definition example_header :: header where
  "example_header = \<lparr>hVersion = 0, hRequestID = ''00000'', hProtocol = ProtocolUDP, hPort = 53,
     hAddr = \<lparr>a_typ = AddrTypeIP, a_data = [192, 168, 1, 1]\<rparr>\<rparr>"

lemma example_header_wf: "wf_header example_header"
  by (simp add: wf_header_def example_header_def header_lengths)

lemma example_header_bytes:
  "header_marshal example_header =
     [0, 0, 0x10, 0x30, 0x30, 0x30, 0x30, 0x30, 1, 0, 53, 0, 192, 168, 1, 1]"
  by (simp add: header_marshal_def example_header_def addr_marshal_def header_lengths Let_def
      put_uint16_def protocol_defs AddrTypeIP_def bytes_of_def byte_of_def)

theorem header_roundtrip_witness:
  "\<exists>s'. header_from_reader read_full example_header
       [Chunk [0, 0], Chunk [0x10, 0x30, 0x30, 0x30, 0x30, 0x30, 1, 0], Chunk [53, 0, 192, 168, 1, 1, 7]]
     = (example_header, None, s') \<and> pending s' = [7]"
  by (rule header_roundtrip) (simp_all add: example_header_wf example_header_bytes)

text \<open>
  C34: \<open>FromReader\<close> accepts nothing but the encoding of a header: when it succeeds, the header is
  well-formed and the bytes it took from the stream are exactly what \<open>Marshal\<close> writes for it.
\<close>

theorem header_canonical:
  assumes "header_from_reader read_full h0 s = (h, None, s')"
  shows "wf_header h \<and> pending s = header_marshal h @ pending s'"
  using conn.header_decoded [OF assms] by blast

theorem header_canonical_witness:
  "wf_header example_header \<and> pending [Chunk (header_marshal example_header)]
     = header_marshal example_header @ pending []"
proof -
  have "header_from_reader read_full example_header [Chunk (header_marshal example_header)]
      = (example_header, None, [])"
    unfolding example_header_bytes by code_simp
  then show ?thesis by (rule header_canonical)
qed

text \<open>
  C35: Every way \<open>FromReader\<close> can fail, by the bytes the stream holds before its first failure: fewer
  than three bytes; a length field below twelve, after which just the three bytes are consumed; fewer
  bytes than the length field announces. Otherwise it succeeds.
\<close>

theorem header_from_reader_errors:
  "let (h, err, s') = header_from_reader read_full h0 s;
       bs = pending s;
       total = get_uint16 (take 2 (drop 1 bs))
   in if length bs < 3 then h = h0 \<and> (\<exists>e. err = Some (ReadTotalLength e))
      else if unat total < 12 then err = Some (BodyTooShort total) \<and> pending s' = drop 3 bs
      else if length bs < unat total then \<exists>e. err = Some (ReadFullBody e)
      else err = None \<and> pending s' = drop (unat total) bs"
proof (cases "length (pending s) < 3")
  case True
  then show ?thesis using conn.header_no_length [of s h0] by auto
next
  case False
  define t where "t = get_uint16 (take 2 (drop 1 (pending s)))"
  obtain h1 s1 where s1: "pending s1 = drop 3 (pending s)"
    and r: "header_from_reader read_full h0 s = header_body read_full h1 t s1"
    using conn.header_with_length [of s h0] False unfolding t_def by auto
  show ?thesis
  proof (cases "unat t < 12")
    case True
    with False r s1 conn.header_body_short [of t h1 s1] show ?thesis
      unfolding t_def by (simp add: Let_def)
  next
    case long: False
    then have "length (pending s1) < unat t - 3 \<longleftrightarrow> length (pending s) < unat t"
      and "drop (unat t - 3) (pending s1) = drop (unat t) (pending s)"
      using s1 False by auto
    with long False r conn.header_body_read [of t s1 h1] show ?thesis
      unfolding t_def by (auto simp: Let_def split: if_splits)
  qed
qed

text \<open>
  The 16-bit length field bounds the address: the header of an address of 65524 to 65535 bytes is
  written with a length that wrapped around to less than twelve, and the reader rejects it.
\<close>

lemma header_length_wraps:
  assumes "65524 \<le> length (a_data (hAddr h))" and "length (a_data (hAddr h)) < 65536"
    and "pending s = header_marshal h @ rest"
  shows "\<exists>h' s'. header_from_reader read_full h0 s =
    (h', Some (BodyTooShort (of_nat (length (a_data (hAddr h)) - 65524))), s')"
proof -
  let ?n = "12 + length (a_data (hAddr h))"
  let ?t = "of_nat ?n :: u16"
  have wrap: "?t = of_nat (length (a_data (hAddr h)) - 65524)"
  proof -
    have "unat ?t = unat (of_nat (length (a_data (hAddr h)) - 65524) :: u16)"
      using assms(1,2) by (simp only: unat_u16_of_nat) (simp add: mod_if)
    then show ?thesis by (simp only: word_unat_eq_iff)
  qed
  have small: "unat ?t < 12"
    unfolding wrap unat_u16_of_nat using assms(1,2) by (subst mod_less) arith+
  have "pending s = (hVersion h # put_uint16 ?t) @ drop 3 (pending s)"
    using assms(3) by (simp add: header_marshal_def Let_def addr_marshal_def header_lengths put_uint16_def)
  then obtain s1 where "read_full 3 s = (hVersion h # put_uint16 ?t, None, s1)"
    by (rule conn.prefix [of s _ _ 3]) simp_all
  then have "header_from_reader read_full h0 s = header_body read_full (h0\<lparr>hVersion := hVersion h\<rparr>) ?t s1"
    by (simp add: header_from_reader_def)
  also have "\<dots> = (h0\<lparr>hVersion := hVersion h\<rparr>, Some (BodyTooShort ?t), s1)"
    by (rule conn.header_body_short [OF small])
  finally show ?thesis unfolding wrap by blast
qed

text \<open>
  Every header the client builds is well-formed: \<open>NewRequestID\<close> draws five letters or digits,
  whatever the random source, so a request for an address of at most 65523 bytes can be decoded.
\<close>

lemma client_header_wf:
  "(wf_header \<lparr>hVersion = 0, hRequestID = new_request_id rand, hProtocol = p, hPort = port, hAddr = a\<rparr>
     \<longleftrightarrow> length (a_data a) < 65524)
   \<and> set (new_request_id rand) \<subseteq> set letterRunes"
  using set_new_request_id [of rand] by (auto simp: wf_header_def header_lengths)

text \<open>
  The acknowledgement: the byte \<open>Marshal\<close> writes is read back; a failed or ended stream is an
  error and leaves the code as it was. A \<open>Read\<close> that returns nothing without an error is taken for the
  code 0, which is not \<open>AckCodeOK\<close>.
\<close>

lemma ack_from_reader_cases:
  "ack_from_reader a (Chunk (ack_marshal b @ bs) # s) =
     (b, None, if bs = [] then s else Chunk bs # s)
   \<and> ack_from_reader a (Chunk [] # s) = (\<lparr>ack_Code = 0\<rparr>, None, s) \<and> 0 \<noteq> AckCodeOK
   \<and> ack_from_reader a (Fail e # s) = (a, Some e, s)
   \<and> ack_from_reader a [] = (a, Some EOF, [])"
  by (cases a, cases b)
    (simp add: ack_marshal_def ack_from_reader_Chunk ack_from_reader_def copy_slice_def ack_code_defs)

text \<open>
  An IPv4 address in its usual text becomes the four bytes of the header, and the server prints
  them as the same text for its dialer.
\<close>

lemma addr_from_ip_v4_text:
  assumes "length b = 4"
  shows "\<exists>a. addr_from_ip (v4_string b) = Inr a \<and> addr_marshal a = b \<and> addr_string a = v4_string b"
  using addr_from_ip_v4 [OF assms] assms
  by (simp add: addr_marshal_def addr_string_def ip_string_v4)

end
