(* ===== verification/Xio.thy ===== *)
theory Xio
  imports Go_IO
begin

text \<open>
  \<open>pkg/xio/write.go\<close>: \<open>WriteFull\<close>, which every sender of the program goes through. The loop may run
  forever on a writer that takes nothing and reports no error, so the model is a partial function;
  inside \<open>writer\<close> it is shown to return.
\<close>

partial_function (option) write_loop ::
  "('w \<Rightarrow> byte list \<Rightarrow> nat \<times> io_error option \<times> 'w) \<Rightarrow> byte list \<Rightarrow> nat \<Rightarrow> io_error option \<Rightarrow> 'w
   \<Rightarrow> (nat \<times> io_error option \<times> 'w) option"
where
  "write_loop wr p n err w =
     (if n < length p \<and> err = None
      then (case wr w (drop n p) of (nw, e, w') \<Rightarrow> write_loop wr p (n + nw) e w')
      else Some (n, err, w))"

definition write_full ::
  "('w \<Rightarrow> byte list \<Rightarrow> nat \<times> io_error option \<times> 'w) \<Rightarrow> 'w \<Rightarrow> byte list
   \<Rightarrow> (nat \<times> io_error option \<times> 'w) option"
where
  "write_full wr w p =
     (case write_loop wr p 0 None w of
        None \<Rightarrow> None
      | Some (n, err, w') \<Rightarrow>
          if n = length p then Some (n, None, w') else Some (n, Some ErrShortWrite, w'))"

lemma write_full_empty: "write_full wr w [] = Some (0, None, w)"
  by (simp add: write_full_def write_loop.simps)

context writer
begin

lemma write_loop_returns:
  assumes "n \<le> length p"
  shows "\<exists>m e w'. write_loop wr p n err w = Some (m, e, w') \<and> n \<le> m \<and> m \<le> length p \<and>
           sent w' = sent w @ take (m - n) (drop n p) \<and> (e = None \<longrightarrow> m = length p)"
  using assms
proof (induction "length p - n" arbitrary: n err w rule: less_induct)
  case less
  show ?case
  proof (cases "n < length p \<and> err = None")
    case False
    with less.prems show ?thesis
      by (auto simp: write_loop.simps [of wr p n err w])
  next
    case True
    obtain nw e w1 where weq: "wr w (drop n p) = (nw, e, w1)" by (metis prod_cases3)
    have nw: "nw \<le> length p - n" using count [OF weq] by simp
    have s1: "sent w1 = sent w @ take nw (drop n p)" using appends [OF weq] .
    have step: "write_loop wr p n err w = write_loop wr p (n + nw) e w1"
      using True weq by (simp add: write_loop.simps [of wr p n None w])
    show ?thesis
    proof (cases e)
      case (Some e')
      have "write_loop wr p (n + nw) (Some e') w1 = Some (n + nw, Some e', w1)"
        by (simp add: write_loop.simps)
      with step Some s1 nw True show ?thesis by auto
    next
      case None
      then have "0 < nw" using progress [of w "drop n p" nw w1] weq True by simp
      then have closer: "length p - (n + nw) < length p - n" and in_range: "n + nw \<le> length p"
        using nw True by linarith+
      obtain m e' w' where rec: "write_loop wr p (n + nw) e w1 = Some (m, e', w')"
        and m: "n + nw \<le> m" "m \<le> length p"
        and s': "sent w' = sent w1 @ take (m - (n + nw)) (drop (n + nw) p)"
        and e': "e' = None \<longrightarrow> m = length p"
        using less.hyps [OF closer in_range, of e w1] by auto
      have "take (m - n) (drop n p) = take nw (drop n p) @ take (m - (n + nw)) (drop (n + nw) p)"
      proof -
        have "m - n = nw + (m - (n + nw))" using m by simp
        then show ?thesis by (metis add.commute drop_drop take_add)
      qed
      with s1 s' have "sent w' = sent w @ take (m - n) (drop n p)" by simp
      with step rec m e' show ?thesis by auto
    qed
  qed
qed

text \<open>
  \<open>WriteFull\<close> returns, has sent a prefix of the data whose length it reports, and reports success
  exactly when it sent all of it.
\<close>

lemma write_full_returns:
  "\<exists>n e w'. write_full wr w p = Some (n, e, w') \<and> n \<le> length p \<and> sent w' = sent w @ take n p \<and>
     (e = None \<longleftrightarrow> n = length p) \<and> (e \<noteq> None \<longrightarrow> e = Some ErrShortWrite)"
proof -
  obtain m e w' where "write_loop wr p 0 None w = Some (m, e, w')" "m \<le> length p"
    "sent w' = sent w @ take m p"
    using write_loop_returns [of 0 p None w] by auto
  then show ?thesis by (cases "m = length p") (simp_all add: write_full_def)
qed

lemma write_full_success:
  assumes "write_full wr w p = Some (n, None, w')"
  shows "sent w' = sent w @ p"
  using write_full_returns [of w p] assms by auto

end

end
