(* ===== verification/Udp.thy ===== *)
theory Udp
  imports Wire Xio
begin

text \<open>
  UDP over the stream, \<open>pkg/xnet/udp.go\<close>: \<open>UDPConn\<close> puts the length of a packet in front of it,
  \<open>ReadUDPFromStream\<close> takes such a frame apart, and the two copying loops of \<open>ProxyUDP\<close> run them
  between the client's stream and the upstream socket. The peer's bytes and the deadlines that pass
  come from the script of the stream; the answers of the idle alarm are a parameter.
\<close>

definition UDPBufferSize :: nat where "UDPBufferSize = 65536 + 2"

section \<open>Frames\<close>

text \<open>
  \<open>(*UDPConn).Read\<close> and \<open>ReadFrom\<close>: the socket has put \<open>bs\<close> into \<open>buf[2:]\<close>, which cuts a packet that
  has no room, and returned \<open>e\<close>; the length goes in front. The result is the buffer, the count, the error.
\<close>

definition udp_conn_read ::
  "byte list \<Rightarrow> byte list \<Rightarrow> io_error option \<Rightarrow> byte list \<times> nat \<times> io_error option"
where
  "udp_conn_read buf packet e =
     (let bs = take (length buf - 2) packet; n = length bs in
        (put_uint16 (of_nat n) @ bs @ drop (n + 2) buf, n + 2, e))"

definition udp_frame :: "byte list \<Rightarrow> byte list" where
  "udp_frame d = put_uint16 (of_nat (length d)) @ d"

lemma udp_frame_nonempty [simp]: "udp_frame d \<noteq> []"
  by (simp add: udp_frame_def put_uint16_def)

text \<open>
  \<open>ReadUDPFromStream\<close> with a buffer of \<open>capacity\<close> bytes; slicing it further is a panic, here
  \<^const>\<open>None\<close>.
\<close>

definition read_udp_from_stream ::
  "(nat \<Rightarrow> 's \<Rightarrow> byte list \<times> io_error option \<times> 's) \<Rightarrow> nat \<Rightarrow> 's
   \<Rightarrow> (byte list \<times> io_error option \<times> 's) option"
where
  "read_udp_from_stream rf capacity s =
     (case rf 2 s of
        (_, Some e, s1) \<Rightarrow> Some ([], Some e, s1)
      | (lengthBuf, None, s1) \<Rightarrow>
          let length' = unat (get_uint16 lengthBuf) in
            if capacity < length' then None else Some (rf length' s1))"

lemma udp_conn_read_frame:
  assumes "length packet + 2 \<le> length buf"
  shows "case udp_conn_read buf packet e of (b, n, e') \<Rightarrow> take n b = udp_frame packet \<and> e' = e"
  using assms by (simp add: udp_conn_read_def udp_frame_def Let_def)

context full_reader
begin

lemma udp_frame_decodes:
  assumes "length d < 65536" and "length d \<le> capacity" and "avail s = udp_frame d @ rest"
  shows "\<exists>s'. read_udp_from_stream rf capacity s = Some (d, None, s') \<and> avail s' = rest"
proof -
  have av: "avail s = put_uint16 (of_nat (length d)) @ (d @ rest)"
    using assms(3) by (simp add: udp_frame_def)
  obtain s1 where r1: "rf 2 s = (put_uint16 (of_nat (length d)), None, s1)" and s1: "avail s1 = d @ rest"
    by (rule prefix [OF av, of 2]) simp_all
  obtain s2 where r2: "rf (length d) s1 = (d, None, s2)" and s2: "avail s2 = rest"
    by (rule prefix [OF s1, of "length d"]) simp_all
  have "read_udp_from_stream rf capacity s = Some (d, None, s2)"
    using r1 r2 assms(1,2) by (simp add: read_udp_from_stream_def Let_def)
  with s2 show ?thesis by blast
qed

end

lemma read_udp_no_panic:
  "read_udp_from_stream rf UDPBufferSize s \<noteq> None"
proof -
  have "\<not> UDPBufferSize < unat (v :: u16)" for v
    using unat_u16_less [of v] unfolding UDPBufferSize_def by linarith
  then show ?thesis
    by (auto simp: read_udp_from_stream_def Let_def simp del: not_None_eq
        split: prod.splits option.splits)
qed

section \<open>How much of a script is left\<close>

fun event_size :: "rd_event \<Rightarrow> nat" where
  "event_size (Chunk bs) = Suc (length bs)"
| "event_size (Fail e) = 1"

definition stream_size :: "stream \<Rightarrow> nat" where
  "stream_size s = sum_list (map event_size s)"

lemma stream_size_simps [simp]:
  "stream_size [] = 0" "stream_size (ev # s) = event_size ev + stream_size s"
  by (simp_all add: stream_size_def)

lemma read_loop_size:
  "read_loop k acc s = (bs, e, s') \<Longrightarrow> stream_size s' \<le> stream_size s"
  by (induction k acc s rule: read_loop.induct) (auto split: if_splits)

lemma read_loop_size_less:
  "read_loop k acc s = (bs, e, s') \<Longrightarrow> 0 < k \<Longrightarrow> s \<noteq> [] \<Longrightarrow> stream_size s' < stream_size s"
  by (induction k acc s rule: read_loop.induct)
    (auto split: if_splits dest!: read_loop_size simp: less_Suc_eq_le)

lemma read_udp_size:
  assumes "read_udp_from_stream read_full c s = Some (bs, e, s')" and "s \<noteq> []"
  shows "stream_size s' < stream_size s"
proof -
  obtain lb e1 s1 where r: "read_full 2 s = (lb, e1, s1)" by (metis prod_cases3)
  then have "stream_size s1 < stream_size s"
    using read_loop_size_less [of 2 "[]" s lb e1 s1] assms(2) by (simp add: read_full_def)
  moreover have "stream_size s' \<le> stream_size s1"
    using assms(1) r read_loop_size
    by (auto simp: read_udp_from_stream_def Let_def read_full_def split: option.splits if_splits)
  ultimately show ?thesis by simp
qed

lemma read_udp_Nil: "read_udp_from_stream read_full c [] = Some ([], Some EOF, [])"
  by (simp add: read_udp_from_stream_def read_full_def numeral_2_eq_2)

lemma read_udp_progress:
  "read_udp_from_stream read_full c s = Some (bs, e, s') \<Longrightarrow> e \<noteq> Some EOF \<Longrightarrow> stream_size s' < stream_size s"
  using read_udp_size by (cases "s = []") (auto simp: read_udp_Nil)

section \<open>The copying loops of ProxyUDP\<close>

definition is_timeout_error :: "io_error \<Rightarrow> bool" where
  "is_timeout_error e \<longleftrightarrow> e = ErrTimeout"

text \<open>
  From the client's stream to the upstream socket. \<open>fired i\<close> is the alarm's answer when the loop asks
  for the \<open>i\<close>-th time; each \<open>WriteFull\<close> to the socket sends one packet per \<open>Write\<close>. \<^const>\<open>None\<close> would
  be a panic, and does not happen.
\<close>

function down_to_up :: "(nat \<Rightarrow> bool) \<Rightarrow> nat \<Rightarrow> stream \<Rightarrow> sink \<Rightarrow> sink option" where
  "down_to_up fired i s w =
     (case read_udp_from_stream read_full UDPBufferSize s of
        None \<Rightarrow> None
      | Some (_, Some e, s') \<Rightarrow>
          if is_timeout_error e \<and> \<not> fired i then down_to_up fired (Suc i) s' w else Some w
      | Some (d, None, s') \<Rightarrow>
          (case write_full sink_write w d of
             None \<Rightarrow> None
           | Some (_, Some _, w') \<Rightarrow> Some w'
           | Some (_, None, w') \<Rightarrow> down_to_up fired i s' w'))"
  by pat_completeness auto
termination
  by (relation "measure (\<lambda>(fired, i, s, w). stream_size s)")
    (auto dest!: sym [of _ "read_udp_from_stream read_full _ _"] read_udp_progress
      simp: is_timeout_error_def)

declare down_to_up.simps [simp del]

text \<open>What the upstream socket delivers: packets, and reads that fail.\<close>

datatype udp_event = Datagram "byte list" | UdpFail io_error

text \<open>From the upstream socket to the client's stream; after the script the socket is closed.\<close>

fun up_to_down :: "(nat \<Rightarrow> bool) \<Rightarrow> nat \<Rightarrow> byte list \<Rightarrow> udp_event list \<Rightarrow> sink \<Rightarrow> sink option" where
  "up_to_down fired i buf [] w = Some w"
| "up_to_down fired i buf (UdpFail e # us) w =
     (if is_timeout_error e \<and> \<not> fired i then up_to_down fired (Suc i) buf us w else Some w)"
| "up_to_down fired i buf (Datagram d # us) w =
     (case udp_conn_read buf d None of
        (buf', n, _) \<Rightarrow>
          (case write_full sink_write w (take n buf') of
             None \<Rightarrow> None
           | Some (_, Some _, w') \<Rightarrow> Some w'
           | Some (_, None, w') \<Rightarrow> up_to_down fired i buf' us w'))"

text \<open>A socket that takes every packet whole.\<close>

lemma write_full_open:
  assumes "wr_script w = []"
  shows "write_full sink_write w d =
    Some (length d, None, if d = [] then w else take_in (length d) d w)"
proof (cases "d = []")
  case True
  then show ?thesis by (simp add: write_full_empty)
next
  case False
  with assms show ?thesis
    by (simp add: write_full_def write_loop.simps sink_write_def)
qed

lemma take_in_open [simp]:
  "wr_script w = [] \<Longrightarrow> wr_script (take_in n d w) = []"
  "packets (take_in n d w) = packets w @ [take n d]"
  by (simp_all add: take_in_def)

section \<open>Reading through the script\<close>

definition no_fail :: "stream \<Rightarrow> bool" where
  "no_fail s \<longleftrightarrow> (\<forall>ev \<in> set s. \<exists>bs. ev = Chunk bs)"

lemma no_fail_simps [simp]:
  "no_fail []" "no_fail (Chunk bs # s) = no_fail s" "\<not> no_fail (Fail e # s)"
  by (simp_all add: no_fail_def)

lemma read_loop_through:
  "no_fail s \<Longrightarrow> k \<le> length (pending s) \<Longrightarrow>
     \<exists>s'. read_loop k acc (s @ t) = (acc @ take k (pending s), None, s' @ t) \<and>
       pending s' = drop k (pending s) \<and> no_fail s'"
proof (induction k acc s rule: read_loop.induct)
  case (4 k acc bs s)
  show ?case
  proof (cases "length bs \<le> Suc k")
    case True
    then show ?thesis using 4 by auto
  next
    case False
    then show ?thesis
      using 4 by (auto intro!: exI [of _ "Chunk (drop (Suc k) bs) # s"])
  qed
qed auto

lemma read_loop_exhausts:
  "no_fail s \<Longrightarrow> length (pending s) < k \<Longrightarrow>
     read_loop k acc (s @ t) = read_loop (k - length (pending s)) (acc @ pending s) t"
  by (induction k acc s rule: read_loop.induct) auto

lemma read_full_through:
  assumes "no_fail s" and "pending s = bs @ rest"
  obtains s' where "read_full (length bs) (s @ t) = (bs, None, s' @ t)" and "pending s' = rest" and "no_fail s'"
  using read_loop_through [OF assms(1), of "length bs" "[]" t] assms(2) by (auto simp: read_full_def)

text \<open>A whole frame is read, and the rest of the script stays.\<close>

lemma read_udp_through:
  assumes "no_fail s" and "pending s = udp_frame d @ rest" and "length d < 65536"
  obtains s' where "read_udp_from_stream read_full UDPBufferSize (s @ t) = Some (d, None, s' @ t)"
    and "pending s' = rest" and "no_fail s'"
proof -
  have "pending s = put_uint16 (of_nat (length d)) @ (d @ rest)"
    using assms(2) by (simp add: udp_frame_def)
  then obtain s1 where r1: "read_full 2 (s @ t) = (put_uint16 (of_nat (length d)), None, s1 @ t)"
    and s1: "pending s1 = d @ rest" "no_fail s1"
    using read_full_through [OF assms(1), of "put_uint16 (of_nat (length d))" _ t] by auto
  obtain s2 where r2: "read_full (length d) (s1 @ t) = (d, None, s2 @ t)"
    and s2: "pending s2 = rest" "no_fail s2"
    using read_full_through [OF s1(2,1), of t] by auto
  have "read_udp_from_stream read_full UDPBufferSize (s @ t) = Some (d, None, s2 @ t)"
    using r1 r2 assms(3) by (simp add: read_udp_from_stream_def UDPBufferSize_def)
  with s2 that show thesis by blast
qed

text \<open>A part of a frame is consumed by the failure that comes before its end.\<close>

lemma read_udp_part:
  assumes "no_fail s" and "udp_frame d = pending s @ missing" and "missing \<noteq> []"
    and "length d < 65536" and "e \<noteq> EOF"
  shows "\<exists>bs. read_udp_from_stream read_full UDPBufferSize (s @ Fail e # t) = Some (bs, Some e, t)"
proof (cases "length (pending s) < 2")
  case True
  with read_loop_exhausts [OF assms(1), of 2 "[]" "Fail e # t"] assms(5)
  have "read_full 2 (s @ Fail e # t) = (pending s, Some e, t)"
    by (cases "2 - length (pending s)") (simp_all add: read_full_def)
  then show ?thesis by (simp add: read_udp_from_stream_def)
next
  case False
  have len: "length (pending s) < length d + 2"
    using arg_cong [OF assms(2), of length] assms(3) by (simp add: udp_frame_def)
  have "take 2 (pending s) = put_uint16 (of_nat (length d))"
    using False arg_cong [OF assms(2), of "take 2"] by (simp add: udp_frame_def)
  then have pre: "pending s = put_uint16 (of_nat (length d)) @ drop 2 (pending s)"
    by (metis append_take_drop_id)
  obtain s1 where
    "read_full (length (put_uint16 (of_nat (length d)))) (s @ Fail e # t)
       = (put_uint16 (of_nat (length d)), None, s1 @ Fail e # t)"
    and s1: "pending s1 = drop 2 (pending s)" "no_fail s1"
    by (rule read_full_through [OF assms(1) pre])
  then have r1: "read_full 2 (s @ Fail e # t) = (put_uint16 (of_nat (length d)), None, s1 @ Fail e # t)"
    by simp
  have short: "length (pending s1) < length d" using len False s1(1) by simp
  have "read_full (length d) (s1 @ Fail e # t) = (pending s1, Some e, t)"
    using read_loop_exhausts [OF s1(2) short, of "[]" "Fail e # t"] assms(5) short
    by (cases "length d - length (pending s1)") (simp_all add: read_full_def)
  with r1 assms(4) show ?thesis
    by (simp add: read_udp_from_stream_def UDPBufferSize_def)
qed

text \<open>The packets a list of datagrams becomes: \<open>WriteFull\<close> does not call \<open>Write\<close> for an empty one.\<close>

definition send_all :: "byte list list \<Rightarrow> sink \<Rightarrow> sink" where
  "send_all ds w = fold (\<lambda>d w. if d = [] then w else take_in (length d) d w) ds w"

lemma send_all_simps [simp]:
  "send_all [] w = w"
  "send_all (d # ds) w = send_all ds (if d = [] then w else take_in (length d) d w)"
  by (simp_all add: send_all_def)

lemma packets_send_all:
  "wr_script w = [] \<Longrightarrow> packets (send_all ds w) = packets w @ filter (\<lambda>d. d \<noteq> []) ds"
  by (induction ds arbitrary: w) auto

lemma down_to_up_frames:
  assumes "no_fail s" and "pending s = concat (map udp_frame ds) @ rest"
    and "\<forall>d \<in> set ds. length d < 65536" and "wr_script w = []"
  shows "\<exists>s'. down_to_up fired i (s @ t) w = down_to_up fired i (s' @ t) (send_all ds w) \<and>
    no_fail s' \<and> pending s' = rest"
  using assms
proof (induction ds arbitrary: s w)
  case Nil
  then show ?case by auto
next
  case (Cons d ds)
  obtain s1 where r: "read_udp_from_stream read_full UDPBufferSize (s @ t) = Some (d, None, s1 @ t)"
    and s1: "pending s1 = concat (map udp_frame ds) @ rest" "no_fail s1"
    using read_udp_through [OF Cons.prems(1), of d _ t] Cons.prems(2,3) by auto
  let ?w = "if d = [] then w else take_in (length d) d w"
  have "down_to_up fired i (s @ t) w = down_to_up fired i (s1 @ t) ?w"
    using Cons.prems(4) by (simp add: down_to_up.simps [of fired i "s @ t" w] r write_full_open)
  moreover have "wr_script ?w = []" using Cons.prems(4) by simp
  ultimately show ?case
    using Cons.IH [OF s1(2,1), of ?w] Cons.prems(3) by simp
qed

lemma down_to_up_end:
  assumes "no_fail s" and "pending s = []"
  shows "down_to_up fired i s w = Some w"
proof -
  have "read_full 2 s = ([], Some EOF, [])"
    using read_loop_exhausts [OF assms(1), of 2 "[]" "[]"] assms(2)
    by (simp add: read_full_def numeral_2_eq_2)
  then show ?thesis
    by (simp add: down_to_up.simps [of fired i s w] read_udp_from_stream_def is_timeout_error_def)
qed

lemma up_to_down_frames:
  assumes "length buf = UDPBufferSize" and "\<forall>d. Datagram d \<in> set us \<longrightarrow> length d < 65536"
    and "\<forall>e. UdpFail e \<in> set us \<longrightarrow> e = ErrTimeout" and "wr_script w = []"
  shows "\<exists>w'. up_to_down (\<lambda>_. False) i buf us w = Some w' \<and>
    accepted w' = accepted w @ concat (map udp_frame [d. Datagram d \<leftarrow> us])"
  using assms
proof (induction us arbitrary: i buf w)
  case Nil
  then show ?case by simp
next
  case (Cons u us)
  show ?case
  proof (cases u)
    case (UdpFail e)
    then show ?thesis using Cons by (simp add: is_timeout_error_def)
  next
    case (Datagram d)
    obtain buf' n e where r: "udp_conn_read buf d None = (buf', n, e)" by (metis prod_cases3)
    have "length d < 65536" using Cons.prems(2) Datagram by simp
    then have d: "length d + 2 \<le> length buf" using Cons.prems(1) by (simp add: UDPBufferSize_def)
    then have frame: "take n buf' = udp_frame d"
      using udp_conn_read_frame [OF d, of None] r by simp
    have buf': "length buf' = UDPBufferSize"
      using r d Cons.prems(1) by (auto simp: udp_conn_read_def Let_def)
    let ?w = "take_in (length (udp_frame d)) (udp_frame d) w"
    have "write_full sink_write w (udp_frame d) = Some (length (udp_frame d), None, ?w)"
      using Cons.prems(4) by (simp add: write_full_open)
    then have "up_to_down (\<lambda>_. False) i buf (u # us) w = up_to_down (\<lambda>_. False) i buf' us ?w"
      using Datagram r frame by simp
    then show ?thesis
      using Cons.IH [OF buf', of ?w i] Cons.prems Datagram by simp
  qed
qed

section \<open>Properties\<close>

text \<open>
  C2: Datagrams keep their boundaries on the way out: whatever the chunks in which the client's stream
  delivers their frames, the upstream socket sends one packet per datagram, in order, with its bytes.
  Empty datagrams are the exception: no packet is sent for them.
\<close>

theorem udp_datagrams_delivered:
  assumes "no_fail s" and "pending s = concat (map udp_frame ds)"
    and "\<forall>d \<in> set ds. length d < 65536" and "wr_script w = []"
  shows "\<exists>w'. down_to_up fired i s w = Some w' \<and> packets w' = packets w @ filter (\<lambda>d. d \<noteq> []) ds"
proof -
  obtain s' where "down_to_up fired i s w = down_to_up fired i s' (send_all ds w)"
    and "no_fail s'" "pending s' = []"
    using down_to_up_frames [OF assms(1) _ assms(3,4), of "[]" fired i "[]"] assms(2) by auto
  then show ?thesis
    using down_to_up_end packets_send_all [OF assms(4)] by simp
qed

theorem udp_datagrams_delivered_witness:
  "\<exists>w'. down_to_up (\<lambda>_. False) 0 [Chunk [0], Chunk [2, 65, 66, 0, 0, 0], Chunk [1, 67]] fresh_sink = Some w'
     \<and> packets w' = [[65, 66], [67]]"
  using udp_datagrams_delivered [of "[Chunk [0], Chunk [2, 65, 66, 0, 0, 0], Chunk [1, 67]]"
      "[[65, 66], [], [67]]" fresh_sink "\<lambda>_. False" 0]
  by (simp add: fresh_sink_def udp_frame_def put_uint16_def)

text \<open>
  C37: A read deadline that passes between two frames does no harm: the loop goes on with the rest of
  the stream unless the alarm has gone off. One that passes inside a frame makes the loop forget the
  part of the frame it has read and take the bytes after it for the start of the next frame.
\<close>

theorem udp_timeout:
  assumes "no_fail s" and "pending s = concat (map udp_frame ds) @ part"
    and "\<forall>d \<in> set ds. length d < 65536" and "wr_script w = []"
    and "udp_frame d = part @ missing" and "missing \<noteq> []" and "length d < 65536"
  shows "down_to_up fired i (s @ Fail ErrTimeout # t) w =
    (if fired i then Some (send_all ds w) else down_to_up fired (Suc i) t (send_all ds w))"
proof -
  obtain s' where d: "down_to_up fired i (s @ Fail ErrTimeout # t) w =
      down_to_up fired i (s' @ Fail ErrTimeout # t) (send_all ds w)" and s': "no_fail s'" "pending s' = part"
    using down_to_up_frames [OF assms(1,2,3,4)] by blast
  have "\<exists>bs. read_udp_from_stream read_full UDPBufferSize (s' @ Fail ErrTimeout # t) = Some (bs, Some ErrTimeout, t)"
    using read_udp_part [OF s'(1)] assms(5-7) s'(2) by simp
  then show ?thesis
    unfolding d
    by (auto simp: down_to_up.simps [of fired i "s' @ Fail ErrTimeout # t"] is_timeout_error_def)
qed

theorem udp_timeout_witness:
  "down_to_up (\<lambda>_. False) 0 [Chunk [0, 1, 65, 0, 2], Fail ErrTimeout, Chunk [0, 0, 0, 1, 67]] fresh_sink
     = down_to_up (\<lambda>_. False) 1 [Chunk [0, 0, 0, 1, 67]] (send_all [[65]] fresh_sink)
   \<and> udp_frame [0, 0] = [0, 2] @ [0, 0]"
  using udp_timeout [of "[Chunk [0, 1, 65, 0, 2]]" "[[65]]" "[0, 2]" fresh_sink "[0, 0]" "[0, 0]"
      "\<lambda>_. False" 0 "[Chunk [0, 0, 0, 1, 67]]"]
  by (simp add: fresh_sink_def udp_frame_def put_uint16_def)

text \<open>
  The buffer of 65538 bytes is always big enough: neither reading a frame nor the copying loops
  slice it out of range, and both loops end on every script, whatever the alarm and the sockets do.
\<close>

lemma udp_loops_total:
  "read_udp_from_stream read_full UDPBufferSize s \<noteq> None \<and>
   (\<exists>w'. down_to_up fired i s w = Some w') \<and> (\<exists>w'. up_to_down fired i buf us w = Some w')"
proof -
  have wf: "\<exists>n e w'. write_full sink_write w d = Some (n, e, w')" for w d
    using conn_out.write_full_returns [of w d] by blast
  have "\<exists>w'. down_to_up fired i s w = Some w'"
  proof (induction fired i s w rule: down_to_up.induct)
    case (1 fired i s w)
    obtain bs e s' where r: "read_udp_from_stream read_full UDPBufferSize s = Some (bs, e, s')"
      using read_udp_no_panic by (metis option.exhaust prod_cases3)
    show ?case
    proof (cases e)
      case (Some x)
      then show ?thesis
        using r 1(2) by (simp add: down_to_up.simps [of fired i s w])
    next
      case None
      obtain n e' w' where "write_full sink_write w bs = Some (n, e', w')" using wf by blast
      then show ?thesis
        using r None 1(1) by (cases e') (simp_all add: down_to_up.simps [of fired i s w])
    qed
  qed
  moreover have "\<exists>w'. up_to_down fired i buf us w = Some w'"
  proof (induction fired i buf us w rule: up_to_down.induct)
    case (3 fired i buf d us w)
    obtain buf' n x where r: "udp_conn_read buf d None = (buf', n, x)" by (metis prod_cases3)
    obtain m e w' where "write_full sink_write w (take n buf') = Some (m, e, w')" using wf by blast
    then show ?case using 3 r by (cases e) simp_all
  qed auto
  ultimately show ?thesis using read_udp_no_panic [of read_full s] by simp
qed

end
