(* ===== verification/Client.thy ===== *)
theory Client
  imports Wire Xio Udp
begin

text \<open>
  One request of the client: opening the pair of streams (\<open>createStream\<close> in \<open>cmd/client/utils.go\<close>), the
  header and the acknowledgement (\<open>handleTCPConn\<close> in \<open>tcp.go\<close>, \<open>handleUDPConn\<close> in \<open>udp.go\<close>), the two loops
  that copy datagrams, and the heartbeats. The stream connection is a parameter: what it answers to
  \<open>CreateStream\<close>, and what its streams deliver and take.
\<close>

section \<open>createStream\<close>

record stream_headers =
  sh_StreamType :: string
  sh_Port :: string
  sh_RequestID :: string

definition ServerPort :: nat where "ServerPort = 9527"

datatype create_error = CreateErrorStream | CreateDataStream string

text \<open>
  The two calls of \<open>CreateStream\<close>, with their headers, and the streams they give. The error stream is
  closed for writing at once. The model returns the streams; what the goroutine makes of the error
  stream is \<open>error_stream_result\<close> below.
\<close>

definition create_stream ::
  "(stream_headers \<Rightarrow> string + 's) \<Rightarrow> string \<Rightarrow> create_error + 's \<times> 's"
where
  "create_stream open_stream reqID =
     (let headers = \<lparr>sh_StreamType = ''error'', sh_Port = itoa ServerPort, sh_RequestID = reqID\<rparr> in
        case open_stream headers of
          Inl _ \<Rightarrow> Inl CreateErrorStream
        | Inr errStream \<Rightarrow>
            (case open_stream (headers\<lparr>sh_StreamType := ''data''\<rparr>) of
               Inl err \<Rightarrow> Inl (CreateDataStream err)
             | Inr dataStream \<Rightarrow> Inr (errStream, dataStream)))"

text \<open>\<open>filepath.Match\<close> of a pattern whose \<open>*\<close> is \<^const>\<open>None\<close>: a star does not match a slash.\<close>

fun glob :: "char option list \<Rightarrow> string \<Rightarrow> bool" where
  "glob [] s = (s = [])"
| "glob (Some c # ps) [] = False"
| "glob (Some c # ps) (x # xs) = (c = x \<and> glob ps xs)"
| "glob (None # ps) [] = glob ps []"
| "glob (None # ps) (x # xs) = (glob ps (x # xs) \<or> (x \<noteq> CHR ''/'' \<and> glob (None # ps) xs))"

definition sandbox_closed :: "char option list" where
  "sandbox_closed =
     map (\<lambda>c. if c = CHR ''*'' then None else Some c) ''*network namespace for sandbox * is closed''"

text \<open>
  What the goroutine of \<open>createStream\<close> does with the message and the error of the error stream: the
  errors it sends before it closes the channel, and whether it closes the connection.
\<close>

datatype stream_error = ReadErrorStream string | ForwardError string

definition error_stream_result :: "string \<Rightarrow> string option \<Rightarrow> stream_error list \<times> bool" where
  "error_stream_result message err =
     (case err of
        Some e \<Rightarrow> ([ReadErrorStream e], glob sandbox_closed e)
      | None \<Rightarrow>
          if 0 < length message then ([ForwardError message], glob sandbox_closed message)
          else ([], glob sandbox_closed message))"

text \<open>What a pattern matches, piece by piece.\<close>

lemma glob_literal: "glob (map Some p @ ps) s \<longleftrightarrow> (\<exists>t. s = p @ t \<and> glob ps t)"
proof (induction p arbitrary: s)
  case (Cons c p)
  then show ?case by (cases s) auto
qed simp

lemma glob_star: "glob (None # ps) s \<longleftrightarrow> (\<exists>a b. s = a @ b \<and> CHR ''/'' \<notin> set a \<and> glob ps b)"
proof (induction s)
  case Nil
  show ?case by simp
next
  case (Cons x s)
  have "(\<exists>a b. x # s = a @ b \<and> CHR ''/'' \<notin> set a \<and> glob ps b) \<longleftrightarrow>
      glob ps (x # s) \<or> (\<exists>a b. s = a @ b \<and> x \<noteq> CHR ''/'' \<and> CHR ''/'' \<notin> set a \<and> glob ps b)"
    (is "?l \<longleftrightarrow> ?r")
  proof
    assume ?l
    then obtain a b where a: "x # s = a @ b" "CHR ''/'' \<notin> set a" "glob ps b" by blast
    then show ?r by (cases a) auto
  next
    assume ?r
    then show ?l
    proof
      assume "glob ps (x # s)"
      then show ?l by (intro exI [of _ "[]"] exI [of _ "x # s"]) simp
    next
      assume "\<exists>a b. s = a @ b \<and> x \<noteq> CHR ''/'' \<and> CHR ''/'' \<notin> set a \<and> glob ps b"
      then obtain a b where "s = a @ b" "x \<noteq> CHR ''/''" "CHR ''/'' \<notin> set a" "glob ps b" by blast
      then show ?l by (intro exI [of _ "x # a"] exI [of _ b]) auto
    qed
  qed
  with Cons show ?case by auto
qed

lemma sandbox_closed_pieces:
  "sandbox_closed = None # map Some ''network namespace for sandbox '' @ None # map Some '' is closed'' @ []"
  by (simp add: sandbox_closed_def)

lemma glob_sandbox_closed:
  "glob sandbox_closed m \<longleftrightarrow>
     (\<exists>a b. m = a @ ''network namespace for sandbox '' @ b @ '' is closed'' \<and> CHR ''/'' \<notin> set a \<and> CHR ''/'' \<notin> set b)"
proof -
  have "glob sandbox_closed m \<longleftrightarrow>
      (\<exists>a b t. m = a @ b \<and> CHR ''/'' \<notin> set a \<and> b = ''network namespace for sandbox '' @ t \<and>
         (\<exists>c d. t = c @ d \<and> CHR ''/'' \<notin> set c \<and> d = '' is closed''))"
    unfolding sandbox_closed_pieces glob_star glob_literal
    by (simp del: append.simps list.map only: glob.simps) blast
  then show ?thesis by blast
qed

section \<open>Header and acknowledgement\<close>

datatype request_error =
    CreateFailed create_error
  | WriteHeaderFailed io_error
  | ReceiveAckFailed io_error
  | ConnectRefused byte

text \<open>The two ends of a data stream as the client sees it.\<close>

record data_stream =
  ds_in :: stream
  ds_out :: sink

definition request_header :: "string \<Rightarrow> byte \<Rightarrow> addr_port \<Rightarrow> header" where
  "request_header requestID protocol ap =
     \<lparr>hVersion = 0, hRequestID = requestID, hProtocol = protocol, hPort = ap_port ap, hAddr = ap_addr ap\<rparr>"

text \<open>
  From the start of \<open>handleTCPConn\<close> and \<open>handleUDPConn\<close> to the copying, which are the same but for the
  protocol: the data stream that is ready for copying, or the error that is logged, with the stream as
  it was left. \<^const>\<open>None\<close> is a \<open>WriteFull\<close> that does not return.
\<close>

definition open_request ::
  "byte \<Rightarrow> string \<Rightarrow> addr_port \<Rightarrow> create_error + data_stream \<Rightarrow> (request_error + data_stream) option"
where
  "open_request protocol requestID dstAddrPort created =
     (case created of
        Inl err \<Rightarrow> Some (Inl (CreateFailed err))
      | Inr dataStream \<Rightarrow>
          let hdr = request_header requestID protocol dstAddrPort in
          (case write_full sink_write (ds_out dataStream) (header_marshal hdr) of
             None \<Rightarrow> None
           | Some (_, Some err, w) \<Rightarrow> Some (Inl (WriteHeaderFailed err))
           | Some (_, None, w) \<Rightarrow>
               (case ack_from_reader \<lparr>ack_Code = 0\<rparr> (ds_in dataStream) of
                  (_, Some err, s) \<Rightarrow> Some (Inl (ReceiveAckFailed err))
                | (ack, None, s) \<Rightarrow>
                    if ack_Code ack \<noteq> AckCodeOK then Some (Inl (ConnectRefused (ack_Code ack)))
                    else Some (Inr \<lparr>ds_in = s, ds_out = w\<rparr>))))"

section \<open>The loops of handleUDPConn\<close>

text \<open>The packets of one client, as they come out of its channel, to the data stream.\<close>

fun packets_to_stream :: "byte list list \<Rightarrow> sink \<Rightarrow> sink option" where
  "packets_to_stream [] w = Some w"
| "packets_to_stream (data # datas) w =
     (case write_full sink_write w data of
        None \<Rightarrow> None
      | Some (_, Some _, w') \<Rightarrow> Some w'
      | Some (_, None, w') \<Rightarrow> packets_to_stream datas w')"

text \<open>
  The data stream to the client: every frame is one \<open>WriteTo\<close>, also an empty one; \<open>write_to\<close> gives its
  error. There is no deadline on this stream. The result lists the packets that were written.
\<close>

function stream_to_packets ::
  "(byte list \<Rightarrow> io_error option) \<Rightarrow> stream \<Rightarrow> byte list list option"
where
  "stream_to_packets write_to s =
     (case read_udp_from_stream read_full UDPBufferSize s of
        None \<Rightarrow> None
      | Some (_, Some e, s') \<Rightarrow> Some []
      | Some (d, None, s') \<Rightarrow>
          (case write_to d of
             Some _ \<Rightarrow> Some []
           | None \<Rightarrow> map_option ((#) d) (stream_to_packets write_to s')))"
  by pat_completeness auto
termination
  by (relation "measure (\<lambda>(write_to, s). stream_size s)") (auto dest: read_udp_progress)

declare stream_to_packets.simps [simp del]

section \<open>Heartbeats\<close>

definition heartbeat_header :: "string \<Rightarrow> header" where
  "heartbeat_header reqID =
     \<lparr>hVersion = 0, hRequestID = reqID, hProtocol = ProtocolKeepalive, hPort = 0, hAddr = zero_addr\<rparr>"

text \<open>
  What the select of \<open>sendHeartbeats\<close> finds: the connection closed, or a tick, with a fresh request
  identifier and the answer of \<open>createStream\<close>.
\<close>

datatype heartbeat_event =
    ConnClosed
  | HeartbeatTick string "create_error + sink"

text \<open>The streams the loop wrote a heartbeat to; it ends at a failure.\<close>

fun send_heartbeats :: "heartbeat_event list \<Rightarrow> sink list option" where
  "send_heartbeats [] = Some []"
| "send_heartbeats (ConnClosed # evs) = Some []"
| "send_heartbeats (HeartbeatTick reqID created # evs) =
     (case created of
        Inl err \<Rightarrow> Some []
      | Inr w \<Rightarrow>
          (case write_full sink_write w (header_marshal (heartbeat_header reqID)) of
             None \<Rightarrow> None
           | Some (_, Some _, w') \<Rightarrow> Some [w']
           | Some (_, None, w') \<Rightarrow> map_option ((#) w') (send_heartbeats evs)))"

section \<open>Lemmas\<close>

lemma request_header_wf:
  "length requestID = lengthRequestID \<Longrightarrow> length (a_data (ap_addr ap)) < 65524 \<Longrightarrow>
     wf_header (request_header requestID p ap)"
  by (simp add: wf_header_def request_header_def header_lengths)

lemma heartbeat_header_wf: "length reqID = lengthRequestID \<Longrightarrow> wf_header (heartbeat_header reqID)"
  by (simp add: wf_header_def heartbeat_header_def header_lengths zero_addr_def)

lemma header_marshal_not_Nil: "header_marshal h \<noteq> []"
  by (simp add: header_marshal_def Let_def)

lemma write_header_open:
  "wr_script w = [] \<Longrightarrow>
     write_full sink_write w (header_marshal h) =
       Some (length (header_marshal h), None, take_in (length (header_marshal h)) (header_marshal h) w)"
  by (simp add: write_full_open header_marshal_not_Nil)

lemma packets_to_stream_open:
  "wr_script w = [] \<Longrightarrow> \<exists>w'. packets_to_stream datas w = Some w' \<and> accepted w' = accepted w @ concat datas"
proof (induction datas arbitrary: w)
  case (Cons d ds)
  then show ?case
    using Cons.IH [of "take_in (length d) d w"] by (cases "d = []") (auto simp: write_full_open)
qed simp

lemma stream_to_packets_end:
  assumes "no_fail s" and "pending s = []"
  shows "stream_to_packets write_to s = Some []"
proof -
  have "read_full 2 s = ([], Some EOF, [])"
    using read_loop_exhausts [OF assms(1), of 2 "[]" "[]"] assms(2)
    by (simp add: read_full_def numeral_2_eq_2)
  then show ?thesis
    by (simp add: stream_to_packets.simps [of write_to s] read_udp_from_stream_def)
qed

lemma stream_to_packets_frames:
  assumes "no_fail s" and "pending s = concat (map udp_frame ds)"
    and "\<forall>d \<in> set ds. length d < 65536 \<and> write_to d = None"
  shows "stream_to_packets write_to s = Some ds"
  using assms
proof (induction ds arbitrary: s)
  case Nil
  then show ?case using stream_to_packets_end by simp
next
  case (Cons d ds)
  obtain s1 where r: "read_udp_from_stream read_full UDPBufferSize (s @ []) = Some (d, None, s1 @ [])"
    and s1: "pending s1 = concat (map udp_frame ds)" "no_fail s1"
    using read_udp_through [OF Cons.prems(1), of d "concat (map udp_frame ds)" "[]"] Cons.prems(2,3) by auto
  have "stream_to_packets write_to s1 = Some ds"
    using Cons.IH [OF s1(2,1)] Cons.prems(3) by simp
  with r Cons.prems(3) show ?case
    by (simp add: stream_to_packets.simps [of write_to s])
qed

lemma stream_to_packets_returns: "\<exists>ds. stream_to_packets write_to s = Some ds"
proof (induction write_to s rule: stream_to_packets.induct)
  case (1 write_to s)
  obtain bs e s' where r: "read_udp_from_stream read_full UDPBufferSize s = Some (bs, e, s')"
    using read_udp_no_panic [of read_full s] by (metis option.exhaust prod_cases3)
  then show ?case
    using 1 by (cases e; cases "write_to bs") (auto simp: stream_to_packets.simps [of write_to s])
qed

section \<open>Properties\<close>

text \<open>
  A client starts copying only after the server said it is connected: whatever the stream does,
  \<open>handleTCPConn\<close> and \<open>handleUDPConn\<close> come to an end of their request, and they go on to copying exactly
  when the whole header was written and the first byte that comes back is \<open>AckCodeOK\<close>.
\<close>

lemma open_request_outcome:
  "\<exists>r. open_request p i ap (Inr ds) = Some r \<and>
     (case r of
        Inr ds' \<Rightarrow>
          accepted (ds_out ds') = accepted (ds_out ds) @ header_marshal (request_header i p ap) \<and>
          ack_from_reader \<lparr>ack_Code = 0\<rparr> (ds_in ds) = (\<lparr>ack_Code = AckCodeOK\<rparr>, None, ds_in ds')
      | Inl (WriteHeaderFailed e) \<Rightarrow> e = ErrShortWrite
      | Inl (ReceiveAckFailed e) \<Rightarrow> \<exists>a s. ack_from_reader \<lparr>ack_Code = 0\<rparr> (ds_in ds) = (a, Some e, s)
      | Inl (ConnectRefused c) \<Rightarrow>
          c \<noteq> AckCodeOK \<and> (\<exists>s. ack_from_reader \<lparr>ack_Code = 0\<rparr> (ds_in ds) = (\<lparr>ack_Code = c\<rparr>, None, s))
      | Inl (CreateFailed _) \<Rightarrow> False)"
proof -
  let ?h = "header_marshal (request_header i p ap)"
  obtain n e w where w: "write_full sink_write (ds_out ds) ?h = Some (n, e, w)"
    and e: "e \<noteq> None \<longrightarrow> e = Some ErrShortWrite"
    using conn_out.write_full_returns [of "ds_out ds" ?h] by blast
  obtain a ea s where a: "ack_from_reader \<lparr>ack_Code = 0\<rparr> (ds_in ds) = (a, ea, s)" by (metis prod_cases3)
  show ?thesis
  proof (cases e)
    case (Some x)
    with w e show ?thesis by (simp add: open_request_def)
  next
    case None
    then have "accepted w = accepted (ds_out ds) @ ?h"
      using w conn_out.write_full_success by blast
    with w a None show ?thesis
      by (cases ea; cases a) (auto simp: open_request_def)
  qed
qed

text \<open>
  C36: What the goroutine of \<open>createStream\<close> makes of the error stream: the connection is closed just for a
  message, or an error of the reading, that reads \<open>network namespace for sandbox X is closed\<close> with
  anything before it, and no slash in \<open>X\<close> or before it. It sends at most one error, and none for an
  empty message.
\<close>

theorem error_stream_closes:
  "snd (error_stream_result message err) =
     (\<exists>a b. case_option message id err = a @ ''network namespace for sandbox '' @ b @ '' is closed'' \<and>
        CHR ''/'' \<notin> set a \<and> CHR ''/'' \<notin> set b)
   \<and> fst (error_stream_result message err) =
     (case err of
        Some e \<Rightarrow> [ReadErrorStream e]
      | None \<Rightarrow> if message = [] then [] else [ForwardError message])"
proof -
  have "snd (error_stream_result message err) = glob sandbox_closed (case_option message id err)"
    by (simp add: error_stream_result_def split: option.split)
  moreover have "fst (error_stream_result message err) =
     (case err of Some e \<Rightarrow> [ReadErrorStream e] | None \<Rightarrow> if message = [] then [] else [ForwardError message])"
    by (simp add: error_stream_result_def split: option.split)
  ultimately show ?thesis by (simp only: glob_sandbox_closed)
qed

end
