(* ===== verification/Idle_Tracker.thy ===== *)
theory Idle_Tracker
  imports Prelude
begin

text \<open>
  The idle tracker of the server, \<open>idleTracker\<close> in \<open>cmd/server/main.go\<close>, with the accept loop that
  counts connections, the goroutines that handle them and the monitor that closes the listener. Every
  atomic operation on the two counters and every reading of the clock is a step of its own, so the steps
  of the goroutines interleave freely, and a goroutine may store a time it has read a while ago. Times
  are nanoseconds. The ticks of the monitor come at any time there; the last section is the monitor's
  loop with its ticker, as a function of what it loads at each tick.
\<close>

text \<open>
  Where a handler is: running; past \<open>handleConn\<close>, which ended at the given time, with all of
  \<open>onDisconnect\<close> to do; with the clock read, and what it said, and the store to do; or with the activity
  stored and the count still to lower.
\<close>

datatype handler = Handling | Ended int | Stamping int int | Stamped int

text \<open>
  The accept loop: at \<open>Accept\<close>; before \<open>Add(1)\<close>; past it, before and after the reading of the clock; or
  returned.
\<close>

datatype acceptor = Accepting | Counting | Counted int | Storing int int | AcceptorReturned

text \<open>
  The monitor: at its select; after it has read a count of zero, at the given time; with the last
  activity loaded as well, and the time of that; past the comparison, before \<open>lis.Close\<close>; or returned.
\<close>

datatype monitor = Watching | SawZero int | Loaded int int int | ShuttingDown int | MonitorReturned

text \<open>
  A handler is listed with the time its connection was counted at. \<open>it_finished\<close>, the same and the time
  of their end for the handlers that are gone, is for the statements only.
\<close>

record tracker =
  it_timeout :: int
  it_activeConns :: int
  it_lastActivity :: int
  it_clock :: int
  it_listening :: bool
  it_acceptor :: acceptor
  it_monitor :: monitor
  it_handlers :: "(int \<times> handler) list"
  it_finished :: "(int \<times> int) list"

text \<open>\<open>newIdleTracker\<close> at the given time, with the guard at the start of \<open>monitor\<close>.\<close>

definition new_idle_tracker :: "int \<Rightarrow> int \<Rightarrow> tracker" where
  "new_idle_tracker timeout clock =
     \<lparr>it_timeout = timeout, it_activeConns = 0, it_lastActivity = clock, it_clock = clock,
      it_listening = True, it_acceptor = Accepting,
      it_monitor = (if timeout \<le> 0 then MonitorReturned else Watching),
      it_handlers = [], it_finished = []\<rparr>"

text \<open>
  What is assumed of the machine: between a goroutine's reading of the clock and its next operation, and
  between the monitor's load and its reading of the clock, no more than \<open>lag\<close> goes by. Nothing in the
  code bounds it.
\<close>

fun handler_prompt :: "int \<Rightarrow> int \<Rightarrow> handler \<Rightarrow> bool" where
  "handler_prompt lag now (Stamping e n) = (now \<le> n + lag)"
| "handler_prompt lag now _ = True"

definition prompt :: "int \<Rightarrow> tracker \<Rightarrow> int \<Rightarrow> bool" where
  "prompt lag t now \<longleftrightarrow>
     list_all (\<lambda>(c, h). handler_prompt lag now h) (it_handlers t) \<and>
     (case it_acceptor t of Storing c n \<Rightarrow> now \<le> n + lag | _ \<Rightarrow> True) \<and>
     (case it_monitor t of Loaded z l m \<Rightarrow> now \<le> m + lag | _ \<Rightarrow> True)"

inductive tracker_step :: "int \<Rightarrow> tracker \<Rightarrow> tracker \<Rightarrow> bool" for lag where
  Tick: "0 \<le> dt \<Longrightarrow> prompt lag t (it_clock t + dt) \<Longrightarrow> tracker_step lag t (t\<lparr>it_clock := it_clock t + dt\<rparr>)"
| Accept: "it_acceptor t = Accepting \<Longrightarrow> it_listening t \<Longrightarrow>
    tracker_step lag t (t\<lparr>it_acceptor := Counting\<rparr>)"
| OnConnectAdd: "it_acceptor t = Counting \<Longrightarrow>
    tracker_step lag t (t\<lparr>it_activeConns := it_activeConns t + 1, it_acceptor := Counted (it_clock t)\<rparr>)"
| OnConnectNow: "it_acceptor t = Counted c \<Longrightarrow>
    tracker_step lag t (t\<lparr>it_acceptor := Storing c (it_clock t)\<rparr>)"
| OnConnectStore: "it_acceptor t = Storing c n \<Longrightarrow>
    tracker_step lag t (t\<lparr>it_lastActivity := n, it_acceptor := Accepting,
      it_handlers := it_handlers t @ [(c, Handling)]\<rparr>)"
| HandlerEnds: "it_handlers t = hs @ (c, Handling) # hs' \<Longrightarrow>
    tracker_step lag t (t\<lparr>it_handlers := hs @ (c, Ended (it_clock t)) # hs'\<rparr>)"
| OnDisconnectNow: "it_handlers t = hs @ (c, Ended e) # hs' \<Longrightarrow>
    tracker_step lag t (t\<lparr>it_handlers := hs @ (c, Stamping e (it_clock t)) # hs'\<rparr>)"
| OnDisconnectStore: "it_handlers t = hs @ (c, Stamping e n) # hs' \<Longrightarrow>
    tracker_step lag t (t\<lparr>it_lastActivity := n, it_handlers := hs @ (c, Stamped e) # hs'\<rparr>)"
| OnDisconnectAdd: "it_handlers t = hs @ (c, Stamped e) # hs' \<Longrightarrow>
    tracker_step lag t (t\<lparr>it_activeConns := it_activeConns t - 1, it_handlers := hs @ hs',
      it_finished := (c, e) # it_finished t\<rparr>)"
| MonitorBusy: "it_monitor t = Watching \<Longrightarrow> 0 < it_activeConns t \<Longrightarrow> tracker_step lag t t"
| MonitorLook: "it_monitor t = Watching \<Longrightarrow> it_activeConns t \<le> 0 \<Longrightarrow>
    tracker_step lag t (t\<lparr>it_monitor := SawZero (it_clock t)\<rparr>)"
| MonitorLoad: "it_monitor t = SawZero z \<Longrightarrow>
    tracker_step lag t (t\<lparr>it_monitor := Loaded z (it_lastActivity t) (it_clock t)\<rparr>)"
| MonitorDecides: "it_monitor t = Loaded z l m \<Longrightarrow> it_timeout t \<le> it_clock t - l \<Longrightarrow>
    tracker_step lag t (t\<lparr>it_monitor := ShuttingDown z\<rparr>)"
| MonitorNotYet: "it_monitor t = Loaded z l m \<Longrightarrow> it_clock t - l < it_timeout t \<Longrightarrow>
    tracker_step lag t (t\<lparr>it_monitor := Watching\<rparr>)"
| MonitorClose: "it_monitor t = ShuttingDown z \<Longrightarrow>
    tracker_step lag t (t\<lparr>it_monitor := MonitorReturned, it_listening := False\<rparr>)"
| AcceptClosed: "it_acceptor t = Accepting \<Longrightarrow> \<not> it_listening t \<Longrightarrow>
    tracker_step lag t (t\<lparr>it_acceptor := AcceptorReturned\<rparr>)"
| Cancelled: "it_acceptor t = AcceptorReturned \<Longrightarrow> it_monitor t = Watching \<Longrightarrow>
    tracker_step lag t (t\<lparr>it_monitor := MonitorReturned\<rparr>)"

inductive_cases tracker_stepE: "tracker_step lag t u"

inductive tracker_reachable :: "int \<Rightarrow> int \<Rightarrow> int \<Rightarrow> tracker \<Rightarrow> bool" for lag timeout start where
  initially: "tracker_reachable lag timeout start (new_idle_tracker timeout start)"
| later: "tracker_reachable lag timeout start t \<Longrightarrow> tracker_step lag t u \<Longrightarrow> tracker_reachable lag timeout start u"

section \<open>The invariant\<close>

definition in_flight :: "tracker \<Rightarrow> int" where
  "in_flight t = int (length (it_handlers t)) + (case it_acceptor t of Counted _ \<Rightarrow> 1 | Storing _ _ \<Rightarrow> 1 | _ \<Rightarrow> 0)"

definition counts_ok :: "tracker \<Rightarrow> bool" where
  "counts_ok t \<longleftrightarrow> it_activeConns t = in_flight t"

text \<open>
  No time lies ahead of the clock, and the last activity is at most the lag older than the end of every
  handler that has stored its own, whoever stored after it.
\<close>

fun handler_times :: "int \<Rightarrow> int \<Rightarrow> int \<Rightarrow> handler \<Rightarrow> bool" where
  "handler_times lag l clock Handling = True"
| "handler_times lag l clock (Ended e) = (e \<le> clock)"
| "handler_times lag l clock (Stamping e n) = (e \<le> clock \<and> n \<le> clock)"
| "handler_times lag l clock (Stamped e) = (e \<le> clock \<and> e \<le> l + lag)"

definition times_ok :: "int \<Rightarrow> tracker \<Rightarrow> bool" where
  "times_ok lag t \<longleftrightarrow>
     it_lastActivity t \<le> it_clock t \<and> prompt lag t (it_clock t) \<and>
     (\<forall>(c, e) \<in> set (it_finished t). e \<le> it_clock t \<and> e \<le> it_lastActivity t + lag) \<and>
     (\<forall>(c, h) \<in> set (it_handlers t). handler_times lag (it_lastActivity t) (it_clock t) h) \<and>
     (case it_acceptor t of Storing c n \<Rightarrow> n \<le> it_clock t | _ \<Rightarrow> True)"

text \<open>
  Since the monitor has read zero, only connections counted later have come; since it has loaded the
  activity, only those have gone.
\<close>

definition look_ok :: "int \<Rightarrow> tracker \<Rightarrow> bool" where
  "look_ok lag t \<longleftrightarrow>
     (let later = (\<lambda>z. z \<le> it_clock t \<and> (\<forall>(c, h) \<in> set (it_handlers t). z \<le> c) \<and>
        (case it_acceptor t of Counted c \<Rightarrow> z \<le> c | Storing c n \<Rightarrow> z \<le> c | _ \<Rightarrow> True)) in
      case it_monitor t of
        SawZero z \<Rightarrow> later z
      | Loaded z l m \<Rightarrow> later z \<and> (\<forall>(c, e) \<in> set (it_finished t). e \<le> l + lag \<or> z \<le> c)
      | ShuttingDown z \<Rightarrow> later z \<and> (\<forall>(c, e) \<in> set (it_finished t). e + it_timeout t \<le> it_clock t + lag \<or> z \<le> c)
      | _ \<Rightarrow> True)"

definition off_ok :: "tracker \<Rightarrow> bool" where
  "off_ok t \<longleftrightarrow> (it_timeout t \<le> 0 \<longrightarrow> it_listening t \<and> it_monitor t = MonitorReturned \<and> it_acceptor t \<noteq> AcceptorReturned)"

lemma counts_step: "tracker_step lag t u \<Longrightarrow> counts_ok t \<Longrightarrow> counts_ok u"
  by (erule tracker_stepE) (auto simp: counts_ok_def in_flight_def split: acceptor.splits)

lemma handler_times_later:
  "handler_times lag l clock h \<Longrightarrow> clock \<le> now \<Longrightarrow> handler_times lag l now h"
  by (cases h) auto

text \<open>A store of a time that was read no more than the lag ago.\<close>

lemma handler_times_store:
  "handler_times lag l clock h \<Longrightarrow> clock \<le> n + lag \<Longrightarrow> handler_times lag n clock h"
  by (cases h) auto

lemma times_step:
  assumes "tracker_step lag t u" and "0 \<le> lag" and "times_ok lag t"
  shows "times_ok lag u"
  using assms
proof (cases rule: tracker_step.cases)
  case (Tick dt)
  have "prompt lag u (it_clock u)" using Tick by (simp add: prompt_def)
  with Tick assms(3) show ?thesis
    by (auto simp: times_ok_def split: acceptor.splits intro: handler_times_later)
next
  case (OnConnectStore c n)
  then have n: "it_clock t \<le> n + lag" "n \<le> it_clock t" using assms(3) by (auto simp: times_ok_def prompt_def)
  with OnConnectStore assms(3) show ?thesis
    by (auto simp: times_ok_def prompt_def intro: handler_times_store)
next
  case (OnDisconnectStore hs c e n hs')
  then have n: "it_clock t \<le> n + lag" "n \<le> it_clock t" "e \<le> it_clock t"
    using assms(3) by (auto simp: times_ok_def prompt_def)
  have "\<forall>(c, h) \<in> set hs \<union> set hs'. handler_times lag n (it_clock t) h"
    using assms(3) handler_times_store [OF _ n(1)] by (fastforce simp: times_ok_def OnDisconnectStore)
  moreover have "\<forall>(c, e) \<in> set (it_finished t). e \<le> n + lag"
    using assms(3) n(1) by (auto simp: times_ok_def)
  ultimately show ?thesis
    using OnDisconnectStore assms(3) n by (auto simp: times_ok_def prompt_def split: acceptor.splits)
qed (use assms(2,3) in \<open>auto simp: times_ok_def prompt_def split: acceptor.splits monitor.splits\<close>)

lemma look_step:
  assumes "tracker_step lag t u" and "counts_ok t" and "times_ok lag t" and "look_ok lag t"
  shows "look_ok lag u"
  using assms
proof (cases rule: tracker_step.cases)
  case (MonitorLoad z)
  with assms(3,4) show ?thesis by (auto simp: look_ok_def times_ok_def Let_def)
next
  case (MonitorDecides z l m)
  with assms(4) show ?thesis by (fastforce simp: look_ok_def Let_def)
qed (use assms(2,4) in \<open>auto simp: look_ok_def counts_ok_def in_flight_def Let_def split: acceptor.splits monitor.splits\<close>)

lemma off_step:
  assumes "tracker_step lag t u" and "off_ok t"
  shows "off_ok u"
  using assms by (cases rule: tracker_step.cases) (auto simp: off_ok_def)

lemma timeout_step: "tracker_step lag t u \<Longrightarrow> it_timeout u = it_timeout t"
  by (erule tracker_stepE) auto

lemma tracker_invariant:
  assumes "tracker_reachable lag timeout start t" and "0 \<le> lag"
  shows "counts_ok t \<and> times_ok lag t \<and> look_ok lag t \<and> off_ok t \<and> it_timeout t = timeout"
  using assms(1)
proof (induction rule: tracker_reachable.induct)
  case initially
  show ?case
    by (simp add: counts_ok_def times_ok_def look_ok_def off_ok_def in_flight_def new_idle_tracker_def prompt_def)
next
  case (later t u)
  then show ?case
    using counts_step times_step look_step off_step timeout_step assms(2) by metis
qed


text \<open>A tracker with a timeout of five that has been idle for five, and the monitor on its way to the close.\<close>

definition example_idle :: tracker where
  "example_idle = (new_idle_tracker 5 0)\<lparr>it_clock := 5\<rparr>"

lemma example_idle_reachable:
  "tracker_reachable 0 5 0 example_idle"
  "tracker_reachable 0 5 0 (example_idle\<lparr>it_monitor := SawZero 5\<rparr>)"
  "tracker_reachable 0 5 0 (example_idle\<lparr>it_monitor := ShuttingDown 5\<rparr>)"
proof -
  note defs = example_idle_def new_idle_tracker_def
  have "tracker_step 0 (new_idle_tracker 5 0) example_idle"
    using Tick [of 5 0 "new_idle_tracker 5 0"] by (simp add: defs prompt_def)
  then show r: "tracker_reachable 0 5 0 example_idle" by (rule later [OF initially])
  from later [OF r MonitorLook] show z: "tracker_reachable 0 5 0 (example_idle\<lparr>it_monitor := SawZero 5\<rparr>)"
    by (simp add: defs)
  from later [OF z MonitorLoad] have "tracker_reachable 0 5 0 (example_idle\<lparr>it_monitor := Loaded 5 0 5\<rparr>)"
    by (simp add: defs)
  from later [OF this MonitorDecides] show "tracker_reachable 0 5 0 (example_idle\<lparr>it_monitor := ShuttingDown 5\<rparr>)"
    by (simp add: defs)
qed

section \<open>Properties\<close>

text \<open>
  The count of active connections is exact at every moment: it is the number of connections between
  the \<open>Add\<close> of \<open>onConnect\<close> and the \<open>Add\<close> of \<open>onDisconnect\<close>, so it is never negative.
\<close>

lemma tracker_counts:
  assumes "tracker_reachable lag timeout start t" and "0 \<le> lag"
  shows "it_activeConns t = in_flight t \<and> 0 \<le> it_activeConns t"
proof -
  have "it_activeConns t = in_flight t" using tracker_invariant [OF assms] by (simp add: counts_ok_def)
  moreover have "0 \<le> in_flight t" by (simp add: in_flight_def split: acceptor.split)
  ultimately show ?thesis by simp
qed

text \<open>
  C5: The server shuts down only when it has been idle: when the monitor closes the listener, every
  connection that is still being handled was counted after the monitor had read the count of zero, and
  every connection that is over was counted after that as well or ended at least the timeout ago, short
  of the time for which a goroutine was held up between its reading of the clock and its store. With a
  timeout of zero the listener is never closed.
\<close>

theorem tracker_close_justified:
  assumes "tracker_reachable lag timeout start t" and "0 \<le> lag"
    and "tracker_step lag t u" and "it_listening t" and "\<not> it_listening u"
  shows "0 < timeout \<and> (\<exists>z. it_monitor t = ShuttingDown z \<and> z \<le> it_clock t \<and>
    (\<forall>(c, e) \<in> set (it_finished t). e + timeout \<le> it_clock t + lag \<or> z \<le> c) \<and>
    (\<forall>(c, h) \<in> set (it_handlers t). z \<le> c))"
proof -
  note inv = tracker_invariant [OF assms(1,2)]
  obtain z where z: "it_monitor t = ShuttingDown z"
    using assms(3-5) by (cases rule: tracker_step.cases) auto
  moreover have "0 < timeout" using inv z by (auto simp: off_ok_def)
  ultimately show ?thesis using inv by (auto simp: look_ok_def Let_def)
qed

theorem tracker_close_justified_witness:
  "\<exists>u. tracker_step 0 (example_idle\<lparr>it_monitor := ShuttingDown 5\<rparr>) u \<and> \<not> it_listening u
     \<and> (\<exists>z. it_monitor (example_idle\<lparr>it_monitor := ShuttingDown 5\<rparr>) = ShuttingDown z)"
proof -
  let ?t = "example_idle\<lparr>it_monitor := ShuttingDown 5\<rparr>"
  let ?u = "?t\<lparr>it_monitor := MonitorReturned, it_listening := False\<rparr>"
  have step: "tracker_step 0 ?t ?u" by (rule MonitorClose) simp
  have "it_listening ?t" "\<not> it_listening ?u" by (simp_all add: example_idle_def new_idle_tracker_def)
  with step tracker_close_justified [OF example_idle_reachable(3) _ step] show ?thesis by auto
qed

text \<open>
  An idle server does shut down: when nothing is in flight and the timeout has passed since the last
  activity, the next look of the monitor closes the listener and \<open>run\<close> returns, without the clock
  advancing.
\<close>

lemma tracker_closes_idle:
  assumes "tracker_reachable lag timeout start t" and "0 \<le> lag" and "it_monitor t = Watching" and "in_flight t = 0"
    and "it_acceptor t = Accepting" and "it_lastActivity t + timeout \<le> it_clock t"
  shows "\<exists>u. (tracker_step lag)\<^sup>*\<^sup>* t u \<and> \<not> it_listening u \<and> it_acceptor u = AcceptorReturned \<and> it_clock u = it_clock t"
proof -
  note inv = tracker_invariant [OF assms(1,2)]
  let ?a = "t\<lparr>it_monitor := SawZero (it_clock t)\<rparr>"
  let ?b = "?a\<lparr>it_monitor := Loaded (it_clock t) (it_lastActivity t) (it_clock t)\<rparr>"
  let ?c = "?b\<lparr>it_monitor := ShuttingDown (it_clock t)\<rparr>"
  let ?d = "?c\<lparr>it_monitor := MonitorReturned, it_listening := False\<rparr>"
  let ?e = "?d\<lparr>it_acceptor := AcceptorReturned\<rparr>"
  have 1: "tracker_step lag t ?a" using inv assms(3,4) by (intro MonitorLook) (simp_all add: counts_ok_def)
  have 2: "tracker_step lag ?a ?b" using MonitorLoad [of ?a "it_clock t" lag] by simp
  have 3: "tracker_step lag ?b ?c"
    by (rule MonitorDecides [of _ _ "it_lastActivity t" "it_clock t"]) (use inv assms(6) in auto)
  have 4: "tracker_step lag ?c ?d" by (rule MonitorClose) simp
  have 5: "tracker_step lag ?d ?e" by (rule AcceptClosed) (use assms(5) in auto)
  have "(tracker_step lag)\<^sup>*\<^sup>* t ?e"
    using 1 2 3 4 5 by (meson converse_rtranclp_into_rtranclp rtranclp.rtrancl_refl)
  then show ?thesis by (intro exI [of _ ?e]) simp
qed

text \<open>
  The look and the close are steps of their own, and a connection may come between them: it is counted,
  the monitor, which has read zero, still sees the old activity and closes, and the accept loop returns,
  which ends the program, with that connection being handled.
\<close>

lemma tracker_race:
  "\<exists>t. tracker_reachable 0 5 0 t \<and> \<not> it_listening t \<and> it_acceptor t = AcceptorReturned \<and>
     it_handlers t = [(5, Handling)]"
proof -
  let ?t = "\<lambda>n l a m hs last. \<lparr>it_timeout = 5, it_activeConns = n, it_lastActivity = last, it_clock = 5,
    it_listening = l, it_acceptor = a, it_monitor = m, it_handlers = hs, it_finished = []\<rparr>"
  have "?t 0 True Accepting (SawZero 5) [] 0 = example_idle\<lparr>it_monitor := SawZero 5\<rparr>"
    by (simp add: example_idle_def new_idle_tracker_def)
  then have "tracker_reachable 0 5 0 (?t 0 True Accepting (SawZero 5) [] 0)"
    using example_idle_reachable(2) by simp
  from later [OF this tracker_step.Accept] have "tracker_reachable 0 5 0 (?t 0 True Counting (SawZero 5) [] 0)" by simp
  from later [OF this OnConnectAdd] have "tracker_reachable 0 5 0 (?t 1 True (Counted 5) (SawZero 5) [] 0)" by simp
  from later [OF this MonitorLoad] have "tracker_reachable 0 5 0 (?t 1 True (Counted 5) (Loaded 5 0 5) [] 0)" by simp
  from later [OF this MonitorDecides] have "tracker_reachable 0 5 0 (?t 1 True (Counted 5) (ShuttingDown 5) [] 0)" by simp
  from later [OF this MonitorClose] have "tracker_reachable 0 5 0 (?t 1 False (Counted 5) MonitorReturned [] 0)" by simp
  from later [OF this OnConnectNow] have "tracker_reachable 0 5 0 (?t 1 False (Storing 5 5) MonitorReturned [] 0)" by simp
  from later [OF this OnConnectStore]
  have "tracker_reachable 0 5 0 (?t 1 False Accepting MonitorReturned [(5, Handling)] 5)" by simp
  from later [OF this AcceptClosed]
  have "tracker_reachable 0 5 0 (?t 1 False AcceptorReturned MonitorReturned [(5, Handling)] 5)" by simp
  then show ?thesis by (rule_tac exI, rule_tac conjI, assumption) simp
qed

text \<open>
  The comment on \<open>onDisconnect\<close> says that its order, the store before the \<open>Add\<close>, keeps the monitor from
  ever seeing a count of zero with an activity from before the connection was established. It does not: a
  handler that is held up between its reading of the clock and its store overwrites the activity of
  another one. Here the first ends at the start and is held up; the second is counted at three and ends
  at five; then the first stores what it has read, and the monitor closes the listener at five, at the
  very moment at which the second has ended, with a timeout of five.
\<close>

lemma tracker_stale_activity:
  "\<exists>t u. tracker_reachable 5 5 0 t \<and> it_monitor t = Watching \<and> it_activeConns t = 0 \<and>
     it_finished t = [(0, 0), (3, 5)] \<and> it_lastActivity t < 3 \<and> it_clock t = 5 \<and>
     (tracker_step 5)\<^sup>*\<^sup>* t u \<and> \<not> it_listening u \<and> it_clock u = 5"
proof -
  let ?t = "\<lambda>clock n last a hs fin. \<lparr>it_timeout = 5, it_activeConns = n, it_lastActivity = last, it_clock = clock,
    it_listening = True, it_acceptor = a, it_monitor = Watching, it_handlers = hs, it_finished = fin\<rparr>"
  let ?reach = "tracker_reachable 5 5 0"
  have "?reach (?t 0 0 0 Accepting [] [])" using initially [of 5 5 0] by (simp add: new_idle_tracker_def)
  from later [OF this tracker_step.Accept] have "?reach (?t 0 0 0 Counting [] [])" by simp
  from later [OF this OnConnectAdd] have "?reach (?t 0 1 0 (Counted 0) [] [])" by simp
  from later [OF this OnConnectNow] have "?reach (?t 0 1 0 (Storing 0 0) [] [])" by simp
  from later [OF this OnConnectStore] have "?reach (?t 0 1 0 Accepting [(0, Handling)] [])" by simp
  from later [OF this HandlerEnds, of "[]" 0 "[]"] have "?reach (?t 0 1 0 Accepting [(0, Ended 0)] [])" by simp
  from later [OF this OnDisconnectNow, of "[]" 0 0 "[]"]
  have "?reach (?t 0 1 0 Accepting [(0, Stamping 0 0)] [])" by simp
  from later [OF this Tick, of 3] have "?reach (?t 3 1 0 Accepting [(0, Stamping 0 0)] [])" by (simp add: prompt_def)
  from later [OF this tracker_step.Accept] have "?reach (?t 3 1 0 Counting [(0, Stamping 0 0)] [])" by simp
  from later [OF this OnConnectAdd] have "?reach (?t 3 2 0 (Counted 3) [(0, Stamping 0 0)] [])" by simp
  from later [OF this OnConnectNow] have "?reach (?t 3 2 0 (Storing 3 3) [(0, Stamping 0 0)] [])" by simp
  from later [OF this OnConnectStore]
  have "?reach (?t 3 2 3 Accepting [(0, Stamping 0 0), (3, Handling)] [])" by simp
  from later [OF this Tick, of 2]
  have "?reach (?t 5 2 3 Accepting [(0, Stamping 0 0), (3, Handling)] [])" by (simp add: prompt_def)
  from later [OF this HandlerEnds, of "[(0, Stamping 0 0)]" 3 "[]"]
  have "?reach (?t 5 2 3 Accepting [(0, Stamping 0 0), (3, Ended 5)] [])" by simp
  from later [OF this OnDisconnectNow, of "[(0, Stamping 0 0)]" 3 5 "[]"]
  have "?reach (?t 5 2 3 Accepting [(0, Stamping 0 0), (3, Stamping 5 5)] [])" by simp
  from later [OF this OnDisconnectStore, of "[(0, Stamping 0 0)]" 3 5 5 "[]"]
  have "?reach (?t 5 2 5 Accepting [(0, Stamping 0 0), (3, Stamped 5)] [])" by simp
  from later [OF this OnDisconnectAdd, of "[(0, Stamping 0 0)]" 3 5 "[]"]
  have "?reach (?t 5 1 5 Accepting [(0, Stamping 0 0)] [(3, 5)])" by simp
  from later [OF this OnDisconnectStore, of "[]" 0 0 0 "[]"]
  have "?reach (?t 5 1 0 Accepting [(0, Stamped 0)] [(3, 5)])" by simp
  from later [OF this OnDisconnectAdd, of "[]" 0 0 "[]"]
  have r: "?reach (?t 5 0 0 Accepting [] [(0, 0), (3, 5)])" by simp
  from tracker_closes_idle [OF r] obtain u where
    "(tracker_step 5)\<^sup>*\<^sup>* (?t 5 0 0 Accepting [] [(0, 0), (3, 5)]) u" "\<not> it_listening u" "it_clock u = 5"
    by (auto simp: in_flight_def)
  with r show ?thesis by (intro exI [of _ "?t 5 0 0 Accepting [] [(0, 0), (3, 5)]"] exI [of _ u]) simp
qed

section \<open>The lag never stops the clock\<close>

text \<open>
  Whatever is held up can go on at once: the goroutines that have read the clock can store what they read
  and the monitor can compare, without the clock advancing, and then nothing holds the clock.
\<close>

definition nothing_pending :: "tracker \<Rightarrow> bool" where
  "nothing_pending t \<longleftrightarrow> (\<forall>(c, h) \<in> set (it_handlers t). \<forall>e n. h \<noteq> Stamping e n) \<and>
     (\<forall>c n. it_acceptor t \<noteq> Storing c n) \<and> (\<forall>z l m. it_monitor t \<noteq> Loaded z l m)"

lemma nothing_pending_prompt:
  assumes "nothing_pending t"
  shows "prompt lag t now"
proof -
  have "handler_prompt lag now h" if "(c, h) \<in> set (it_handlers t)" for c h
    using assms that by (cases h) (auto simp: nothing_pending_def)
  then show ?thesis
    using assms by (auto simp: prompt_def list_all_iff nothing_pending_def split: acceptor.split monitor.split)
qed

text \<open>How many are held up, and what no one of these steps changes.\<close>

fun pending_rank :: "handler \<Rightarrow> nat" where
  "pending_rank (Stamping e n) = 1"
| "pending_rank _ = 0"

definition tracker_pending :: "tracker \<Rightarrow> nat" where
  "tracker_pending t = (\<Sum>(c, h) \<leftarrow> it_handlers t. pending_rank h) +
     (case it_acceptor t of Storing c n \<Rightarrow> 1 | _ \<Rightarrow> 0) + (case it_monitor t of Loaded z l m \<Rightarrow> 1 | _ \<Rightarrow> 0)"

definition same_instant :: "tracker \<Rightarrow> tracker \<Rightarrow> bool" where
  "same_instant t u \<longleftrightarrow> it_clock u = it_clock t \<and> it_listening u = it_listening t \<and>
     (it_acceptor t \<noteq> AcceptorReturned \<longrightarrow> it_acceptor u \<noteq> AcceptorReturned)"

lemma pending_goes_on:
  assumes "\<not> nothing_pending t"
  shows "\<exists>u. tracker_step lag t u \<and> tracker_pending u < tracker_pending t \<and> same_instant t u"
proof -
  consider c e n where "(c, Stamping e n) \<in> set (it_handlers t)"
    | c n where "it_acceptor t = Storing c n" | z l m where "it_monitor t = Loaded z l m"
    using assms by (auto simp: nothing_pending_def)
  then show ?thesis
  proof cases
    case 1
    then obtain hs hs' where h: "it_handlers t = hs @ (c, Stamping e n) # hs'" by (meson split_list)
    from OnDisconnectStore [OF h, of lag] show ?thesis
      by (rule_tac exI, rule_tac conjI, assumption) (simp add: tracker_pending_def h same_instant_def)
  next
    case 2
    from OnConnectStore [OF 2, of lag] show ?thesis
      by (rule_tac exI, rule_tac conjI, assumption) (simp add: tracker_pending_def 2 same_instant_def)
  next
    case 3
    consider "it_timeout t \<le> it_clock t - l" | "it_clock t - l < it_timeout t" by linarith
    then show ?thesis
    proof cases
      case 1
      from MonitorDecides [OF 3 1, of lag] show ?thesis
        by (rule_tac exI, rule_tac conjI, assumption) (simp add: tracker_pending_def 3 same_instant_def)
    next
      case 2
      from MonitorNotYet [OF 3 2, of lag] show ?thesis
        by (rule_tac exI, rule_tac conjI, assumption) (simp add: tracker_pending_def 3 same_instant_def)
    qed
  qed
qed

section \<open>The monitor's ticker\<close>

definition second :: int where "second = 1000000000"

text \<open>\<open>max(t.timeout/4, time.Second)\<close>; the timeout is positive there.\<close>

definition monitor_interval :: "int \<Rightarrow> int" where
  "monitor_interval timeout = max (timeout div 4) second"

definition ticks :: "int \<Rightarrow> int \<Rightarrow> nat \<Rightarrow> int list" where
  "ticks start interval n = map (\<lambda>k. start + int (Suc k) * interval) [0..<n]"

text \<open>
  The loop: what \<open>activeConns\<close> and \<open>lastActivity\<close> hold at a tick is a parameter. The result is the time at
  which the listener is closed, if it is within the ticks given.
\<close>

fun monitor_loop :: "int \<Rightarrow> (int \<Rightarrow> int \<times> int) \<Rightarrow> int list \<Rightarrow> int option" where
  "monitor_loop timeout load [] = None"
| "monitor_loop timeout load (now # later) =
     (case load now of
        (activeConns, lastActivity) \<Rightarrow>
          if 0 < activeConns then monitor_loop timeout load later
          else if timeout \<le> now - lastActivity then Some now
          else monitor_loop timeout load later)"

definition monitor_run :: "int \<Rightarrow> int \<Rightarrow> (int \<Rightarrow> int \<times> int) \<Rightarrow> nat \<Rightarrow> int option" where
  "monitor_run timeout start load n =
     (if timeout \<le> 0 then None else monitor_loop timeout load (ticks start (monitor_interval timeout) n))"

lemma second_pos: "0 < second"
  by (simp add: second_def)

lemma monitor_interval_pos: "0 < monitor_interval timeout"
  using second_pos by (simp add: monitor_interval_def)

text \<open>The loop closes at the first tick at which it finds the server idle for long enough.\<close>

definition idle_at :: "int \<Rightarrow> (int \<Rightarrow> int \<times> int) \<Rightarrow> int \<Rightarrow> bool" where
  "idle_at timeout load now \<longleftrightarrow> fst (load now) \<le> 0 \<and> timeout \<le> now - snd (load now)"

lemma monitor_loop_find: "monitor_loop timeout load ts = List.find (idle_at timeout load) ts"
  by (induction ts) (auto simp: idle_at_def split: prod.splits)

text \<open>The first tick that is not before a given time.\<close>

lemma tick_from:
  assumes "0 < interval" and "start < t"
  obtains k :: nat where "start + int k * interval < t" and "t \<le> start + int (Suc k) * interval"
proof -
  let ?d = "(t - start - 1) div interval"
  have m: "?d * interval + (t - start - 1) mod interval = t - start - 1" by simp
  have b: "0 \<le> (t - start - 1) mod interval" "(t - start - 1) mod interval < interval"
    using assms(1) by simp_all
  have "0 \<le> ?d" using assms by (simp add: pos_imp_zdiv_nonneg_iff)
  then have "int (nat ?d) * interval = ?d * interval" "int (Suc (nat ?d)) * interval = ?d * interval + interval"
    by (simp_all add: distrib_right)
  with m b show thesis by (intro that [of "nat ?d"]) linarith+
qed

text \<open>
  C26: An idle server is shut down in time, and not before: when connections were open until some moment
  and none came after it, the monitor closes the listener at a tick after the timeout has passed since
  that moment and less than one period of its ticker later, a period being a quarter of the timeout but
  at least a second.
\<close>

theorem monitor_closes_in_time:
  assumes "0 < timeout" and "start \<le> last_end"
    and "\<forall>t. (t < last_end \<and> 0 < fst (load t)) \<or> (last_end \<le> t \<and> load t = (0, last_end))"
    and "last_end + timeout \<le> start + int n * monitor_interval timeout"
  shows "\<exists>t. monitor_run timeout start load n = Some t \<and>
    last_end + timeout \<le> t \<and> t < last_end + timeout + monitor_interval timeout"
proof -
  let ?i = "monitor_interval timeout"
  have i: "0 < ?i" by (rule monitor_interval_pos)
  have idle: "idle_at timeout load t \<longleftrightarrow> last_end + timeout \<le> t" for t
  proof -
    consider "t < last_end" "0 < fst (load t)" | "last_end \<le> t" "load t = (0, last_end)"
      using assms(3) by blast
    then show ?thesis by cases (use assms(1) in \<open>auto simp: idle_at_def\<close>)
  qed
  obtain k where k: "start + int k * ?i < last_end + timeout" "last_end + timeout \<le> start + int (Suc k) * ?i"
    using tick_from [OF i, of start "last_end + timeout"] assms(1,2) by auto
  have "int k * ?i < int n * ?i" using k(1) assms(4) by linarith
  then have "k < n" using i by (simp add: mult_less_cancel_right)
  have early: "start + int (Suc j) * ?i < last_end + timeout" if "j < k" for j
  proof -
    have "int (Suc j) * ?i \<le> int k * ?i" using that i by (intro mult_right_mono) auto
    with k(1) show ?thesis by linarith
  qed
  have "monitor_run timeout start load n = Some (start + int (Suc k) * ?i)"
    using assms(1) \<open>k < n\<close> k(2) early
    by (auto simp: monitor_run_def monitor_loop_find find_Some_iff ticks_def idle not_le intro!: exI [of _ k])
  moreover have "start + int (Suc k) * ?i < last_end + timeout + ?i"
    using k(1) by (simp add: distrib_right)
  ultimately show ?thesis using k(2) by blast
qed

text \<open>The default timeout of five minutes, with connections until a second past the start.\<close>

theorem monitor_closes_in_time_witness:
  "let load = (\<lambda>t. if t < second then (2, 0) else (0, second)) in
   \<exists>t. monitor_run (300 * second) 0 load 5 = Some t \<and> 301 * second \<le> t \<and> t < 376 * second"
  using monitor_closes_in_time [of "300 * second" 0 second "\<lambda>t. if t < second then (2, 0) else (0, second)" 5]
  by (simp add: monitor_interval_def second_def)

end
