(* ===== verification/Pipes.thy ===== *)
theory Pipes
  imports Prelude "HOL-Library.Sublist"
begin

text \<open>
  What the parts of the tunnel promise about the bytes that pass through them. A \<open>pipe\<close> is one direction
  of a component that is described by its reachable states: what has entered it is what has left it,
  followed by what it still holds, so it neither loses nor repeats nor reorders anything. Two pipes with
  a wire between them make a \<open>pipeline\<close>, which is a pipe again. The proxy of the server and the TCP
  handler of the client are pipes in both directions, and the tunnel is their pipeline.

  Also the rule by which invariants of step relations are proved, and the steps a program makes without
  its environment.
\<close>

locale pipe =
  fixes reach :: "'s \<Rightarrow> bool"
    and entered :: "'s \<Rightarrow> 'a list"
    and passed :: "'s \<Rightarrow> 'a list"
    and held :: "'s \<Rightarrow> 'a list"
  assumes conserved: "reach s \<Longrightarrow> entered s = passed s @ held s"
begin

lemma in_order: "reach s \<Longrightarrow> prefix (passed s) (entered s)"
  using conserved by auto

lemma nothing_lost: "reach s \<Longrightarrow> held s = [] \<Longrightarrow> passed s = entered s"
  using conserved by simp

end

locale pipeline =
  first: pipe reach1 entered1 passed1 held1 + second: pipe reach2 entered2 passed2 held2
  for reach1 :: "'s \<Rightarrow> bool" and entered1 :: "'s \<Rightarrow> 'a list" and passed1 held1
    and reach2 :: "'t \<Rightarrow> bool" and entered2 :: "'t \<Rightarrow> 'a list" and passed2 held2 +
  fixes reach :: "'u \<Rightarrow> bool"
    and part1 :: "'u \<Rightarrow> 's"
    and part2 :: "'u \<Rightarrow> 't"
    and wire :: "'u \<Rightarrow> 'a list"
  assumes parts: "reach u \<Longrightarrow> reach1 (part1 u) \<and> reach2 (part2 u)"
    and wired: "reach u \<Longrightarrow> passed1 (part1 u) = entered2 (part2 u) @ wire u"
begin

lemma through:
  "reach u \<Longrightarrow>
     entered1 (part1 u) = passed2 (part2 u) @ held2 (part2 u) @ wire u @ held1 (part1 u)"
  using parts wired first.conserved second.conserved by simp

end

text \<open>Two pipes and the wire between them are one pipe.\<close>

sublocale pipeline \<subseteq> whole: pipe reach "\<lambda>u. entered1 (part1 u)" "\<lambda>u. passed2 (part2 u)"
    "\<lambda>u. held2 (part2 u) @ wire u @ held1 (part1 u)"
  by unfold_locales (rule through)

text \<open>What is still to come, when a part has passed.\<close>

lemma prefix_rest: "prefix xs ys \<Longrightarrow> ys = xs @ drop (length xs) ys"
  by (auto simp: prefix_def)

section \<open>Step relations\<close>

lemma steps_invariant:
  assumes "step\<^sup>*\<^sup>* s t" and "I s" and "\<And>s t. step s t \<Longrightarrow> I s \<Longrightarrow> I t"
  shows "I t"
  using assms(1) by (induction rule: rtranclp_induct) (use assms(2,3) in blast)+

text \<open>The steps can lead to a state that satisfies a predicate.\<close>

definition leads :: "('s \<Rightarrow> 's \<Rightarrow> bool) \<Rightarrow> 's \<Rightarrow> ('s \<Rightarrow> bool) \<Rightarrow> bool" where
  "leads step s P \<longleftrightarrow> (\<exists>t. step\<^sup>*\<^sup>* s t \<and> P t)"

lemma leads_now: "P s \<Longrightarrow> leads step s P"
  by (auto simp: leads_def)

lemma leads_step: "step s t \<Longrightarrow> leads step t P \<Longrightarrow> leads step s P"
  by (auto simp: leads_def intro: converse_rtranclp_into_rtranclp)

lemma leads_one: "step s t \<Longrightarrow> P t \<Longrightarrow> leads step s P"
  by (blast intro: leads_step leads_now)

lemma leads_chain: "leads step s P \<Longrightarrow> (\<And>t. P t \<Longrightarrow> leads step t Q) \<Longrightarrow> leads step s Q"
  unfolding leads_def by (meson rtranclp_trans)

lemma leads_weaken: "leads step s P \<Longrightarrow> (\<And>t. P t \<Longrightarrow> Q t) \<Longrightarrow> leads step s Q"
  by (auto simp: leads_def)

text \<open>An invariant of the steps may be used at the state they lead to.\<close>

lemma leads_invariant:
  assumes "leads step s P" and "I s" and "\<And>s t. step s t \<Longrightarrow> I s \<Longrightarrow> I t"
  shows "leads step s (\<lambda>t. P t \<and> I t)"
  using assms(1) steps_invariant [of step s _ I] assms(2,3) unfolding leads_def by blast

section \<open>Coming to an end whatever is scheduled\<close>

text \<open>
  Whichever of its steps a system takes, it gets to a state that satisfies a predicate: it never stops
  before and does not go on for ever without. Where \<open>leads\<close> says that there is a schedule, this says it of
  every one.
\<close>

inductive comes_to :: "('s \<Rightarrow> 's \<Rightarrow> bool) \<Rightarrow> ('s \<Rightarrow> bool) \<Rightarrow> 's \<Rightarrow> bool" for step P where
  comes_now: "P s \<Longrightarrow> comes_to step P s"
| comes_later: "step s t \<Longrightarrow> (\<And>u. step s u \<Longrightarrow> comes_to step P u) \<Longrightarrow> comes_to step P s"

text \<open>The rule: an invariant, a measure that every step decreases, and a step wherever the predicate fails.\<close>

lemma comes_to_measure:
  fixes measure :: "'s \<Rightarrow> nat"
  assumes "I s"
    and keeps: "\<And>s t. step s t \<Longrightarrow> I s \<Longrightarrow> I t"
    and decreases: "\<And>s t. step s t \<Longrightarrow> I s \<Longrightarrow> measure t < measure s"
    and goes_on: "\<And>s. I s \<Longrightarrow> \<not> P s \<Longrightarrow> \<exists>t. step s t"
  shows "comes_to step P s"
  using assms(1)
proof (induction "measure s" arbitrary: s rule: less_induct)
  case less
  show ?case
  proof (cases "P s")
    case True
    then show ?thesis by (rule comes_now)
  next
    case False
    with goes_on less.prems obtain t where "step s t" by blast
    then show ?thesis
      by (rule comes_later) (use less keeps decreases in blast)
  qed
qed

lemma comes_to_leads: "comes_to step P s \<Longrightarrow> leads step s P"
  by (induction rule: comes_to.induct) (blast intro: leads_now leads_step)+

lemma comes_to_weaken: "comes_to step P s \<Longrightarrow> (\<And>t. P t \<Longrightarrow> Q t) \<Longrightarrow> comes_to step Q s"
  by (induction rule: comes_to.induct) (blast intro: comes_to.intros)+

text \<open>In terms of runs: none is infinite before the predicate holds.\<close>

lemma comes_to_runs:
  assumes "comes_to step P s" and "run 0 = s" and "\<And>n. step (run n) (run (Suc n))"
  shows "\<exists>n. P (run n)"
  using assms
proof (induction arbitrary: run rule: comes_to.induct)
  case (comes_now s)
  then show ?case by blast
next
  case (comes_later s t)
  then have "step s (run 1)" using comes_later.prems(2) [of 0] by simp
  from comes_later.IH [OF this, of "\<lambda>n. run (Suc n)"] comes_later.prems(2) show ?case by auto
qed

text \<open>And a run that cannot go on has come to it.\<close>

lemma comes_to_stuck:
  assumes "comes_to step P s" and "step\<^sup>*\<^sup>* s t" and "\<nexists>u. step t u"
  shows "\<exists>r. step\<^sup>*\<^sup>* s r \<and> step\<^sup>*\<^sup>* r t \<and> P r"
  using assms
proof (induction rule: comes_to.induct)
  case (comes_now s)
  then show ?case by blast
next
  case (comes_later s t')
  from comes_later.prems(1) show ?case
  proof (cases rule: converse_rtranclpE)
    case base
    with comes_later.hyps(1) comes_later.prems(2) show ?thesis by blast
  next
    case (step u)
    from comes_later.IH [OF step(1,2) comes_later.prems(2)] step(1) show ?thesis
      by (meson converse_rtranclp_into_rtranclp)
  qed
qed

end
