(* ===== verification/Keepalive.thy ===== *)
theory Keepalive
  imports Client Idle_Tracker Pipes
begin

text \<open>
  The client's heartbeats together with the idle tracker of the server: \<open>sendHeartbeats\<close> in
  \<open>cmd/client/utils.go\<close> with its ticker, the heartbeats on their way, and the tracker of
  \<open>cmd/server/main.go\<close>, in one step relation with one clock. What \<open>docs/ARCHITECTURE.md\<close> says of
  them is proved here: while the client sends its heartbeats and they arrive in time, the server does
  not shut down.
\<close>

text \<open>\<open>5*time.Second\<close>, which both commands pass.\<close>

definition heartbeatInterval :: int where
  "heartbeatInterval = 5 * second"

text \<open>A round of the loop that gets its stream and writes all of its heartbeat.\<close>

definition heartbeat_sent :: "string \<Rightarrow> create_error + sink \<Rightarrow> bool" where
  "heartbeat_sent reqID created =
     (case created of
        Inl _ \<Rightarrow> False
      | Inr w \<Rightarrow>
          (case write_full sink_write w (header_marshal (heartbeat_header reqID)) of
             Some (_, None, _) \<Rightarrow> True
           | _ \<Rightarrow> False))"

text \<open>
  The loop: at its select; in a round, with the time at which the select could take the tick; or
  returned.
\<close>

datatype heartbeat_loop = AtSelect | InRound int | LoopReturned

text \<open>
  \<open>ka_next\<close> is when the ticker fires next, \<open>ka_tick\<close> says that a tick waits in its channel, which holds
  one; \<open>ka_wire\<close> lists the heartbeats that were written and not counted yet, each with the time of its
  round. \<open>ka_latest\<close>, the time of the last round, is for the statements only.
\<close>

record keepalive =
  ka_tracker :: tracker
  ka_loop :: heartbeat_loop
  ka_next :: int
  ka_tick :: bool
  ka_wire :: "int list"
  ka_latest :: int

abbreviation ka_clock :: "keepalive \<Rightarrow> int" where
  "ka_clock s \<equiv> it_clock (ka_tracker s)"

text \<open>The loop starts next to a server whose tracker is given.\<close>

definition new_keepalive :: "int \<Rightarrow> tracker \<Rightarrow> keepalive" where
  "new_keepalive interval t =
     \<lparr>ka_tracker = t, ka_loop = AtSelect, ka_next = it_clock t + interval, ka_tick = False,
      ka_wire = [], ka_latest = it_clock t\<rparr>"

text \<open>
  The clock does not pass the ticker, and neither a round nor a heartbeat on its way takes longer than
  \<open>delay\<close> from the start of the round: this is what is assumed of the machine and the network, next to
  the \<open>lag\<close> of the tracker.
\<close>

definition in_time :: "int \<Rightarrow> keepalive \<Rightarrow> int \<Rightarrow> bool" where
  "in_time delay s now \<longleftrightarrow>
     (case ka_loop s of
        AtSelect \<Rightarrow> now \<le> ka_next s
      | InRound d \<Rightarrow> now \<le> ka_next s \<and> now \<le> d + delay
      | LoopReturned \<Rightarrow> True) \<and>
     list_all (\<lambda>d. now \<le> d + delay) (ka_wire s)"

text \<open>
  What \<open>createStream\<close> may give in the round that began at a time, and how the writes to that stream go,
  is a parameter, \<open>answers\<close>. \<open>Serve\<close> is any step of the server but that of the clock;
  \<open>HeartbeatCounted\<close> is the end of \<open>onConnect\<close> for the stream of a heartbeat. Heartbeats are lost only
  when the loop has ended. A select that finds both a tick and the closed connection may take either,
  \<open>RoundSentNext\<close> or \<open>RoundSentLast\<close>.
\<close>

inductive keepalive_step ::
  "int \<Rightarrow> int \<Rightarrow> int \<Rightarrow> (int \<Rightarrow> create_error + sink \<Rightarrow> bool) \<Rightarrow> keepalive \<Rightarrow> keepalive \<Rightarrow> bool"
  for interval delay lag answers
where
  Advance: "0 \<le> dt \<Longrightarrow> in_time delay s (ka_clock s + dt) \<Longrightarrow> prompt lag (ka_tracker s) (ka_clock s + dt) \<Longrightarrow>
    keepalive_step interval delay lag answers s (s\<lparr>ka_tracker := (ka_tracker s)\<lparr>it_clock := ka_clock s + dt\<rparr>\<rparr>)"
| Serve: "tracker_step lag (ka_tracker s) t \<Longrightarrow> it_clock t = ka_clock s \<Longrightarrow>
    keepalive_step interval delay lag answers s (s\<lparr>ka_tracker := t\<rparr>)"
| TickTaken: "ka_loop s = AtSelect \<Longrightarrow> ka_next s \<le> ka_clock s \<Longrightarrow>
    keepalive_step interval delay lag answers s
      (s\<lparr>ka_loop := InRound (ka_clock s), ka_next := ka_next s + interval, ka_latest := ka_clock s\<rparr>)"
| TickKept: "ka_loop s = InRound d \<Longrightarrow> ka_next s \<le> ka_clock s \<Longrightarrow>
    keepalive_step interval delay lag answers s (s\<lparr>ka_next := ka_next s + interval, ka_tick := True\<rparr>)"
| RoundSent: "ka_loop s = InRound d \<Longrightarrow> answers d created \<Longrightarrow> heartbeat_sent reqID created \<Longrightarrow> \<not> ka_tick s \<Longrightarrow>
    keepalive_step interval delay lag answers s (s\<lparr>ka_loop := AtSelect, ka_wire := ka_wire s @ [d]\<rparr>)"
| RoundSentNext: "ka_loop s = InRound d \<Longrightarrow> answers d created \<Longrightarrow> heartbeat_sent reqID created \<Longrightarrow> ka_tick s \<Longrightarrow>
    keepalive_step interval delay lag answers s
      (s\<lparr>ka_loop := InRound (ka_clock s), ka_tick := False, ka_wire := ka_wire s @ [d],
         ka_latest := ka_clock s\<rparr>)"
| RoundSentLast: "ka_loop s = InRound d \<Longrightarrow> answers d created \<Longrightarrow> heartbeat_sent reqID created \<Longrightarrow> ka_tick s \<Longrightarrow>
    keepalive_step interval delay lag answers s (s\<lparr>ka_loop := LoopReturned, ka_wire := ka_wire s @ [d]\<rparr>)"
| RoundFails: "ka_loop s = InRound d \<Longrightarrow> answers d created \<Longrightarrow> \<not> heartbeat_sent reqID created \<Longrightarrow>
    keepalive_step interval delay lag answers s (s\<lparr>ka_loop := LoopReturned\<rparr>)"
| CloseChan: "ka_loop s = AtSelect \<Longrightarrow> keepalive_step interval delay lag answers s (s\<lparr>ka_loop := LoopReturned\<rparr>)"
| HeartbeatCounted: "ka_wire s = ws @ d # ws' \<Longrightarrow> it_acceptor (ka_tracker s) = Storing c n \<Longrightarrow>
    keepalive_step interval delay lag answers s
      (s\<lparr>ka_tracker := (ka_tracker s)\<lparr>it_lastActivity := n, it_acceptor := Accepting,
           it_handlers := it_handlers (ka_tracker s) @ [(c, Handling)]\<rparr>,
         ka_wire := ws @ ws'\<rparr>)"
| HeartbeatLost: "ka_loop s = LoopReturned \<Longrightarrow> ka_wire s = ws @ d # ws' \<Longrightarrow>
    keepalive_step interval delay lag answers s (s\<lparr>ka_wire := ws @ ws'\<rparr>)"

inductive_cases keepalive_stepE: "keepalive_step interval delay lag answers s u"

text \<open>Nothing is assumed of the answers.\<close>

definition any_answer :: "int \<Rightarrow> create_error + sink \<Rightarrow> bool" where
  "any_answer d created = True"

lemmas any_answer = any_answer_def [THEN iffD2, OF TrueI]

section \<open>The invariant\<close>

definition unfinished :: "keepalive \<Rightarrow> int set" where
  "unfinished s = set (ka_wire s) \<union> (case ka_loop s of InRound d \<Rightarrow> {d} | _ \<Rightarrow> {})"

text \<open>The ticker and the rounds.\<close>

definition rounds_ok :: "int \<Rightarrow> int \<Rightarrow> keepalive \<Rightarrow> bool" where
  "rounds_ok interval delay s \<longleftrightarrow>
     ka_latest s \<le> ka_clock s \<and> ka_next s \<le> ka_clock s + interval \<and>
     (\<not> ka_tick s \<longrightarrow> ka_next s \<le> ka_latest s + interval) \<and> (ka_loop s = AtSelect \<longrightarrow> \<not> ka_tick s) \<and>
     (\<forall>d. ka_loop s = InRound d \<longrightarrow> d = ka_latest s) \<and> in_time delay s (ka_clock s)"

text \<open>
  The last round was counted, so the activity is as recent, or a round on its way began soon after the
  last activity. The slack is how long before the loop began the last activity lies.
\<close>

definition activity_ok :: "int \<Rightarrow> int \<Rightarrow> int \<Rightarrow> keepalive \<Rightarrow> bool" where
  "activity_ok slack interval delay s \<longleftrightarrow>
     (let l = it_lastActivity (ka_tracker s) + slack in
        ka_loop s = LoopReturned \<or> ka_latest s \<le> l \<or> (\<exists>d \<in> unfinished s. d \<le> l + max interval delay))"

text \<open>
  The tracker is prompt, the monitor is not about to close, and what it has loaded was recent then.
\<close>

definition recent :: "int \<Rightarrow> tracker \<Rightarrow> bool" where
  "recent bound t \<longleftrightarrow>
     (case it_monitor t of Loaded z l m \<Rightarrow> m - l \<le> bound | ShuttingDown z \<Rightarrow> False | _ \<Rightarrow> True)"

lemma rounds_step:
  assumes "keepalive_step interval delay lag answers s u" and "0 < interval" and "0 \<le> delay" and "rounds_ok interval delay s"
  shows "rounds_ok interval delay u"
  using assms
  by (cases rule: keepalive_step.cases) (auto simp: rounds_ok_def in_time_def split: heartbeat_loop.splits)

text \<open>A step of the tracker leaves the activity alone or stores a time that was read no more than the lag ago.\<close>

lemma tracker_step_activity:
  "tracker_step lag t u \<Longrightarrow> prompt lag t (it_clock t) \<Longrightarrow>
     it_lastActivity u = it_lastActivity t \<or> it_clock t \<le> it_lastActivity u + lag"
  by (erule tracker_stepE) (auto simp: prompt_def)

lemma activity_step:
  assumes "keepalive_step interval delay lag answers s u" and "lag \<le> slack" and "0 \<le> slack"
    and "rounds_ok interval delay s" and "prompt lag (ka_tracker s) (ka_clock s)" and "activity_ok slack interval delay s"
  shows "activity_ok slack interval delay u"
  using assms
proof (cases rule: keepalive_step.cases)
  case (Serve t)
  then consider "it_lastActivity t = it_lastActivity (ka_tracker s)" | "ka_clock s \<le> it_lastActivity t + lag"
    using tracker_step_activity assms(5) by blast
  then show ?thesis
    by cases (use Serve assms(2,4,6) in \<open>auto simp: activity_ok_def unfinished_def rounds_ok_def Let_def\<close>)
next
  case TickTaken
  with assms(4,6) show ?thesis
    by (auto simp: activity_ok_def unfinished_def rounds_ok_def in_time_def Let_def)
next
  case (RoundSent d)
  with assms(4,6) show ?thesis
    by (auto simp: activity_ok_def unfinished_def Let_def)
next
  case (RoundSentNext d)
  with assms(4,6) show ?thesis
    by (auto simp: activity_ok_def unfinished_def rounds_ok_def in_time_def Let_def)
next
  case (HeartbeatCounted ws d ws' c n)
  then have "ka_clock s \<le> n + lag" using assms(5) by (simp add: prompt_def)
  with HeartbeatCounted assms(2,4) show ?thesis
    by (auto simp: activity_ok_def rounds_ok_def Let_def)
qed (use assms(6) in \<open>auto simp: activity_ok_def unfinished_def Let_def\<close>)

text \<open>So the last activity is never long ago.\<close>

lemma activity_recent:
  assumes "0 \<le> interval" and "0 \<le> delay" and "rounds_ok interval delay s" and "activity_ok slack interval delay s"
    and "ka_loop s \<noteq> LoopReturned"
  shows "ka_clock s - it_lastActivity (ka_tracker s) \<le> slack + max interval delay + delay"
proof -
  have late: "ka_clock s \<le> d + delay" if "d \<in> unfinished s" for d
    using assms(3) that by (auto simp: unfinished_def rounds_ok_def in_time_def list_all_iff split: heartbeat_loop.splits)
  have latest: "ka_clock s \<le> ka_latest s + max interval delay"
    using assms(3,5) by (auto simp: rounds_ok_def in_time_def split: heartbeat_loop.splits)
  show ?thesis
    using assms(2,4,5) late latest by (fastforce simp: activity_ok_def Let_def)
qed

text \<open>Whether the loop has ended, the timeout, which never changes, and the listener.\<close>

lemma loop_returned_step:
  "keepalive_step interval delay lag answers s u \<Longrightarrow> ka_loop u \<noteq> LoopReturned \<Longrightarrow> ka_loop s \<noteq> LoopReturned"
  by (erule keepalive_stepE) auto

lemma keepalive_timeout_step:
  "keepalive_step interval delay lag answers s u \<Longrightarrow> it_timeout (ka_tracker u) = it_timeout (ka_tracker s)"
  by (erule keepalive_stepE) (auto dest: timeout_step)

lemma listening_step:
  "keepalive_step interval delay lag answers s u \<Longrightarrow> it_listening (ka_tracker s) \<Longrightarrow> recent bound (ka_tracker s) \<Longrightarrow>
     it_listening (ka_tracker u)"
  by (erule keepalive_stepE) (auto simp: recent_def elim!: tracker_stepE)

lemma recent_step:
  assumes "keepalive_step interval delay lag answers s u" and "recent bound (ka_tracker s)"
    and "ka_clock s - it_lastActivity (ka_tracker s) \<le> bound" and "prompt lag (ka_tracker s) (ka_clock s)"
    and "bound + lag < it_timeout (ka_tracker s)"
  shows "recent bound (ka_tracker u)"
  using assms
proof (cases rule: keepalive_step.cases)
  case (Serve t)
  from Serve(2) show ?thesis
    by (cases rule: tracker_step.cases) (use assms(2-5) Serve in \<open>auto simp: recent_def prompt_def\<close>)
qed (use assms(2) in \<open>auto simp: recent_def\<close>)

lemma keepalive_then:
  "keepalive_step interval delay lag answers s u \<Longrightarrow> (keepalive_step interval delay lag answers)\<^sup>*\<^sup>* u v \<Longrightarrow>
     (keepalive_step interval delay lag answers)\<^sup>*\<^sup>* s v"
  by (rule converse_rtranclp_into_rtranclp)

text \<open>Every step is steps of the tracker alone, so what is proved of the tracker holds here.\<close>

lemma keepalive_tracker_steps:
  "keepalive_step interval delay lag answers s u \<Longrightarrow> (tracker_step lag)\<^sup>*\<^sup>* (ka_tracker s) (ka_tracker u)"
  by (erule keepalive_stepE) (auto intro: tracker_step.intros)

lemma tracker_steps_reachable:
  "(tracker_step lag)\<^sup>*\<^sup>* t u \<Longrightarrow> tracker_reachable lag timeout start t \<Longrightarrow> tracker_reachable lag timeout start u"
  by (induction rule: rtranclp_induct) (auto intro: tracker_reachable.later)

lemma keepalive_tracker_reachable:
  assumes "(keepalive_step interval delay lag answers)\<^sup>*\<^sup>* s u" and "tracker_reachable lag timeout start (ka_tracker s)"
  shows "tracker_reachable lag timeout start (ka_tracker u)"
  using assms keepalive_tracker_steps tracker_steps_reachable
  by (induction rule: rtranclp_induct) blast+

lemma keepalive_invariant:
  assumes "tracker_reachable lag timeout start t" and "0 < interval" and "0 \<le> delay" and "0 \<le> lag" and "lag \<le> slack"
    and "it_clock t \<le> it_lastActivity t + slack"
    and "(keepalive_step interval delay lag answers)\<^sup>*\<^sup>* (new_keepalive interval t) s"
  shows "prompt lag (ka_tracker s) (ka_clock s) \<and> rounds_ok interval delay s \<and> activity_ok slack interval delay s"
proof -
  have prompt: "prompt lag (ka_tracker s) (ka_clock s)"
    if "(keepalive_step interval delay lag answers)\<^sup>*\<^sup>* (new_keepalive interval t) s" for s
    using tracker_invariant [OF keepalive_tracker_reachable [OF that] assms(4)] assms(1)
    by (simp add: new_keepalive_def times_ok_def)
  have "rounds_ok interval delay s \<and> activity_ok slack interval delay s"
    using assms(7)
  proof (induction rule: rtranclp_induct)
    case base
    show ?case
      using assms(2,3,6) by (simp add: rounds_ok_def activity_ok_def new_keepalive_def in_time_def)
  next
    case (step s u)
    have "0 \<le> slack" using assms(4,5) by simp
    with step show ?case
      using rounds_step [OF step(2) assms(2,3)] activity_step [OF step(2) assms(5)] prompt [OF step(1)] by blast
  qed
  with prompt [OF assms(7)] show ?thesis by simp
qed

section \<open>Time goes on\<close>

text \<open>
  The bounds never stop the clock: from every moment of a run with an open listener and a running loop
  the steps of both programs lead to a later one. What they have to do first takes no time: to end the
  round, to count the heartbeats on their way, to go on where the tracker is held up, and to take the
  tick that is due.
\<close>

lemma heartbeat_sent_open: "wr_script w = [] \<Longrightarrow> heartbeat_sent reqID (Inr w)"
  by (simp add: heartbeat_sent_def write_header_open)

lemma some_heartbeat_sent: "\<exists>reqID created. heartbeat_sent reqID created"
  using heartbeat_sent_open [of "\<lparr>accepted = [], packets = [], wr_script = []\<rparr>"] by auto

definition at_work :: "keepalive \<Rightarrow> bool" where
  "at_work s \<longleftrightarrow> it_listening (ka_tracker s) \<and> it_acceptor (ka_tracker s) \<noteq> AcceptorReturned"

text \<open>What the steps below leave as it is.\<close>

definition same_moment :: "keepalive \<Rightarrow> keepalive \<Rightarrow> bool" where
  "same_moment s u \<longleftrightarrow> at_work u \<and> ka_clock u = ka_clock s \<and> ka_next u = ka_next s"

lemma keep_then:
  "keepalive_step interval delay lag any_answer s u \<Longrightarrow> leads (keepalive_step interval delay lag any_answer) u P \<Longrightarrow>
     leads (keepalive_step interval delay lag any_answer) s P"
  by (rule leads_step)

lemma round_ends:
  assumes "at_work s" and "ka_loop s \<noteq> LoopReturned"
  shows "leads (keepalive_step interval delay lag any_answer) s (\<lambda>u. same_moment s u \<and> ka_loop u = AtSelect)"
proof -
  obtain reqID created where sent: "heartbeat_sent reqID created" using some_heartbeat_sent by blast
  have plain: "leads (keepalive_step interval delay lag any_answer) u (\<lambda>v. same_moment u v \<and> ka_loop v = AtSelect)"
    if "at_work u" "ka_loop u = InRound d" "\<not> ka_tick u" for u d
    by (rule keep_then [OF RoundSent [OF that(2) any_answer sent that(3)]], rule leads_now)
      (use that(1) in \<open>simp add: same_moment_def at_work_def\<close>)
  show ?thesis
  proof (cases "ka_loop s")
    case AtSelect
    with assms(1) show ?thesis by (intro leads_now) (simp add: same_moment_def)
  next
    case (InRound d)
    show ?thesis
    proof (cases "ka_tick s")
      case True
      let ?u = "s\<lparr>ka_loop := InRound (ka_clock s), ka_tick := False, ka_wire := ka_wire s @ [d], ka_latest := ka_clock s\<rparr>"
      have "leads (keepalive_step interval delay lag any_answer) ?u (\<lambda>v. same_moment ?u v \<and> ka_loop v = AtSelect)"
        by (rule plain) (use assms(1) in \<open>simp_all add: at_work_def\<close>)
      then show ?thesis
        by (intro keep_then [OF RoundSentNext [OF InRound any_answer sent True]]) (simp add: same_moment_def)
    next
      case False
      with plain [OF assms(1) InRound] show ?thesis .
    qed
  qed (use assms(2) in simp)
qed

text \<open>The accept loop gets back to \<open>Accept\<close>, and counts a heartbeat.\<close>

lemma acceptor_ready:
  assumes "at_work s"
  shows "leads (keepalive_step interval delay lag any_answer) s (\<lambda>u. same_moment s u \<and> ka_loop u = ka_loop s \<and>
    ka_wire u = ka_wire s \<and> it_acceptor (ka_tracker u) = Accepting)"
proof -
  have stored: "leads (keepalive_step interval delay lag any_answer) u (\<lambda>v. same_moment u v \<and> ka_loop v = ka_loop u \<and>
      ka_wire v = ka_wire u \<and> it_acceptor (ka_tracker v) = Accepting)"
    if "at_work u" "it_acceptor (ka_tracker u) = Storing c n" for u c n
    by (rule keep_then [OF Serve [OF OnConnectStore [OF that(2)]]], simp, rule leads_now)
      (use that(1) in \<open>simp add: same_moment_def at_work_def\<close>)
  have counted: "leads (keepalive_step interval delay lag any_answer) u (\<lambda>v. same_moment u v \<and> ka_loop v = ka_loop u \<and>
      ka_wire v = ka_wire u \<and> it_acceptor (ka_tracker v) = Accepting)"
    if "at_work u" "it_acceptor (ka_tracker u) = Counted c" for u c
  proof -
    let ?v = "u\<lparr>ka_tracker := (ka_tracker u)\<lparr>it_acceptor := Storing c (ka_clock u)\<rparr>\<rparr>"
    have "leads (keepalive_step interval delay lag any_answer) ?v (\<lambda>v. same_moment ?v v \<and> ka_loop v = ka_loop ?v \<and>
        ka_wire v = ka_wire ?v \<and> it_acceptor (ka_tracker v) = Accepting)"
      by (rule stored) (use that(1) in \<open>simp_all add: at_work_def\<close>)
    then show ?thesis
      by (intro keep_then [OF Serve [OF OnConnectNow [OF that(2)]]]) (simp_all add: same_moment_def)
  qed
  show ?thesis
  proof (cases "it_acceptor (ka_tracker s)")
    case Accepting
    with assms show ?thesis by (intro leads_now) (simp add: same_moment_def)
  next
    case Counting
    let ?t = "ka_tracker s"
    let ?u = "s\<lparr>ka_tracker := ?t\<lparr>it_activeConns := it_activeConns ?t + 1, it_acceptor := Counted (it_clock ?t)\<rparr>\<rparr>"
    have "leads (keepalive_step interval delay lag any_answer) ?u (\<lambda>v. same_moment ?u v \<and> ka_loop v = ka_loop ?u \<and>
        ka_wire v = ka_wire ?u \<and> it_acceptor (ka_tracker v) = Accepting)"
      by (rule counted) (use assms in \<open>simp_all add: at_work_def\<close>)
    then show ?thesis
      by (intro keep_then [OF Serve [OF OnConnectAdd [OF Counting]]]) (simp_all add: same_moment_def)
  next
    case (Counted c)
    with counted assms show ?thesis by blast
  next
    case (Storing c n)
    with stored assms show ?thesis by blast
  qed (use assms in \<open>simp add: at_work_def\<close>)
qed

lemma one_counted:
  assumes "at_work s" and "it_acceptor (ka_tracker s) = Accepting" and "ka_wire s = d # ws"
  shows "leads (keepalive_step interval delay lag any_answer) s (\<lambda>u. same_moment s u \<and> ka_loop u = ka_loop s \<and> ka_wire u = ws)"
proof -
  let ?t = "ka_tracker s"
  let ?a = "s\<lparr>ka_tracker := ?t\<lparr>it_acceptor := Counting\<rparr>\<rparr>" let ?ta = "ka_tracker ?a"
  let ?b = "?a\<lparr>ka_tracker := ?ta\<lparr>it_activeConns := it_activeConns ?ta + 1, it_acceptor := Counted (it_clock ?ta)\<rparr>\<rparr>"
  have 1: "keepalive_step interval delay lag any_answer s ?a"
    by (rule Serve [OF tracker_step.Accept]) (use assms(1,2) in \<open>simp_all add: at_work_def\<close>)
  let ?c = "?b\<lparr>ka_tracker := (ka_tracker ?b)\<lparr>it_acceptor := Storing (ka_clock s) (ka_clock s)\<rparr>\<rparr>"
  have 2: "keepalive_step interval delay lag any_answer ?a ?b" by (rule Serve [OF OnConnectAdd]) simp_all
  have 3: "keepalive_step interval delay lag any_answer ?b ?c"
    using Serve [OF OnConnectNow, of ?b "ka_clock s" interval delay lag] by simp
  have c: "ka_wire ?c = [] @ d # ws" "it_acceptor (ka_tracker ?c) = Storing (ka_clock s) (ka_clock s)"
    using assms(3) by simp_all
  show ?thesis
    by (rule keep_then [OF 1], rule keep_then [OF 2], rule keep_then [OF 3],
        rule keep_then [OF HeartbeatCounted [OF c]], rule leads_now)
      (use assms(1) in \<open>simp add: same_moment_def at_work_def\<close>)
qed

lemma all_counted:
  assumes "at_work s"
  shows "leads (keepalive_step interval delay lag any_answer) s (\<lambda>u. same_moment s u \<and> ka_loop u = ka_loop s \<and> ka_wire u = [])"
  using assms
proof (induction "length (ka_wire s)" arbitrary: s)
  case 0
  then show ?case by (intro leads_now) (simp add: same_moment_def)
next
  case (Suc n)
  show ?case
  proof (rule leads_chain [OF acceptor_ready [OF Suc.prems]])
    fix u
    assume u: "same_moment s u \<and> ka_loop u = ka_loop s \<and> ka_wire u = ka_wire s \<and>
      it_acceptor (ka_tracker u) = Accepting"
    with Suc.hyps(2) obtain d ws where w: "ka_wire u = d # ws" "length ws = n" by (cases "ka_wire s") auto
    have "at_work u" using u by (simp add: same_moment_def)
    then show "leads (keepalive_step interval delay lag any_answer) u (\<lambda>v. same_moment s v \<and> ka_loop v = ka_loop s \<and> ka_wire v = [])"
    proof (rule leads_chain [OF one_counted [OF _ _ w(1)]])
      show "it_acceptor (ka_tracker u) = Accepting" using u by simp
    next
      fix v
      assume v: "same_moment u v \<and> ka_loop v = ka_loop u \<and> ka_wire v = ws"
      then have "leads (keepalive_step interval delay lag any_answer) v (\<lambda>x. same_moment v x \<and> ka_loop x = ka_loop v \<and> ka_wire x = [])"
        by (intro Suc.hyps(1)) (simp_all add: w(2) same_moment_def)
      then show "leads (keepalive_step interval delay lag any_answer) v (\<lambda>x. same_moment s x \<and> ka_loop x = ka_loop s \<and> ka_wire x = [])"
        by (rule leads_weaken) (use u v in \<open>simp add: same_moment_def\<close>)
    qed
  qed
qed

text \<open>What is held up goes on.\<close>

lemma pending_done:
  assumes "at_work s"
  shows "leads (keepalive_step interval delay lag any_answer) s (\<lambda>u. same_moment s u \<and> ka_loop u = ka_loop s \<and>
    ka_wire u = ka_wire s \<and> nothing_pending (ka_tracker u))"
  using assms
proof (induction "tracker_pending (ka_tracker s)" arbitrary: s rule: less_induct)
  case less
  show ?case
  proof (cases "nothing_pending (ka_tracker s)")
    case True
    with less.prems show ?thesis by (intro leads_now) (simp add: same_moment_def)
  next
    case False
    from pending_goes_on [OF this, of lag] obtain t where t: "tracker_step lag (ka_tracker s) t"
      "tracker_pending t < tracker_pending (ka_tracker s)" "same_instant (ka_tracker s) t"
      by blast
    let ?u = "s\<lparr>ka_tracker := t\<rparr>"
    have u: "at_work ?u" "same_moment s ?u"
      using t(3) less.prems by (simp_all add: at_work_def same_moment_def same_instant_def)
    have "leads (keepalive_step interval delay lag any_answer) ?u (\<lambda>v. same_moment ?u v \<and> ka_loop v = ka_loop ?u \<and>
        ka_wire v = ka_wire ?u \<and> nothing_pending (ka_tracker v))"
      by (rule less.hyps) (simp_all add: t(2) u(1))
    then have "leads (keepalive_step interval delay lag any_answer) ?u (\<lambda>v. same_moment s v \<and> ka_loop v = ka_loop s \<and>
        ka_wire v = ka_wire s \<and> nothing_pending (ka_tracker v))"
      by (rule leads_weaken) (use u(2) in \<open>simp add: same_moment_def\<close>)
    then show ?thesis
      using keep_then [OF Serve [OF t(1)]] t(3) by (simp add: same_instant_def)
  qed
qed

text \<open>Altogether: at the select, with nothing on the way and nothing held up.\<close>

definition settled :: "keepalive \<Rightarrow> keepalive \<Rightarrow> bool" where
  "settled s u \<longleftrightarrow> same_moment s u \<and> ka_loop u = AtSelect \<and> ka_wire u = [] \<and> nothing_pending (ka_tracker u)"

lemma settles:
  assumes "at_work s" and "ka_loop s \<noteq> LoopReturned"
  shows "leads (keepalive_step interval delay lag any_answer) s (settled s)"
proof (rule leads_chain [OF round_ends [OF assms]])
  fix u
  assume u: "same_moment s u \<and> ka_loop u = AtSelect"
  then have "at_work u" by (simp add: same_moment_def)
  then show "leads (keepalive_step interval delay lag any_answer) u (settled s)"
  proof (rule leads_chain [OF all_counted])
    fix v
    assume v: "same_moment u v \<and> ka_loop v = ka_loop u \<and> ka_wire v = []"
    then have "at_work v" by (simp add: same_moment_def)
    from pending_done [OF this] show "leads (keepalive_step interval delay lag any_answer) v (settled s)"
      by (rule leads_weaken) (use u v in \<open>simp add: settled_def same_moment_def\<close>)
  qed
qed

lemma clock_to_tick:
  assumes "settled s w" and "ka_clock w < ka_next w"
  shows "leads (keepalive_step interval delay lag any_answer) w (\<lambda>u. ka_clock w < ka_clock u \<and> ka_loop u = AtSelect)"
proof -
  have dt: "0 \<le> ka_next w - ka_clock w" "in_time delay w (ka_clock w + (ka_next w - ka_clock w))"
      "prompt lag (ka_tracker w) (ka_clock w + (ka_next w - ka_clock w))"
    using assms by (simp_all add: in_time_def settled_def nothing_pending_prompt)
  show ?thesis
    by (rule keep_then [OF Advance [OF dt]], rule leads_now) (use assms in \<open>simp_all add: settled_def\<close>)
qed

lemma tick_due:
  assumes "at_work u" and "ka_loop u = AtSelect" and "ka_next u = ka_clock u" and "0 < interval"
  shows "leads (keepalive_step interval delay lag any_answer) u (\<lambda>v. ka_clock u < ka_clock v \<and> ka_loop v = AtSelect)"
proof -
  let ?v = "u\<lparr>ka_loop := InRound (ka_clock u), ka_next := ka_next u + interval, ka_latest := ka_clock u\<rparr>"
  have taken: "keepalive_step interval delay lag any_answer u ?v" by (rule TickTaken) (simp_all add: assms(2,3))
  have v: "at_work ?v" "ka_loop ?v \<noteq> LoopReturned" "ka_clock ?v = ka_clock u" "ka_next ?v = ka_clock u + interval"
    using assms(1,3) by (simp_all add: at_work_def)
  have later: "leads (keepalive_step interval delay lag any_answer) w (\<lambda>v. ka_clock u < ka_clock v \<and> ka_loop v = AtSelect)"
    if "settled ?v w" for w
  proof -
    have "ka_clock w = ka_clock u" "ka_next w = ka_clock u + interval"
      using that v(3,4) unfolding settled_def same_moment_def by metis+
    then show ?thesis using clock_to_tick [OF that, of interval delay lag] assms(4) by simp
  qed
  show ?thesis
    by (rule keep_then [OF taken], rule leads_chain [OF settles [OF v(1,2)]]) (rule later)
qed

lemma keepalive_time_goes_on:
  assumes "at_work s" and "ka_loop s \<noteq> LoopReturned" and "0 < interval" and "rounds_ok interval delay s"
  shows "leads (keepalive_step interval delay lag any_answer) s (\<lambda>u. ka_clock s < ka_clock u \<and> ka_loop u = AtSelect)"
proof (rule leads_chain [OF settles [OF assms(1,2)]])
  have fires: "ka_clock s \<le> ka_next s"
    using assms(2,4) by (auto simp: rounds_ok_def in_time_def split: heartbeat_loop.splits)
  fix u
  assume u: "settled s u"
  then have "ka_clock u = ka_clock s" "ka_next u = ka_next s" "at_work u" "ka_loop u = AtSelect"
    by (simp_all add: settled_def same_moment_def)
  then show "leads (keepalive_step interval delay lag any_answer) u (\<lambda>v. ka_clock s < ka_clock v \<and> ka_loop v = AtSelect)"
    using fires clock_to_tick [OF u, of interval delay lag] tick_due [of u interval delay lag] assms(3)
    by (cases "ka_clock u < ka_next u") simp_all
qed

text \<open>A listener that is open has an accept loop that runs.\<close>

lemma acceptor_runs:
  assumes "tracker_reachable lag timeout start t" and "it_listening t"
  shows "it_acceptor t \<noteq> AcceptorReturned"
proof -
  have "it_listening t \<longrightarrow> it_acceptor t \<noteq> AcceptorReturned"
    using assms(1)
  proof (induction rule: tracker_reachable.induct)
    case initially
    show ?case by (simp add: new_idle_tracker_def)
  next
    case (later t u)
    from later(2,3) show ?case by (cases rule: tracker_step.cases) auto
  qed
  with assms(2) show ?thesis by simp
qed

section \<open>Properties\<close>

text \<open>
  C10: Heartbeats keep the server alive: while \<open>sendHeartbeats\<close> has not returned, the listener stays open,
  whatever other connections come and go and however the goroutines interleave, provided the time from
  a tick to the count of its heartbeat is bounded, and the time for which a goroutine of the tracker is
  held up: the idle timeout has to exceed these two by one more period of the ticker, or by the first
  again where that is longer, and by what had passed since the last activity when the heartbeats began.
\<close>

theorem heartbeats_keep_server:
  assumes "tracker_reachable lag timeout start t" and "it_listening t" and "it_monitor t = Watching"
    and "it_clock t \<le> it_lastActivity t + slack" and "0 \<le> delay" and "0 \<le> lag" and "lag \<le> slack"
    and "slack + max heartbeatInterval delay + delay + lag < timeout"
    and "(keepalive_step heartbeatInterval delay lag any_answer)\<^sup>*\<^sup>* (new_keepalive heartbeatInterval t) s"
    and "ka_loop s \<noteq> LoopReturned"
  shows "it_listening (ka_tracker s)
    \<and> ka_clock s - it_lastActivity (ka_tracker s) \<le> slack + max heartbeatInterval delay + delay
    \<and> leads (keepalive_step heartbeatInterval delay lag any_answer) s (\<lambda>u. ka_clock s < ka_clock u \<and> ka_loop u = AtSelect)"
proof -
  let ?bound = "slack + max heartbeatInterval delay + delay"
  have i: "0 < heartbeatInterval" by (simp add: heartbeatInterval_def second_def)
  have "it_timeout t = timeout" using tracker_invariant [OF assms(1,6)] by simp
  note inv = keepalive_invariant [OF assms(1) i assms(5-7,4)]
  have idle: "ka_clock s - it_lastActivity (ka_tracker s) \<le> ?bound"
    if "(keepalive_step heartbeatInterval delay lag any_answer)\<^sup>*\<^sup>* (new_keepalive heartbeatInterval t) s"
      and "ka_loop s \<noteq> LoopReturned" for s
    using activity_recent [of heartbeatInterval delay s slack] inv [OF that(1)] that(2) i assms(5) by simp
  have "it_timeout (ka_tracker s) = timeout \<and>
    (ka_loop s \<noteq> LoopReturned \<longrightarrow> it_listening (ka_tracker s) \<and> recent ?bound (ka_tracker s))"
    using assms(9)
  proof (induction rule: rtranclp_induct)
    case base
    show ?case using assms(2,3) \<open>it_timeout t = timeout\<close> by (simp add: new_keepalive_def recent_def)
  next
    case (step s u)
    then show ?case
      using loop_returned_step keepalive_timeout_step listening_step recent_step [OF step(2)]
        idle [OF step(1)] inv [OF step(1)] assms(8)
      by metis
  qed
  with assms(10) have listening: "it_listening (ka_tracker s)" by simp
  have "tracker_reachable lag timeout start (ka_tracker s)"
    using keepalive_tracker_reachable [OF assms(9)] assms(1) by (simp add: new_keepalive_def)
  from acceptor_runs [OF this listening] listening have "at_work s" by (simp add: at_work_def)
  from keepalive_time_goes_on [OF this assms(10) i, of delay lag] inv [OF assms(9)]
  show ?thesis using listening idle [OF assms(9,10)] by simp
qed

text \<open>A server with the default timeout, and a client whose first heartbeat is counted after a second.\<close>

definition example_sent :: keepalive where
  "example_sent =
     \<lparr>ka_tracker = (new_idle_tracker (300 * second) 0)\<lparr>it_clock := 5 * second\<rparr>, ka_loop = AtSelect,
      ka_next = 10 * second, ka_tick = False, ka_wire = [5 * second], ka_latest = 5 * second\<rparr>"

definition example_counted :: keepalive where
  "example_counted =
     example_sent\<lparr>ka_tracker := (ka_tracker example_sent)\<lparr>it_clock := 6 * second, it_activeConns := 1,
       it_lastActivity := 6 * second, it_handlers := [(6 * second, Handling)]\<rparr>, ka_wire := []\<rparr>"

lemma example_sent_reachable:
  "(keepalive_step heartbeatInterval second second any_answer)\<^sup>*\<^sup>*
     (new_keepalive heartbeatInterval (new_idle_tracker (300 * second) 0)) example_sent"
proof -
  let ?step = "keepalive_step heartbeatInterval second second any_answer"
  let ?start = "new_keepalive heartbeatInterval (new_idle_tracker (300 * second) 0)"
  let ?s = "\<lambda>l n ws k. \<lparr>ka_tracker = (new_idle_tracker (300 * second) 0)\<lparr>it_clock := 5 * second\<rparr>,
    ka_loop = l, ka_next = n, ka_tick = False, ka_wire = ws, ka_latest = k\<rparr>"
  note defs = new_keepalive_def new_idle_tracker_def heartbeatInterval_def second_def in_time_def prompt_def
  have "?step ?start (?s AtSelect (5 * second) [] 0)"
    using Advance [of "5 * second" second ?start second heartbeatInterval] by (simp add: defs)
  moreover have "?step (?s AtSelect (5 * second) [] 0) (?s (InRound (5 * second)) (10 * second) [] (5 * second))"
    using TickTaken [of "?s AtSelect (5 * second) [] 0" heartbeatInterval second second any_answer] by (simp add: defs)
  moreover have "?step (?s (InRound (5 * second)) (10 * second) [] (5 * second)) example_sent"
    using RoundSent [of "?s (InRound (5 * second)) (10 * second) [] (5 * second)" "5 * second" any_answer
        "Inr \<lparr>accepted = [], packets = [], wr_script = []\<rparr>" "[]" heartbeatInterval second second] any_answer
      heartbeat_sent_open [of "\<lparr>accepted = [], packets = [], wr_script = []\<rparr>" "[]"]
    by (simp add: defs example_sent_def)
  ultimately show ?thesis by (meson keepalive_then rtranclp.rtrancl_refl)
qed

lemma example_counted_reachable:
  "(keepalive_step heartbeatInterval second second any_answer)\<^sup>*\<^sup>* example_sent example_counted"
proof -
  let ?step = "keepalive_step heartbeatInterval second second any_answer"
  let ?s = "\<lambda>n a. example_sent\<lparr>ka_tracker :=
    (ka_tracker example_sent)\<lparr>it_clock := 6 * second, it_activeConns := n, it_acceptor := a\<rparr>\<rparr>"
  note defs = example_sent_def new_idle_tracker_def second_def in_time_def prompt_def
  have "?step example_sent (?s 0 Accepting)"
    using Advance [of second second example_sent second heartbeatInterval] by (simp add: defs)
  moreover have "?step (?s 0 Accepting) (?s 0 Counting)"
    using Serve [OF tracker_step.Accept, of "?s 0 Accepting" heartbeatInterval second second any_answer] by (simp add: defs)
  moreover have "?step (?s 0 Counting) (?s 1 (Counted (6 * second)))"
    using Serve [OF OnConnectAdd, of "?s 0 Counting" heartbeatInterval second second any_answer] by (simp add: defs)
  moreover have "?step (?s 1 (Counted (6 * second))) (?s 1 (Storing (6 * second) (6 * second)))"
    using Serve [OF OnConnectNow, of "?s 1 (Counted (6 * second))" "6 * second" heartbeatInterval second second any_answer]
    by (simp add: defs)
  moreover have "?step (?s 1 (Storing (6 * second) (6 * second))) example_counted"
    using HeartbeatCounted [of "?s 1 (Storing (6 * second) (6 * second))" "[]" "5 * second" "[]" "6 * second"
        "6 * second" heartbeatInterval second second any_answer]
    by (simp add: defs example_counted_def)
  ultimately show ?thesis by (meson keepalive_then rtranclp.rtrancl_refl)
qed

theorem heartbeats_keep_server_witness:
  "it_listening (ka_tracker example_counted) \<and> it_lastActivity (ka_tracker example_counted) = 6 * second"
proof -
  have "it_listening (ka_tracker example_counted)"
    using heartbeats_keep_server [OF tracker_reachable.initially [of second "300 * second" 0], of second second example_counted]
      rtranclp_trans [OF example_sent_reachable example_counted_reachable]
    by (simp add: new_idle_tracker_def heartbeatInterval_def second_def example_counted_def example_sent_def)
  then show ?thesis by (simp add: example_counted_def)
qed

text \<open>
  The steps of the monitor alone. On a server with nothing in flight, once the timeout has passed since
  the last activity, they close the listener: there is no other way for the monitor to go.
\<close>

definition monitor_runs :: "int \<Rightarrow> tracker \<Rightarrow> tracker \<Rightarrow> bool" where
  "monitor_runs lag t u \<longleftrightarrow> tracker_step lag t u \<and> it_monitor u \<noteq> it_monitor t"

fun monitor_rank :: "monitor \<Rightarrow> nat" where
  "monitor_rank Watching = 4"
| "monitor_rank (SawZero z) = 3"
| "monitor_rank (Loaded z l m) = 2"
| "monitor_rank (ShuttingDown z) = 1"
| "monitor_rank MonitorReturned = 0"

definition monitor_closing :: "tracker \<Rightarrow> bool" where
  "monitor_closing t \<longleftrightarrow>
     it_monitor t = MonitorReturned \<and> \<not> it_listening t \<or>
     it_monitor t \<noteq> MonitorReturned \<and> it_acceptor t \<noteq> AcceptorReturned \<and> it_activeConns t \<le> 0 \<and>
       it_timeout t \<le> it_clock t - it_lastActivity t \<and> (\<forall>z l m. it_monitor t = Loaded z l m \<longrightarrow> l = it_lastActivity t)"

lemma monitor_closing_step:
  assumes "monitor_runs lag t u" and "monitor_closing t"
  shows "monitor_closing u \<and> monitor_rank (it_monitor u) < monitor_rank (it_monitor t)"
proof -
  have "tracker_step lag t u" "it_monitor u \<noteq> it_monitor t" using assms(1) by (simp_all add: monitor_runs_def)
  then show ?thesis
    by (cases rule: tracker_step.cases) (use assms(2) in \<open>auto simp: monitor_closing_def\<close>)
qed

lemma monitor_closing_goes_on:
  assumes "monitor_closing t" and "it_listening t"
  shows "\<exists>u. monitor_runs lag t u"
proof (cases "it_monitor t")
  case Watching
  with MonitorLook [OF this, of lag] assms show ?thesis by (fastforce simp: monitor_runs_def monitor_closing_def)
next
  case (SawZero z)
  with MonitorLoad [OF this, of lag] show ?thesis by (fastforce simp: monitor_runs_def)
next
  case (Loaded z l m)
  with MonitorDecides [OF this, of lag] assms show ?thesis by (fastforce simp: monitor_runs_def monitor_closing_def)
next
  case (ShuttingDown z)
  with MonitorClose [OF this, of lag] show ?thesis by (fastforce simp: monitor_runs_def)
qed (use assms in \<open>simp add: monitor_closing_def\<close>)

lemma monitor_closes:
  assumes "monitor_closing t"
  shows "comes_to (monitor_runs lag) (\<lambda>u. \<not> it_listening u) t"
  by (rule comes_to_measure [where I = monitor_closing and measure = "\<lambda>t. monitor_rank (it_monitor t)"])
    (use assms monitor_closing_step monitor_closing_goes_on in blast)+

text \<open>A round that cannot be sent is the last one.\<close>

definition round_fails :: "(int \<Rightarrow> create_error + sink \<Rightarrow> bool) \<Rightarrow> int \<Rightarrow> bool" where
  "round_fails answers d \<longleftrightarrow> (\<exists>created. answers d created) \<and>
     (\<forall>reqID created. answers d created \<longrightarrow> \<not> heartbeat_sent reqID created)"

lemma last_round_step:
  assumes "keepalive_step interval delay lag answers s u" and "round_fails answers d"
    and "ka_loop s = InRound d \<or> ka_loop s = LoopReturned"
  shows "(ka_loop u = InRound d \<or> ka_loop u = LoopReturned) \<and> subseq (ka_wire u) (ka_wire s)"
  using assms
  by (cases rule: keepalive_step.cases) (auto simp: round_fails_def intro: list_emb_append_mono)

text \<open>
  C39: One failed heartbeat is enough for the server to go: in a round whose stream cannot be created, or
  whose header cannot be written, \<open>sendHeartbeats\<close> ends for good, although the connection to the pod is
  open and whatever later rounds would come to: in every run from there it is in that round, and can
  return at once, or has returned, and no heartbeat comes to those that are on their way. And whenever the
  server has nothing in flight then, and none of them is left, nothing holds the time until the
  timeout has passed since the last activity, and at its next look after that the monitor comes to
  close the listener.
\<close>

theorem heartbeat_failure_stops_server:
  assumes "tracker_reachable lag timeout start (ka_tracker s)" and "0 \<le> lag" and "ka_loop s = InRound d"
    and "round_fails answers d" and "(keepalive_step interval delay lag answers)\<^sup>*\<^sup>* s u"
  shows "(ka_loop u = InRound d \<and> keepalive_step interval delay lag answers u (u\<lparr>ka_loop := LoopReturned\<rparr>) \<or>
      ka_loop u = LoopReturned) \<and> subseq (ka_wire u) (ka_wire s)
    \<and> (ka_loop u = LoopReturned \<and> ka_wire u = [] \<and> it_monitor (ka_tracker u) = Watching \<and>
       it_acceptor (ka_tracker u) = Accepting \<and> in_flight (ka_tracker u) = 0 \<longrightarrow>
       (let v = u\<lparr>ka_tracker := (ka_tracker u)\<lparr>it_clock := max (ka_clock u) (it_lastActivity (ka_tracker u) + timeout)\<rparr>\<rparr>
        in keepalive_step interval delay lag answers u v \<and>
           comes_to (monitor_runs lag) (\<lambda>t. \<not> it_listening t) (ka_tracker v)))"
proof -
  have last: "(ka_loop u = InRound d \<or> ka_loop u = LoopReturned) \<and> subseq (ka_wire u) (ka_wire s)"
    using assms(5)
  proof (induction rule: rtranclp_induct)
    case base
    show ?case using assms(3) by simp
  next
    case (step u v)
    then show ?case using last_round_step [OF step(2) assms(4)] subseq_order.order_trans by blast
  qed
  obtain reqID created where "answers d created" "\<not> heartbeat_sent reqID created"
    using assms(4) by (auto simp: round_fails_def)
  then have "keepalive_step interval delay lag answers u (u\<lparr>ka_loop := LoopReturned\<rparr>)" if "ka_loop u = InRound d"
    using RoundFails [of u d answers created reqID] that by blast
  moreover have "keepalive_step interval delay lag answers u v \<and>
      comes_to (monitor_runs lag) (\<lambda>t. \<not> it_listening t) (ka_tracker v)"
    if quiet: "ka_loop u = LoopReturned" "ka_wire u = []" "it_monitor (ka_tracker u) = Watching"
      "it_acceptor (ka_tracker u) = Accepting" "in_flight (ka_tracker u) = 0"
      and v: "v = u\<lparr>ka_tracker := (ka_tracker u)\<lparr>it_clock := max (ka_clock u) (it_lastActivity (ka_tracker u) + timeout)\<rparr>\<rparr>"
    for v
  proof -
    have inv: "it_activeConns (ka_tracker u) = 0" "it_timeout (ka_tracker u) = timeout"
      using tracker_invariant [OF keepalive_tracker_reachable [OF assms(5,1)] assms(2)] quiet(5) by (auto simp: counts_ok_def)
    have "nothing_pending (ka_tracker u)"
      using quiet(3-5) by (auto simp: nothing_pending_def in_flight_def)
    from nothing_pending_prompt [OF this]
    have "keepalive_step interval delay lag answers u v"
      using Advance [of "max (ka_clock u) (it_lastActivity (ka_tracker u) + timeout) - ka_clock u" delay u lag interval answers]
        quiet(1,2) by (simp add: in_time_def v)
    moreover have "monitor_closing (ka_tracker v)" using quiet(3,4) inv by (simp add: monitor_closing_def v)
    ultimately show ?thesis using monitor_closes by blast
  qed
  ultimately show ?thesis using last by (simp add: Let_def) blast
qed

text \<open>The connection to the API server gives no stream at the first tick, and streams again later.\<close>

definition example_failed :: keepalive where
  "example_failed = (new_keepalive heartbeatInterval (new_idle_tracker (300 * second) 0))\<lparr>ka_loop := InRound 0\<rparr>"

definition example_answers :: "int \<Rightarrow> create_error + sink \<Rightarrow> bool" where
  "example_answers d created = (if d = 0 then created = Inl CreateErrorStream else created = Inr fresh_sink)"

theorem heartbeat_failure_stops_server_witness:
  "comes_to (monitor_runs second) (\<lambda>t. \<not> it_listening t) ((new_idle_tracker (300 * second) 0)\<lparr>it_clock := 300 * second\<rparr>)"
proof -
  have fails: "round_fails example_answers 0"
    by (simp add: round_fails_def example_answers_def heartbeat_sent_def)
  have "ka_loop example_failed = InRound 0" by (simp add: example_failed_def)
  from RoundFails [OF this, of example_answers "Inl CreateErrorStream" "[]" heartbeatInterval second second]
  have "keepalive_step heartbeatInterval second second example_answers example_failed (example_failed\<lparr>ka_loop := LoopReturned\<rparr>)"
    by (simp add: example_answers_def heartbeat_sent_def)
  then have run: "(keepalive_step heartbeatInterval second second example_answers)\<^sup>*\<^sup>* example_failed
      (example_failed\<lparr>ka_loop := LoopReturned\<rparr>)" by (rule r_into_rtranclp)
  have "tracker_reachable second (300 * second) 0 (ka_tracker example_failed)"
    by (simp add: example_failed_def new_keepalive_def tracker_reachable.initially)
  from heartbeat_failure_stops_server [OF this _ \<open>ka_loop example_failed = InRound 0\<close> fails run] show ?thesis
    by (simp add: example_failed_def new_keepalive_def new_idle_tracker_def second_def in_flight_def Let_def)
qed

end
