(* ===== verification/K8s_Objects.thy ===== *)
theory K8s_Objects
  imports Prelude
begin

text \<open>
  The fields of the Kubernetes API objects the program reads: services, pods and the workloads that
  hold a pod template. They are data only; what the API server and the client library do with them
  is a parameter of the operations that call it.
\<close>

record service_port =
  sp_Name :: string
  sp_Port :: "32 word"
  sp_Protocol :: string

record container_port =
  cp_Name :: string
  cp_ContainerPort :: "32 word"
  cp_Protocol :: string

record container =
  ct_Ports :: "container_port list"

record pod_spec =
  ps_InitContainers :: "container list"
  ps_Containers :: "container list"

record service =
  svc_Type :: string
  svc_ClusterIP :: string
  svc_ExternalName :: string
  svc_Selector :: "(string \<times> string) list"
  svc_Ports :: "service_port list"

text \<open>
  Of a pod's metadata and status: the name, the creation time, whether a deletion time is set, the
  phase, the IP, and for each container whether it is running.
\<close>

record pod =
  pod_Name :: string
  pod_CreationTimestamp :: int
  pod_Deleting :: bool
  pod_Spec :: pod_spec
  pod_Phase :: string
  pod_PodIP :: string
  pod_ContainersRunning :: "bool list"

text \<open>The label selector of a workload is opaque: the client library turns it into a selector.\<close>

record 'sel workload =
  wl_Selector :: 'sel
  wl_Template :: pod_spec

datatype 'sel object =
    Service service
  | Pod pod
  | Deployment "'sel workload"
  | StatefulSet "'sel workload"
  | ReplicaSet "'sel workload"
  | DaemonSet "'sel workload"
  | OtherObject string

definition PodRunning :: string where "PodRunning = ''Running''"
definition ServiceTypeExternalName :: string where "ServiceTypeExternalName = ''ExternalName''"
definition ClusterIPNone :: string where "ClusterIPNone = ''None''"

text \<open>
  What a watch delivers: the type of the event, and its object, which is a pod or something the type
  assertion to a pod does not accept.
\<close>

datatype event_type = Added | Modified | Deleted | Bookmark | ErrorEvent

datatype event_object = PodObject pod | NoPod

end
