(* ===== verification/Remote_Addr.thy ===== *)
theory Remote_Addr
  imports Wire K8s_Objects
begin

text \<open>
  The remote address of a forwarded port, \<open>pkg/remoteaddr\<close> and \<open>addrGetterForObject\<close> in
  \<open>cmd/client/utils.go\<close>: an address that is fixed, or one that follows the newest running pod of a
  selector. What the API server answers (lists of pods, watches) and how the client library writes a
  selector as text are parameters.
\<close>

section \<open>Sorting as sort.Slice does\<close>

text \<open>
  \<open>sort.Slice\<close> sorts up to twelve elements by insertion: an element moves to the front past its left
  neighbours as long as \<open>less\<close> says so. The model is this insertion sort for every length; for more
  elements Go picks another algorithm, with the same result where no two elements are equal under
  \<open>less\<close>. The sorted part is kept from right to left.
\<close>

fun sort_insert :: "('a \<Rightarrow> 'a \<Rightarrow> bool) \<Rightarrow> 'a \<Rightarrow> 'a list \<Rightarrow> 'a list" where
  "sort_insert lt x [] = [x]"
| "sort_insert lt x (y # ys) = (if lt x y then y # sort_insert lt x ys else x # y # ys)"

definition sort_slice :: "('a \<Rightarrow> 'a \<Rightarrow> bool) \<Rightarrow> 'a list \<Rightarrow> 'a list" where
  "sort_slice lt xs = rev (fold (sort_insert lt) xs [])"

lemma set_sort_insert [simp]: "set (sort_insert lt x ys) = insert x (set ys)"
  by (induction ys) auto

lemma set_sort_slice [simp]: "set (sort_slice lt xs) = set xs"
proof -
  have "set (fold (sort_insert lt) xs acc) = set xs \<union> set acc" for acc
    by (induction xs arbitrary: acc) auto
  then show ?thesis by (simp add: sort_slice_def)
qed

text \<open>With the reflexive order of a key the result is in that order.\<close>

lemma sorted_sort_insert:
  "sorted_wrt (\<lambda>x y. key x \<le> key y) ys \<Longrightarrow>
     sorted_wrt (\<lambda>x y. key x \<le> key y) (sort_insert (\<lambda>x y. \<not> key x < key y) x ys)"
  for key :: "'a \<Rightarrow> int"
  by (induction ys) (auto simp: not_less)

lemma sorted_sort_slice:
  fixes key :: "'a \<Rightarrow> int"
  shows "sorted_wrt (\<lambda>x y. key y \<le> key x) (sort_slice (\<lambda>x y. \<not> key x < key y) xs)"
proof -
  have "sorted_wrt (\<lambda>x y. key x \<le> key y) (fold (sort_insert (\<lambda>x y. \<not> key x < key y)) xs acc)"
    if "sorted_wrt (\<lambda>x y. key x \<le> key y) acc" for acc
    using that by (induction xs arbitrary: acc) (simp_all add: sorted_sort_insert)
  then show ?thesis by (simp add: sort_slice_def sorted_wrt_rev)
qed

section \<open>updatePodIP\<close>

record dynamic_addr =
  da_podName :: string
  da_addr :: addr

datatype update_error =
    ListPodsError string
  | NoRunningPods

text \<open>The answer to \<open>List\<close>: an error, or a resource version and the pods.\<close>

type_synonym list_answer = "string + string \<times> pod list"

definition created_no_earlier :: "pod \<Rightarrow> pod \<Rightarrow> bool" where
  "created_no_earlier p q \<longleftrightarrow> \<not> pod_CreationTimestamp p < pod_CreationTimestamp q"

definition pod_running :: "pod \<Rightarrow> bool" where
  "pod_running p \<longleftrightarrow> pod_Phase p = PodRunning"

text \<open>\<open>d.addr, _ = xnet.AddrFromIP(...)\<close>: an address that does not parse is the zero address.\<close>

definition pod_addr :: "pod \<Rightarrow> addr" where
  "pod_addr p = (case addr_from_ip (pod_PodIP p) of Inl _ \<Rightarrow> zero_addr | Inr a \<Rightarrow> a)"

definition update_pod_ip ::
  "list_answer \<Rightarrow> dynamic_addr \<Rightarrow> (update_error + string) \<times> dynamic_addr"
where
  "update_pod_ip answer d =
     (case answer of
        Inl e \<Rightarrow> (Inl (ListPodsError e), d)
      | Inr (rv, items) \<Rightarrow>
          (case find pod_running (sort_slice created_no_earlier items) of
             None \<Rightarrow> (Inl NoRunningPods, d)
           | Some pod \<Rightarrow> (Inr rv, d\<lparr>da_podName := pod_Name pod, da_addr := pod_addr pod\<rparr>)))"

section \<open>watchForUpdates\<close>

text \<open>
  The polls of one event: \<open>updatePodIP\<close> is tried on the answers in order until it succeeds; the answers
  are as many as fit into the minute.
\<close>

fun poll_update :: "list_answer list \<Rightarrow> dynamic_addr \<Rightarrow> dynamic_addr" where
  "poll_update [] d = d"
| "poll_update (answer # answers) d =
     (case update_pod_ip answer d of
        (Inr _, d') \<Rightarrow> d'
      | (Inl _, d') \<Rightarrow> poll_update answers d')"

text \<open>
  One round of the loop. The debug message for an event of another pod reads the name of the pod the
  assertion returned, which is a nil pointer when the object is no pod.
\<close>

definition watch_event ::
  "event_type \<Rightarrow> event_object \<Rightarrow> list_answer list \<Rightarrow> dynamic_addr \<Rightarrow> (unit, dynamic_addr) outcome"
where
  "watch_event kind obj answers d =
     (if kind = Bookmark \<or> kind = ErrorEvent then Ok d
      else
        (case obj of
           NoPod \<Rightarrow> Panic
         | PodObject pod \<Rightarrow>
             if pod_Name pod \<noteq> da_podName d then Ok d
             else if kind = Modified \<and> \<not> pod_Deleting pod \<and> pod_Phase pod = PodRunning then Ok d
             else Ok (poll_update answers d)))"

fun watch_for_updates ::
  "(event_type \<times> event_object \<times> list_answer list) list \<Rightarrow> dynamic_addr \<Rightarrow> (unit, dynamic_addr) outcome"
where
  "watch_for_updates [] d = Ok d"
| "watch_for_updates ((kind, obj, answers) # evs) d =
     obind (watch_event kind obj answers d) (watch_for_updates evs)"

section \<open>Getters\<close>

datatype getter =
    StaticAddr addr
  | DynamicAddr string string dynamic_addr

definition static_get :: "addr \<Rightarrow> string + addr" where
  "static_get a = Inr a"

definition dynamic_get :: "dynamic_addr \<Rightarrow> string + addr" where
  "dynamic_get d = Inr (da_addr d)"

definition getter_get :: "getter \<Rightarrow> string + addr" where
  "getter_get g = (case g of StaticAddr a \<Rightarrow> static_get a | DynamicAddr _ _ d \<Rightarrow> dynamic_get d)"

text \<open>
  The interface \<open>Getter\<close>. Its method may return an error, but no implementation does; what the
  forwarders rely on is that they get an address.
\<close>

locale address_getter =
  fixes get :: "'g \<Rightarrow> string + addr"
  assumes gets: "\<exists>a. get g = Inr a"
begin

definition current :: "'g \<Rightarrow> addr" where
  "current g = projr (get g)"

lemma get_current: "get g = Inr (current g)"
  using gets [of g] by (auto simp: current_def)

lemma no_error: "get g \<noteq> Inl e"
  by (simp add: get_current)

end

interpretation static: address_getter static_get
  by unfold_locales (simp add: static_get_def)

interpretation dynamic: address_getter dynamic_get
  by unfold_locales (simp add: dynamic_get_def)

interpretation getter: address_getter getter_get
  by unfold_locales (simp add: getter_get_def static_get_def dynamic_get_def split: getter.split)

text \<open>The address of a getter, which its \<open>Get\<close> returns without an error.\<close>

definition getter_addr :: "getter \<Rightarrow> addr" where
  "getter_addr g = (case g of StaticAddr a \<Rightarrow> a | DynamicAddr _ _ d \<Rightarrow> da_addr d)"

lemma getter_get_addr: "getter_get g = Inr (getter_addr g)"
  using getter.get_current [of g]
  by (auto simp: getter_addr_def getter_get_def static_get_def dynamic_get_def split: getter.splits)

text \<open>
  \<open>NewDynamicAddr\<close> and \<open>init\<close>: \<open>list_pods\<close> answers the first list, \<open>new_watcher\<close> says whether a watch from
  a resource version can be made.
\<close>

datatype init_error =
    UpdateFailed update_error
  | WatchPods string

datatype getter_error =
    InvalidIP string
  | EmptySelector
  | SelectorError string
  | InitPodIP init_error
  | UnknownObjectType string

record 'sel cluster =
  list_pods :: "string \<Rightarrow> string \<Rightarrow> list_answer"
  new_watcher :: "string \<Rightarrow> string option"
  selector_from_set :: "(string \<times> string) list \<Rightarrow> string"
  label_selector :: "'sel \<Rightarrow> string + string"

definition dynamic_init ::
  "'sel cluster \<Rightarrow> string \<Rightarrow> string \<Rightarrow> dynamic_addr \<Rightarrow> (init_error option) \<times> dynamic_addr"
where
  "dynamic_init cl ns selector d =
     (case update_pod_ip (list_pods cl ns selector) d of
        (Inl err, d') \<Rightarrow> (Some (UpdateFailed err), d')
      | (Inr rv, d') \<Rightarrow> (map_option WatchPods (new_watcher cl rv), d'))"

definition new_dynamic_addr :: "'sel cluster \<Rightarrow> string \<Rightarrow> string \<Rightarrow> getter_error + getter" where
  "new_dynamic_addr cl ns selector =
     (case dynamic_init cl ns selector \<lparr>da_podName = [], da_addr = zero_addr\<rparr> of
        (Some err, _) \<Rightarrow> Inl (InitPodIP err)
      | (None, d) \<Rightarrow> Inr (DynamicAddr ns selector d))"

definition static_from_ip :: "string \<Rightarrow> getter_error + getter" where
  "static_from_ip s = (case addr_from_ip s of Inl _ \<Rightarrow> Inl (InvalidIP s) | Inr a \<Rightarrow> Inr (StaticAddr a))"

definition dynamic_from_workload ::
  "'sel cluster \<Rightarrow> string \<Rightarrow> 'sel workload \<Rightarrow> getter_error + getter"
where
  "dynamic_from_workload cl ns w =
     (case label_selector cl (wl_Selector w) of
        Inl err \<Rightarrow> Inl (SelectorError err)
      | Inr selector \<Rightarrow> new_dynamic_addr cl ns selector)"

fun addr_getter_for_object ::
  "'sel object \<Rightarrow> 'sel cluster \<Rightarrow> string \<Rightarrow> getter_error + getter"
where
  "addr_getter_for_object (Pod p) cl ns = static_from_ip (pod_PodIP p)"
| "addr_getter_for_object (Service s) cl ns =
     (if svc_Type s = ServiceTypeExternalName then Inr (StaticAddr (addr_from_host (svc_ExternalName s)))
      else if svc_ClusterIP s \<noteq> ClusterIPNone then static_from_ip (svc_ClusterIP s)
      else if svc_Selector s = [] then Inl EmptySelector
      else new_dynamic_addr cl ns (selector_from_set cl (svc_Selector s)))"
| "addr_getter_for_object (ReplicaSet w) cl ns = dynamic_from_workload cl ns w"
| "addr_getter_for_object (Deployment w) cl ns = dynamic_from_workload cl ns w"
| "addr_getter_for_object (StatefulSet w) cl ns = dynamic_from_workload cl ns w"
| "addr_getter_for_object (DaemonSet w) cl ns = dynamic_from_workload cl ns w"
| "addr_getter_for_object (OtherObject t) cl ns = Inl (UnknownObjectType t)"

section \<open>Lemmas\<close>

text \<open>The newest running pod of a list, as the code finds it.\<close>

definition newest_running :: "pod list \<Rightarrow> pod \<Rightarrow> bool" where
  "newest_running ps p \<longleftrightarrow>
     p \<in> set ps \<and> pod_running p \<and>
     (\<forall>q \<in> set ps. pod_running q \<longrightarrow> pod_CreationTimestamp q \<le> pod_CreationTimestamp p)"

lemma find_sorted:
  assumes "find P xs = Some x" and "sorted_wrt R xs" and "y \<in> set xs" and "P y"
  shows "y = x \<or> R x y"
  using assms by (induction xs) (auto split: if_splits)

lemma find_newest:
  "find pod_running (sort_slice created_no_earlier ps) = Some p \<Longrightarrow> newest_running ps p"
proof -
  assume f: "find pod_running (sort_slice created_no_earlier ps) = Some p"
  have newer: "created_no_earlier = (\<lambda>p q. \<not> pod_CreationTimestamp p < pod_CreationTimestamp q)"
    by (simp add: fun_eq_iff created_no_earlier_def)
  have "p \<in> set ps" "pod_running p"
    using f by (auto simp: find_Some_iff) (metis nth_mem set_sort_slice)
  moreover have "pod_CreationTimestamp q \<le> pod_CreationTimestamp p" if "q \<in> set ps" "pod_running q" for q
    using find_sorted [OF f, unfolded newer, OF sorted_sort_slice, of q] that by auto
  ultimately show ?thesis by (simp add: newest_running_def)
qed

lemma find_none: "find pod_running (sort_slice created_no_earlier ps) = None \<longleftrightarrow> (\<forall>p \<in> set ps. \<not> pod_running p)"
  by (auto simp: find_None_iff)

definition follow_pod :: "pod \<Rightarrow> dynamic_addr" where
  "follow_pod p = \<lparr>da_podName = pod_Name p, da_addr = pod_addr p\<rparr>"

lemma update_pod_ip_Inr:
  "update_pod_ip answer d = (Inr rv, d') \<Longrightarrow>
     \<exists>ps p. answer = Inr (rv, ps) \<and> newest_running ps p \<and> d' = follow_pod p"
proof -
  assume u: "update_pod_ip answer d = (Inr rv, d')"
  then obtain ps where a: "answer = Inr (rv, ps)"
    by (auto simp: update_pod_ip_def split: sum.splits option.splits)
  with u obtain p where "find pod_running (sort_slice created_no_earlier ps) = Some p" and "d' = follow_pod p"
    by (cases d) (auto simp: update_pod_ip_def follow_pod_def split: option.splits)
  with a find_newest show ?thesis by blast
qed

lemma update_pod_ip_Inl: "update_pod_ip answer d = (Inl e, d') \<Longrightarrow> d' = d"
  by (auto simp: update_pod_ip_def split: sum.splits option.splits)

lemma update_pod_ip_running:
  assumes "\<exists>p \<in> set ps. pod_running p"
  shows "\<exists>p. newest_running ps p \<and> update_pod_ip (Inr (rv, ps)) d = (Inr rv, follow_pod p)"
proof -
  obtain p where p: "find pod_running (sort_slice created_no_earlier ps) = Some p"
    using assms find_none [of ps] by (cases "find pod_running (sort_slice created_no_earlier ps)") auto
  then have "update_pod_ip (Inr (rv, ps)) d = (Inr rv, follow_pod p)"
    by (cases d) (simp add: update_pod_ip_def follow_pod_def)
  with find_newest [OF p] show ?thesis by blast
qed

lemma poll_update_skips:
  "\<forall>a \<in> set failed. \<exists>e. fst (update_pod_ip a d) = Inl e \<Longrightarrow>
     poll_update (failed @ answers) d = poll_update answers d"
proof (induction failed)
  case (Cons a failed)
  then obtain e d' where u: "update_pod_ip a d = (Inl e, d')" by (cases "update_pod_ip a d") auto
  with update_pod_ip_Inl [OF u] Cons show ?case by simp
qed simp

lemma poll_update_provenance:
  "poll_update answers d = d \<or>
   (\<exists>rv ps p. Inr (rv, ps) \<in> set answers \<and> newest_running ps p \<and> poll_update answers d = follow_pod p)"
proof (induction answers)
  case (Cons a answers)
  show ?case
  proof (cases "update_pod_ip a d")
    case (Pair r d')
    show ?thesis
    proof (cases r)
      case (Inl e)
      with Pair Cons update_pod_ip_Inl [of a d e d'] show ?thesis by auto
    next
      case (Inr rv)
      with Pair update_pod_ip_Inr [of a d rv d'] show ?thesis by auto
    qed
  qed
qed simp

section \<open>Properties\<close>

text \<open>
  \<open>updatePodIP\<close> follows the newest running pod: it takes over the name and the address of a running
  pod that no other running pod of the list is newer than; without one it fails and changes nothing.
\<close>

lemma update_pod_ip_newest:
  assumes "\<exists>p \<in> set ps. pod_running p" and "\<forall>p \<in> set qs. \<not> pod_running p"
  shows "(\<exists>p. newest_running ps p \<and>
       update_pod_ip (Inr (rv, ps)) d = (Inr rv, \<lparr>da_podName = pod_Name p, da_addr = pod_addr p\<rparr>))
     \<and> update_pod_ip (Inr (rv, qs)) d = (Inl NoRunningPods, d)
     \<and> update_pod_ip (Inl e) d = (Inl (ListPodsError e), d)"
  using update_pod_ip_running [OF assms(1), of rv d] assms(2) find_none [of qs]
  by (auto simp: update_pod_ip_def follow_pod_def)

definition example_pod :: "string \<Rightarrow> int \<Rightarrow> string \<Rightarrow> string \<Rightarrow> pod" where
  "example_pod name created phase ip =
     \<lparr>pod_Name = name, pod_CreationTimestamp = created, pod_Deleting = False,
      pod_Spec = \<lparr>ps_InitContainers = [], ps_Containers = []\<rparr>, pod_Phase = phase, pod_PodIP = ip,
      pod_ContainersRunning = []\<rparr>"

lemma example_pod_fields [simp]:
  "pod_Name (example_pod n c ph ip) = n" "pod_CreationTimestamp (example_pod n c ph ip) = c"
  "pod_Deleting (example_pod n c ph ip) = False" "pod_Phase (example_pod n c ph ip) = ph"
  "pod_PodIP (example_pod n c ph ip) = ip"
  "pod_running (example_pod n c ph ip) = (ph = ''Running'')"
  by (simp_all add: example_pod_def pod_running_def PodRunning_def)

definition example_pods :: "pod list" where
  "example_pods =
     [example_pod ''a'' 10 ''Running'' ''10.0.0.1'', example_pod ''c'' 30 ''Pending'' [],
      example_pod ''b'' 20 ''Running'' ''10.0.0.2'']"

lemma example_newest:
  "newest_running example_pods p \<longleftrightarrow> p = example_pod ''b'' 20 ''Running'' ''10.0.0.2''"
  "\<exists>p \<in> set example_pods. pod_running p"
  by (auto simp: newest_running_def example_pods_def)

text \<open>
  The address recovers when its pod goes away: after a deletion of the current pod, or a change that
  leaves it not running or being deleted, the first poll that finds a running pod makes the newest
  running one of that list the current pod; the polls that fail before it change nothing.
\<close>

lemma watch_recovers:
  assumes "pod_Name pod = da_podName d" and "kind = Added \<or> kind = Modified \<or> kind = Deleted"
    and "kind = Modified \<longrightarrow> pod_Deleting pod \<or> pod_Phase pod \<noteq> PodRunning"
    and "\<forall>a \<in> set failed. \<exists>e. fst (update_pod_ip a d) = Inl e" and "\<exists>p \<in> set ps. pod_running p"
  shows "\<exists>p. newest_running ps p \<and>
    watch_event kind (PodObject pod) (failed @ Inr (rv, ps) # answers) d =
      Ok \<lparr>da_podName = pod_Name p, da_addr = pod_addr p\<rparr>"
proof -
  obtain p where "newest_running ps p" "update_pod_ip (Inr (rv, ps)) d = (Inr rv, follow_pod p)"
    using update_pod_ip_running [OF assms(5)] by blast
  moreover have "poll_update (failed @ Inr (rv, ps) # answers) d = poll_update (Inr (rv, ps) # answers) d"
    by (rule poll_update_skips [OF assms(4)])
  ultimately show ?thesis
    using assms(1-3) by (intro exI [of _ p]) (auto simp: watch_event_def follow_pod_def)
qed

text \<open>
  C27: Over a whole watch the address is only ever the one it was, or that of the newest running pod of a
  list that was answered to a poll. The loop panics exactly when an added, modified or deleted object is
  not a pod: the message that such an event is ignored reads its name.
\<close>

theorem watch_safe:
  "(case watch_for_updates evs d of
      Ok d' \<Rightarrow> d' = d \<or>
        (\<exists>kind obj answers rv ps p. (kind, obj, answers) \<in> set evs \<and> Inr (rv, ps) \<in> set answers \<and>
           newest_running ps p \<and> d' = \<lparr>da_podName = pod_Name p, da_addr = pod_addr p\<rparr>)
    | Error _ \<Rightarrow> False
    | Panic \<Rightarrow> True)
   \<and> (watch_for_updates evs d = Panic \<longleftrightarrow>
        (\<exists>kind answers. (kind, NoPod, answers) \<in> set evs \<and> kind \<noteq> Bookmark \<and> kind \<noteq> ErrorEvent))"
proof (induction evs arbitrary: d)
  case Nil
  show ?case by simp
next
  case (Cons ev evs)
  obtain kind obj answers where ev: "ev = (kind, obj, answers)" by (metis prod_cases3)
  have one: "(watch_event kind obj answers d = Panic \<and> obj = NoPod \<and> kind \<noteq> Bookmark \<and> kind \<noteq> ErrorEvent) \<or>
      (\<exists>d1. watch_event kind obj answers d = Ok d1 \<and> (obj = NoPod \<longrightarrow> kind = Bookmark \<or> kind = ErrorEvent) \<and>
        (d1 = d \<or> (\<exists>rv ps p. Inr (rv, ps) \<in> set answers \<and> newest_running ps p \<and> d1 = follow_pod p)))"
    using poll_update_provenance [of answers d]
    by (cases obj) (auto simp: watch_event_def)
  then show ?case
  proof
    assume "watch_event kind obj answers d = Panic \<and> obj = NoPod \<and> kind \<noteq> Bookmark \<and> kind \<noteq> ErrorEvent"
    then show ?thesis using ev by auto
  next
    assume "\<exists>d1. watch_event kind obj answers d = Ok d1 \<and> (obj = NoPod \<longrightarrow> kind = Bookmark \<or> kind = ErrorEvent) \<and>
        (d1 = d \<or> (\<exists>rv ps p. Inr (rv, ps) \<in> set answers \<and> newest_running ps p \<and> d1 = follow_pod p))"
    then obtain d1 where d1: "watch_event kind obj answers d = Ok d1"
      and obj: "obj = NoPod \<longrightarrow> kind = Bookmark \<or> kind = ErrorEvent"
      and src: "d1 = d \<or> (\<exists>rv ps p. Inr (rv, ps) \<in> set answers \<and> newest_running ps p \<and> d1 = follow_pod p)"
      by blast
    have step: "watch_for_updates (ev # evs) d = watch_for_updates evs d1" using ev d1 by simp
    have pan: "(watch_for_updates (ev # evs) d = Panic) = (\<exists>kind answers. (kind, NoPod, answers) \<in> set (ev # evs) \<and> kind \<noteq> Bookmark \<and> kind \<noteq> ErrorEvent)"
      using Cons.IH [of d1] obj ev step by auto
    have "case watch_for_updates evs d1 of
        Ok d' \<Rightarrow> d' = d \<or> (\<exists>kind obj answers rv ps p. (kind, obj, answers) \<in> set (ev # evs) \<and>
          Inr (rv, ps) \<in> set answers \<and> newest_running ps p \<and> d' = follow_pod p)
      | Error _ \<Rightarrow> False | Panic \<Rightarrow> True"
      using Cons.IH [of d1] src ev
      by (cases "watch_for_updates evs d1") (auto simp: follow_pod_def, blast+)
    then show ?thesis using pan unfolding step follow_pod_def by simp
  qed
qed

text \<open>What a getter made from an object gives.\<close>

definition follows :: "'sel cluster \<Rightarrow> string \<Rightarrow> string \<Rightarrow> addr \<Rightarrow> bool" where
  "follows cl ns selector a \<longleftrightarrow>
     (\<exists>rv ps p. list_pods cl ns selector = Inr (rv, ps) \<and> newest_running ps p \<and> a = pod_addr p)"

fun object_addr :: "'sel object \<Rightarrow> 'sel cluster \<Rightarrow> string \<Rightarrow> addr \<Rightarrow> bool" where
  "object_addr (Pod p) cl ns a \<longleftrightarrow> addr_from_ip (pod_PodIP p) = Inr a"
| "object_addr (Service s) cl ns a \<longleftrightarrow>
     (if svc_Type s = ''ExternalName'' then a = addr_from_host (svc_ExternalName s)
      else if svc_ClusterIP s = ''None''
      then svc_Selector s \<noteq> [] \<and> follows cl ns (selector_from_set cl (svc_Selector s)) a
      else addr_from_ip (svc_ClusterIP s) = Inr a)"
| "object_addr (ReplicaSet w) cl ns a \<longleftrightarrow> (\<exists>sel. label_selector cl (wl_Selector w) = Inr sel \<and> follows cl ns sel a)"
| "object_addr (Deployment w) cl ns a \<longleftrightarrow> (\<exists>sel. label_selector cl (wl_Selector w) = Inr sel \<and> follows cl ns sel a)"
| "object_addr (StatefulSet w) cl ns a \<longleftrightarrow> (\<exists>sel. label_selector cl (wl_Selector w) = Inr sel \<and> follows cl ns sel a)"
| "object_addr (DaemonSet w) cl ns a \<longleftrightarrow> (\<exists>sel. label_selector cl (wl_Selector w) = Inr sel \<and> follows cl ns sel a)"
| "object_addr (OtherObject t) cl ns a \<longleftrightarrow> False"

lemma new_dynamic_addr_follows:
  "new_dynamic_addr cl ns sel = Inr g \<Longrightarrow> \<exists>a. getter_get g = Inr a \<and> follows cl ns sel a"
  by (fastforce simp: new_dynamic_addr_def dynamic_init_def follows_def getter_get_def dynamic_get_def follow_pod_def
      split: prod.splits sum.splits option.splits dest!: update_pod_ip_Inr)

text \<open>
  C28: The address for an object: a pod's IP; a service's external name or cluster IP, and for a headless
  one the newest running pod its selector finds; for a workload the newest running pod of its selector.
\<close>

theorem getter_for_object:
  assumes "addr_getter_for_object obj cl ns = Inr g"
  shows "\<exists>a. getter_get g = Inr a \<and> object_addr obj cl ns a"
  using assms new_dynamic_addr_follows
  by (cases obj)
    (auto simp: static_from_ip_def dynamic_from_workload_def getter_get_def static_get_def
      ServiceTypeExternalName_def ClusterIPNone_def split: sum.splits if_splits)

definition example_cluster :: "string cluster" where
  "example_cluster =
     \<lparr>list_pods = (\<lambda>_ _. Inr (''7'', example_pods)), new_watcher = (\<lambda>_. None),
      selector_from_set = (\<lambda>_. ''app=db''), label_selector = Inr\<rparr>"

definition example_headless :: service where
  "example_headless =
     \<lparr>svc_Type = ''ClusterIP'', svc_ClusterIP = ''None'', svc_ExternalName = [],
      svc_Selector = [(''app'', ''db'')], svc_Ports = []\<rparr>"

theorem getter_for_object_witness:
  "\<exists>g. addr_getter_for_object (Service example_headless) example_cluster ''default'' = Inr g \<and>
     getter_get g = Inr (pod_addr (example_pod ''b'' 20 ''Running'' ''10.0.0.2''))"
proof -
  obtain g where g: "addr_getter_for_object (Service example_headless) example_cluster ''default'' = Inr g"
    using update_pod_ip_running [OF example_newest(2), of "''7''" "\<lparr>da_podName = [], da_addr = zero_addr\<rparr>"]
    by (auto simp: example_headless_def example_cluster_def new_dynamic_addr_def dynamic_init_def
        ServiceTypeExternalName_def ClusterIPNone_def)
  from getter_for_object [OF g] obtain a where "getter_get g = Inr a"
    and "follows example_cluster ''default'' ''app=db'' a"
    by (auto simp: example_headless_def example_cluster_def)
  with g example_newest(1) show ?thesis
    by (auto simp: follows_def example_cluster_def)
qed

end
