(* ===== verification/Addr_Watch.thy ===== *)
theory Addr_Watch
  imports Remote_Addr Pipes
begin

text \<open>
  The dynamic address as its goroutines share it, \<open>pkg/remoteaddr/dynamic.go\<close>: the watcher reads events,
  asks for lists of pods and stores the name and the address of a pod under the write lock, while any
  number of forwarders call \<open>Get\<close> under the read lock. Every access is a step of its own.
  \<open>Remote_Addr\<close> has the same code as a function of the events; here it is shown that the interleaved
  steps implement that function.
\<close>

section \<open>The goroutines\<close>

text \<open>
  The watcher: at the channel of events; in the poll for an event, with the answers so far; with a pod
  chosen from the last of them, before \<open>Lock\<close>; holding the lock, with nothing stored, the name stored, or
  both; past the end of the channel; or panicked.
\<close>

datatype watcher =
    AtEvents
  | Polling event_type pod "list_answer list"
  | Chosen event_type pod "list_answer list" pod
  | Locked event_type pod "list_answer list" pod
  | NameStored event_type pod "list_answer list" pod
  | AddrStored event_type pod "list_answer list" pod
  | WatchReturned
  | WatchPanicked

text \<open>
  A call of \<open>Get\<close>: before \<open>RLock\<close>; holding the read lock; with the address read; or returned. The number,
  for the statements only, says how many events had been handled when it took the lock.
\<close>

datatype get_call =
    GetCalled
  | GetLocked nat
  | GetRead nat addr
  | GetReturned nat addr

text \<open>
  The two fields of the address, the lock, and the goroutines. \<open>aw_log\<close>, the events that were handled,
  each with the answers of its poll, is for the statements only.
\<close>

record addr_watch =
  aw_d :: dynamic_addr
  aw_writer :: bool
  aw_readers :: nat
  aw_watcher :: watcher
  aw_get :: "nat \<Rightarrow> get_call"
  aw_log :: "(event_type \<times> event_object \<times> list_answer list) list"

definition new_addr_watch :: "dynamic_addr \<Rightarrow> addr_watch" where
  "new_addr_watch d =
     \<lparr>aw_d = d, aw_writer = False, aw_readers = 0, aw_watcher = AtEvents, aw_get = (\<lambda>_. GetCalled), aw_log = []\<rparr>"

text \<open>What the loop does with an event before it polls; it reads the name without the lock.\<close>

definition ignored_event :: "event_type \<Rightarrow> event_object \<Rightarrow> dynamic_addr \<Rightarrow> bool" where
  "ignored_event kind obj d \<longleftrightarrow>
     kind = Bookmark \<or> kind = ErrorEvent \<or>
     (case obj of
        NoPod \<Rightarrow> False
      | PodObject pod \<Rightarrow>
          pod_Name pod \<noteq> da_podName d \<or>
          kind = Modified \<and> \<not> pod_Deleting pod \<and> pod_Phase pod = PodRunning)"

text \<open>
  The pod \<open>updatePodIP\<close> chooses from the answer to its \<open>List\<close>, if it does.
\<close>

definition chosen_pod :: "list_answer \<Rightarrow> pod option" where
  "chosen_pod answer =
     (case answer of
        Inl _ \<Rightarrow> None
      | Inr (rv, items) \<Rightarrow> find pod_running (sort_slice created_no_earlier items))"

text \<open>
  The poll asks at once, so it does not time out without an answer. A panic ends the program, and the
  calls with it. The lock lets a writer in when nobody holds it, and a reader when no writer does; that a
  writer that waits keeps new readers out is left open.
\<close>

inductive addr_watch_step :: "addr_watch \<Rightarrow> addr_watch \<Rightarrow> bool" where
  EventIgnored: "aw_watcher s = AtEvents \<Longrightarrow> ignored_event kind obj (aw_d s) \<Longrightarrow>
    addr_watch_step s (s\<lparr>aw_log := aw_log s @ [(kind, obj, answers)]\<rparr>)"
| EventNoPod: "aw_watcher s = AtEvents \<Longrightarrow> \<not> ignored_event kind NoPod (aw_d s) \<Longrightarrow>
    addr_watch_step s (s\<lparr>aw_watcher := WatchPanicked, aw_log := aw_log s @ [(kind, NoPod, answers)]\<rparr>)"
| EventTaken: "aw_watcher s = AtEvents \<Longrightarrow> \<not> ignored_event kind (PodObject pod) (aw_d s) \<Longrightarrow>
    addr_watch_step s (s\<lparr>aw_watcher := Polling kind pod []\<rparr>)"
| ListFails: "aw_watcher s = Polling kind pod answers \<Longrightarrow> chosen_pod answer = None \<Longrightarrow>
    addr_watch_step s (s\<lparr>aw_watcher := Polling kind pod (answers @ [answer])\<rparr>)"
| PollTimesOut: "aw_watcher s = Polling kind pod answers \<Longrightarrow> answers \<noteq> [] \<Longrightarrow>
    addr_watch_step s (s\<lparr>aw_watcher := AtEvents, aw_log := aw_log s @ [(kind, PodObject pod, answers)]\<rparr>)"
| ListChooses: "aw_watcher s = Polling kind pod answers \<Longrightarrow> chosen_pod answer = Some p \<Longrightarrow>
    addr_watch_step s (s\<lparr>aw_watcher := Chosen kind pod (answers @ [answer]) p\<rparr>)"
| Lock: "aw_watcher s = Chosen kind pod answers p \<Longrightarrow> \<not> aw_writer s \<Longrightarrow> aw_readers s = 0 \<Longrightarrow>
    addr_watch_step s (s\<lparr>aw_writer := True, aw_watcher := Locked kind pod answers p\<rparr>)"
| StoreName: "aw_watcher s = Locked kind pod answers p \<Longrightarrow>
    addr_watch_step s
      (s\<lparr>aw_d := (aw_d s)\<lparr>da_podName := pod_Name p\<rparr>, aw_watcher := NameStored kind pod answers p\<rparr>)"
| StoreAddr: "aw_watcher s = NameStored kind pod answers p \<Longrightarrow>
    addr_watch_step s
      (s\<lparr>aw_d := (aw_d s)\<lparr>da_addr := pod_addr p\<rparr>, aw_watcher := AddrStored kind pod answers p\<rparr>)"
| Unlock: "aw_watcher s = AddrStored kind pod answers p \<Longrightarrow>
    addr_watch_step s
      (s\<lparr>aw_writer := False, aw_watcher := AtEvents, aw_log := aw_log s @ [(kind, PodObject pod, answers)]\<rparr>)"
| ChannelClosed: "aw_watcher s = AtEvents \<Longrightarrow> addr_watch_step s (s\<lparr>aw_watcher := WatchReturned\<rparr>)"
| RLock: "aw_watcher s \<noteq> WatchPanicked \<Longrightarrow> aw_get s i = GetCalled \<Longrightarrow> \<not> aw_writer s \<Longrightarrow>
    addr_watch_step s
      (s\<lparr>aw_readers := Suc (aw_readers s), aw_get := (aw_get s)(i := GetLocked (length (aw_log s)))\<rparr>)"
| ReadAddr: "aw_watcher s \<noteq> WatchPanicked \<Longrightarrow> aw_get s i = GetLocked n \<Longrightarrow>
    addr_watch_step s (s\<lparr>aw_get := (aw_get s)(i := GetRead n (da_addr (aw_d s)))\<rparr>)"
| RUnlock: "aw_watcher s \<noteq> WatchPanicked \<Longrightarrow> aw_get s i = GetRead n a \<Longrightarrow>
    addr_watch_step s (s\<lparr>aw_readers := aw_readers s - 1, aw_get := (aw_get s)(i := GetReturned n a)\<rparr>)"

inductive_cases addr_watch_stepE: "addr_watch_step s t"

definition addr_watch_reachable :: "dynamic_addr \<Rightarrow> addr_watch \<Rightarrow> bool" where
  "addr_watch_reachable d = addr_watch_step\<^sup>*\<^sup>* (new_addr_watch d)"

section \<open>The lock\<close>

definition reading :: "get_call \<Rightarrow> bool" where
  "reading g \<longleftrightarrow> (case g of GetLocked _ \<Rightarrow> True | GetRead _ _ \<Rightarrow> True | _ \<Rightarrow> False)"

definition writing :: "watcher \<Rightarrow> bool" where
  "writing w \<longleftrightarrow>
     (case w of Locked _ _ _ _ \<Rightarrow> True | NameStored _ _ _ _ \<Rightarrow> True | AddrStored _ _ _ _ \<Rightarrow> True | _ \<Rightarrow> False)"

text \<open>The count of readers is exact, and the lock is held as the goroutines think.\<close>

definition lock_ok :: "addr_watch \<Rightarrow> bool" where
  "lock_ok s \<longleftrightarrow>
     finite {i. reading (aw_get s i)} \<and> card {i. reading (aw_get s i)} = aw_readers s \<and>
     aw_writer s = writing (aw_watcher s) \<and> (aw_writer s \<longrightarrow> aw_readers s = 0)"

lemma reading_simps [simp]:
  "\<not> reading GetCalled" "reading (GetLocked n)" "reading (GetRead n a)" "\<not> reading (GetReturned n a)"
  by (simp_all add: reading_def)

lemma writing_simps [simp]:
  "\<not> writing AtEvents" "\<not> writing (Polling k p as)" "\<not> writing (Chosen k p as q)" "writing (Locked k p as q)"
  "writing (NameStored k p as q)" "writing (AddrStored k p as q)" "\<not> writing WatchReturned" "\<not> writing WatchPanicked"
  by (simp_all add: writing_def)

lemma reading_upd:
  "{j. reading ((g(i := c)) j)} = (if reading c then insert i {j. reading (g j)} else {j. reading (g j)} - {i})"
  by auto

lemma lock_step:
  assumes "addr_watch_step s t" and "lock_ok s"
  shows "lock_ok t"
  using assms
proof (cases rule: addr_watch_step.cases)
  case (RLock i)
  with assms(2) show ?thesis by (simp add: lock_ok_def reading_upd del: fun_upd_apply)
next
  case (ReadAddr i n)
  then have "{j. reading (aw_get s j)} = insert i {j. reading (aw_get s j)}" by auto
  with ReadAddr assms(2) show ?thesis by (simp add: lock_ok_def reading_upd del: fun_upd_apply)
next
  case (RUnlock i n a)
  then have "i \<in> {j. reading (aw_get s j)}" by simp
  with RUnlock assms(2) show ?thesis by (auto simp: lock_ok_def reading_upd simp del: fun_upd_apply)
qed (auto simp: lock_ok_def)


lemma no_reader:
  assumes "lock_ok s" and "writing (aw_watcher s)"
  shows "\<not> reading (aw_get s i)"
  using assms by (auto simp: lock_ok_def)

section \<open>The events\<close>

lemma chosen_None: "chosen_pod answer = None \<Longrightarrow> \<exists>e. update_pod_ip answer d = (Inl e, d)"
  by (auto simp: chosen_pod_def update_pod_ip_def split: sum.splits option.splits)

lemma chosen_Some: "chosen_pod answer = Some p \<Longrightarrow> \<exists>rv. update_pod_ip answer d = (Inr rv, follow_pod p)"
  by (cases d) (auto simp: chosen_pod_def update_pod_ip_def follow_pod_def split: sum.splits)

lemma poll_update_chosen:
  assumes "\<forall>a \<in> set answers. chosen_pod a = None"
  shows "poll_update answers d = d"
    and "chosen_pod answer = Some p \<Longrightarrow> poll_update (answers @ [answer]) d = follow_pod p"
proof -
  have skip: "poll_update (answers @ more) d = poll_update more d" for more
    by (rule poll_update_skips) (metis assms chosen_None fst_conv)
  show "poll_update answers d = d" using skip [of "[]"] by simp
  show "poll_update (answers @ [answer]) d = follow_pod p" if "chosen_pod answer = Some p"
    using chosen_Some [OF that, of d] by (auto simp: skip)
qed

lemma watch_event_cases:
  "ignored_event kind obj d \<Longrightarrow> watch_event kind obj answers d = Ok d"
  "\<not> ignored_event kind NoPod d \<Longrightarrow> watch_event kind NoPod answers d = Panic"
  "\<not> ignored_event kind (PodObject pod) d \<Longrightarrow>
     watch_event kind (PodObject pod) answers d = Ok (poll_update answers d)"
  by (auto simp: watch_event_def ignored_event_def split: event_object.splits)

lemma watch_snoc:
  "watch_for_updates (evs @ [(kind, obj, answers)]) d =
     obind (watch_for_updates evs d) (watch_event kind obj answers)"
proof (induction evs arbitrary: d)
  case Nil
  show ?case by (cases "watch_event kind obj answers d") simp_all
next
  case (Cons ev evs)
  then have "watch_for_updates (evs @ [(kind, obj, answers)]) =
      (\<lambda>d. obind (watch_for_updates evs d) (watch_event kind obj answers))" by blast
  with Cons show ?case by (cases ev) (simp add: obind_assoc)
qed

text \<open>
  Between two events the address is what the function of the events says; in a poll it is what it was
  before, and when the lock is let go what the poll makes of it.
\<close>

definition polled :: "addr_watch \<Rightarrow> dynamic_addr \<Rightarrow> dynamic_addr \<Rightarrow> event_type \<Rightarrow> pod \<Rightarrow> list_answer list \<Rightarrow> pod \<Rightarrow> bool" where
  "polled s d d1 kind pod answers p \<longleftrightarrow>
     watch_for_updates (aw_log s) d = Ok d1 \<and> \<not> ignored_event kind (PodObject pod) d1 \<and>
     poll_update answers d1 = follow_pod p"

definition events_ok :: "dynamic_addr \<Rightarrow> addr_watch \<Rightarrow> bool" where
  "events_ok d s \<longleftrightarrow>
     (case aw_watcher s of
        AtEvents \<Rightarrow> watch_for_updates (aw_log s) d = Ok (aw_d s)
      | WatchReturned \<Rightarrow> watch_for_updates (aw_log s) d = Ok (aw_d s)
      | WatchPanicked \<Rightarrow> watch_for_updates (aw_log s) d = Panic
      | Polling kind pod answers \<Rightarrow>
          watch_for_updates (aw_log s) d = Ok (aw_d s) \<and> \<not> ignored_event kind (PodObject pod) (aw_d s) \<and>
          (\<forall>a \<in> set answers. chosen_pod a = None)
      | Chosen kind pod answers p \<Rightarrow> polled s d (aw_d s) kind pod answers p
      | Locked kind pod answers p \<Rightarrow> polled s d (aw_d s) kind pod answers p
      | NameStored kind pod answers p \<Rightarrow>
          (\<exists>d1. polled s d d1 kind pod answers p \<and> aw_d s = d1\<lparr>da_podName := pod_Name p\<rparr>)
      | AddrStored kind pod answers p \<Rightarrow>
          (\<exists>d1. polled s d d1 kind pod answers p) \<and> aw_d s = follow_pod p)"

lemma follow_pod_stored: "d\<lparr>da_podName := pod_Name p, da_addr := pod_addr p\<rparr> = follow_pod p"
  by (cases d) (simp add: follow_pod_def)

lemma events_step:
  assumes "addr_watch_step s t" and "events_ok d s"
  shows "events_ok d t"
  using assms
proof (cases rule: addr_watch_step.cases)
  case (PollTimesOut kind pod answers)
  with assms(2) show ?thesis
    by (auto simp: events_ok_def watch_snoc watch_event_cases poll_update_chosen)
next
  case (ListChooses kind pod answers answer p)
  with assms(2) show ?thesis
    by (auto simp: events_ok_def polled_def poll_update_chosen)
next
  case (Unlock kind pod answers p)
  with assms(2) show ?thesis
    by (auto simp: events_ok_def polled_def watch_snoc watch_event_cases)
qed (use assms(2) in \<open>auto simp: events_ok_def polled_def watch_snoc watch_event_cases follow_pod_stored
      split: watcher.splits\<close>)

section \<open>The calls of Get\<close>

definition value_after :: "dynamic_addr \<Rightarrow> addr_watch \<Rightarrow> nat \<Rightarrow> dynamic_addr \<Rightarrow> bool" where
  "value_after d s n v \<longleftrightarrow> n \<le> length (aw_log s) \<and> watch_for_updates (take n (aw_log s)) d = Ok v"

lemma log_grows: "addr_watch_step s t \<Longrightarrow> prefix (aw_log s) (aw_log t)"
  by (erule addr_watch_stepE) auto

lemma value_after_mono: "value_after d s n v \<Longrightarrow> prefix (aw_log s) (aw_log t) \<Longrightarrow> value_after d t n v"
  by (auto simp: value_after_def prefix_def)

text \<open>The address changes only under the write lock.\<close>

lemma d_changes: "addr_watch_step s t \<Longrightarrow> aw_d t = aw_d s \<or> writing (aw_watcher s)"
  by (erule addr_watch_stepE) auto

lemma value_now:
  assumes "events_ok d s" and "\<not> writing (aw_watcher s)" and "aw_watcher s \<noteq> WatchPanicked"
  shows "value_after d s (length (aw_log s)) (aw_d s)"
  using assms by (cases "aw_watcher s") (auto simp: value_after_def events_ok_def polled_def)

definition get_ok :: "dynamic_addr \<Rightarrow> addr_watch \<Rightarrow> get_call \<Rightarrow> bool" where
  "get_ok d s g \<longleftrightarrow>
     (case g of
        GetCalled \<Rightarrow> True
      | GetLocked n \<Rightarrow> value_after d s n (aw_d s)
      | GetRead n a \<Rightarrow> \<exists>v. value_after d s n v \<and> a = da_addr v
      | GetReturned n a \<Rightarrow> \<exists>v. value_after d s n v \<and> a = da_addr v)"

lemma get_ok_same:
  "aw_log t = aw_log s \<Longrightarrow> aw_d t = aw_d s \<Longrightarrow> get_ok d t g = get_ok d s g"
  by (cases g) (simp_all add: get_ok_def value_after_def)

lemma get_stays:
  assumes "addr_watch_step s t" and "lock_ok s" and "get_ok d s (aw_get s i)"
  shows "get_ok d t (aw_get s i)"
proof -
  have "aw_d t = aw_d s" if "reading (aw_get s i)"
    using d_changes [OF assms(1)] no_reader [OF assms(2), of i] that by blast
  then show ?thesis
    using assms(3) value_after_mono [OF _ log_grows [OF assms(1)]]
    by (cases "aw_get s i") (auto simp: get_ok_def)
qed

lemma gets_step:
  assumes "addr_watch_step s t" and "lock_ok s" and "events_ok d s" and "\<forall>i. get_ok d s (aw_get s i)"
  shows "get_ok d t (aw_get t j)"
  using assms(1)
proof (cases rule: addr_watch_step.cases)
  case (RLock i)
  have "\<not> writing (aw_watcher s)" using assms(2) RLock(4) by (simp add: lock_ok_def)
  from value_now [OF assms(3) this RLock(2)] have "get_ok d s (GetLocked (length (aw_log s)))"
    by (simp add: get_ok_def)
  with assms(4) have "get_ok d s (aw_get t j)" using RLock(1) by simp
  then show ?thesis using get_ok_same [of t s d] RLock(1) by simp
next
  case (ReadAddr i n)
  with assms(4) [rule_format, of i] have "get_ok d s (GetRead n (da_addr (aw_d s)))"
    by (auto simp: get_ok_def)
  with assms(4) have "get_ok d s (aw_get t j)" using ReadAddr(1) by simp
  then show ?thesis using get_ok_same [of t s d] ReadAddr(1) by simp
next
  case (RUnlock i n a)
  with assms(4) [rule_format, of i] have "get_ok d s (GetReturned n a)" by (simp add: get_ok_def)
  with assms(4) have "get_ok d s (aw_get t j)" using RUnlock(1) by simp
  then show ?thesis using get_ok_same [of t s d] RUnlock(1) by simp
qed (use get_stays [OF assms(1,2), of d j] assms(4) in simp_all)

lemma addr_watch_starts: "addr_watch_reachable d (new_addr_watch d)"
  by (simp add: addr_watch_reachable_def)

lemma addr_watch_goes_on: "addr_watch_reachable d s \<Longrightarrow> addr_watch_step s t \<Longrightarrow> addr_watch_reachable d t"
  unfolding addr_watch_reachable_def by (rule rtranclp.rtrancl_into_rtrancl)

lemma addr_watch_invariant:
  assumes "addr_watch_reachable d s"
  shows "lock_ok s \<and> events_ok d s \<and> (\<forall>i. get_ok d s (aw_get s i))"
proof (rule steps_invariant [OF assms [unfolded addr_watch_reachable_def]])
  show "lock_ok (new_addr_watch d) \<and> events_ok d (new_addr_watch d) \<and>
      (\<forall>i. get_ok d (new_addr_watch d) (aw_get (new_addr_watch d) i))"
    by (simp add: lock_ok_def events_ok_def get_ok_def new_addr_watch_def)
qed (use lock_step events_step gets_step in blast)


section \<open>Nobody waits forever\<close>

lemma watch_then: "addr_watch_step s t \<Longrightarrow> leads addr_watch_step t P \<Longrightarrow> leads addr_watch_step s P"
  by (rule leads_step)

lemma leave_lock:
  assumes "aw_watcher s \<noteq> WatchPanicked" and "reading (aw_get s i)" and "lock_ok s"
  shows "leads addr_watch_step s (\<lambda>t. aw_watcher t = aw_watcher s \<and> aw_d t = aw_d s \<and> aw_log t = aw_log s \<and>
    lock_ok t \<and> aw_readers t = aw_readers s - 1)"
proof -
  have leave: "leads addr_watch_step u (\<lambda>t. aw_watcher t = aw_watcher u \<and> aw_d t = aw_d u \<and> aw_log t = aw_log u \<and>
      lock_ok t \<and> aw_readers t = aw_readers u - 1)"
    if "aw_watcher u \<noteq> WatchPanicked" "aw_get u i = GetRead n a" "lock_ok u" for u n a
    using lock_step [OF RUnlock [OF that(1,2)] that(3)]
    by (intro watch_then [OF RUnlock [OF that(1,2)]] leads_now) simp
  show ?thesis
  proof (cases "aw_get s i")
    case (GetLocked n)
    let ?t = "s\<lparr>aw_get := (aw_get s)(i := GetRead n (da_addr (aw_d s)))\<rparr>"
    have st: "addr_watch_step s ?t" by (rule ReadAddr [OF assms(1) GetLocked])
    have "leads addr_watch_step ?t (\<lambda>t. aw_watcher t = aw_watcher ?t \<and> aw_d t = aw_d ?t \<and> aw_log t = aw_log ?t \<and>
        lock_ok t \<and> aw_readers t = aw_readers ?t - 1)"
      by (rule leave) (use assms(1) lock_step [OF st assms(3)] in simp_all)
    then show ?thesis by (intro watch_then [OF st]) simp
  next
    case (GetRead n a)
    then show ?thesis using leave assms(1,3) by blast
  qed (use assms(2) in simp_all)
qed

lemma readers_leave:
  assumes "aw_watcher s \<noteq> WatchPanicked" and "lock_ok s"
  shows "leads addr_watch_step s (\<lambda>t. aw_watcher t = aw_watcher s \<and> aw_d t = aw_d s \<and> aw_log t = aw_log s \<and>
    lock_ok t \<and> aw_readers t = 0)"
  using assms
proof (induction "aw_readers s" arbitrary: s)
  case 0
  then show ?case by (intro leads_now) simp
next
  case (Suc n)
  then have "card {i. reading (aw_get s i)} \<noteq> 0" by (simp add: lock_ok_def)
  then obtain i where i: "reading (aw_get s i)" by fastforce
  show ?case
  proof (rule leads_chain [OF leave_lock [OF Suc.prems(1) i Suc.prems(2)]])
    fix t
    assume t: "aw_watcher t = aw_watcher s \<and> aw_d t = aw_d s \<and> aw_log t = aw_log s \<and> lock_ok t \<and>
      aw_readers t = aw_readers s - 1"
    then show "leads addr_watch_step t (\<lambda>t. aw_watcher t = aw_watcher s \<and> aw_d t = aw_d s \<and>
        aw_log t = aw_log s \<and> lock_ok t \<and> aw_readers t = 0)"
      using Suc.hyps(1) [of t] Suc.hyps(2) Suc.prems(1) by simp
  qed
qed

section \<open>Properties\<close>

text \<open>
  C11: The interleaved steps implement the function of the events: whenever the watcher is back at its
  channel, name and address are what \<open>watchForUpdates\<close> makes of the events handled so far, and it panics
  only where that does; every call of \<open>Get\<close> returns the address after the events that had been handled
  when it took the lock, never one in the middle of an update; and nobody reads while the watcher writes.
\<close>

theorem addr_watch_refines:
  assumes "addr_watch_reachable d s"
  shows "(aw_watcher s = AtEvents \<longrightarrow> watch_for_updates (aw_log s) d = Ok (aw_d s))
    \<and> (aw_watcher s = WatchPanicked \<longrightarrow> watch_for_updates (aw_log s) d = Panic)
    \<and> (aw_get s i = GetReturned n a \<longrightarrow>
         n \<le> length (aw_log s) \<and> (\<exists>v. watch_for_updates (take n (aw_log s)) d = Ok v \<and> a = da_addr v))
    \<and> (writing (aw_watcher s) \<longrightarrow> \<not> reading (aw_get s i))"
proof -
  note inv = addr_watch_invariant [OF assms]
  have "get_ok d s (aw_get s i)" using inv by blast
  then have "aw_get s i = GetReturned n a \<longrightarrow> (\<exists>v. value_after d s n v \<and> a = da_addr v)"
    by (auto simp: get_ok_def)
  then show ?thesis
    using inv no_reader [of s i] by (auto simp: events_ok_def value_after_def)
qed

text \<open>
  Forwarders and watcher do not block each other for good: once a pod was chosen, whoever holds the
  read lock lets it go, and the steps of the program alone make that pod's name and address the current
  ones and lead the watcher back to its events.
\<close>

lemma addr_watch_updates:
  assumes "addr_watch_reachable d s" and "aw_watcher s = Chosen kind pod answers p"
  shows "leads addr_watch_step s (\<lambda>t. aw_watcher t = AtEvents \<and> aw_d t = \<lparr>da_podName = pod_Name p, da_addr = pod_addr p\<rparr>)"
proof (rule leads_chain [OF readers_leave])
  show "aw_watcher s \<noteq> WatchPanicked" using assms(2) by simp
  show "lock_ok s" using addr_watch_invariant [OF assms(1)] by blast
  fix t
  assume t: "aw_watcher t = aw_watcher s \<and> aw_d t = aw_d s \<and> aw_log t = aw_log s \<and> lock_ok t \<and> aw_readers t = 0"
  then have w: "aw_watcher t = Chosen kind pod answers p" "\<not> aw_writer t" "aw_readers t = 0"
    using assms(2) by (simp_all add: lock_ok_def)
  let ?t1 = "t\<lparr>aw_writer := True, aw_watcher := Locked kind pod answers p\<rparr>"
  let ?t2 = "?t1\<lparr>aw_d := (aw_d ?t1)\<lparr>da_podName := pod_Name p\<rparr>, aw_watcher := NameStored kind pod answers p\<rparr>"
  let ?t3 = "?t2\<lparr>aw_d := (aw_d ?t2)\<lparr>da_addr := pod_addr p\<rparr>, aw_watcher := AddrStored kind pod answers p\<rparr>"
  have 1: "addr_watch_step t ?t1" by (rule Lock [OF w])
  have 2: "addr_watch_step ?t1 ?t2" by (rule StoreName) simp
  have 3: "addr_watch_step ?t2 ?t3" by (rule StoreAddr) simp
  have w3: "aw_watcher ?t3 = AddrStored kind pod answers p" by simp
  show "leads addr_watch_step t (\<lambda>t. aw_watcher t = AtEvents \<and> aw_d t = \<lparr>da_podName = pod_Name p, da_addr = pod_addr p\<rparr>)"
    by (rule watch_then [OF 1], rule watch_then [OF 2], rule watch_then [OF 3], rule watch_then [OF Unlock [OF w3]],
        rule leads_now)
      (cases "aw_d t", simp)
qed


text \<open>
  The watcher of pod \<open>a\<close> is told that it is gone and finds \<open>b\<close>, while a call of \<open>Get\<close> holds the lock; the
  call returns the old address.
\<close>

definition example_chosen :: addr_watch where
  "example_chosen =
     (new_addr_watch (follow_pod (example_pod ''a'' 10 ''Running'' ''10.0.0.1'')))\<lparr>
       aw_readers := 1,
       aw_watcher := Chosen Deleted (example_pod ''a'' 10 ''Running'' ''10.0.0.1'') [Inr (''7'', example_pods)]
         (example_pod ''b'' 20 ''Running'' ''10.0.0.2''),
       aw_get := (\<lambda>_. GetCalled)(0 := GetLocked 0)\<rparr>"

lemma example_pods_chosen:
  "chosen_pod (Inr (''7'', example_pods)) = Some (example_pod ''b'' 20 ''Running'' ''10.0.0.2'')"
  by (simp add: chosen_pod_def example_pods_def sort_slice_def created_no_earlier_def)

lemma example_chosen_reachable:
  "addr_watch_reachable (follow_pod (example_pod ''a'' 10 ''Running'' ''10.0.0.1'')) example_chosen"
proof -
  let ?a = "example_pod ''a'' 10 ''Running'' ''10.0.0.1''"
  let ?start = "new_addr_watch (follow_pod ?a)"
  let ?s1 = "?start\<lparr>aw_readers := Suc (aw_readers ?start),
    aw_get := (aw_get ?start)(0 := GetLocked (length (aw_log ?start)))\<rparr>"
  let ?s2 = "?s1\<lparr>aw_watcher := Polling Deleted ?a []\<rparr>"
  let ?s3 = "?s2\<lparr>aw_watcher := Chosen Deleted ?a ([] @ [Inr (''7'', example_pods)])
    (example_pod ''b'' 20 ''Running'' ''10.0.0.2'')\<rparr>"
  have 1: "addr_watch_step ?start ?s1" by (rule RLock) (simp_all add: new_addr_watch_def)
  have 2: "addr_watch_step ?s1 ?s2"
    by (rule EventTaken) (simp_all add: new_addr_watch_def ignored_event_def follow_pod_def)
  have 3: "addr_watch_step ?s2 ?s3" by (rule ListChooses [OF _ example_pods_chosen]) simp
  have "addr_watch_reachable (follow_pod ?a) ?s3"
    by (rule addr_watch_goes_on [OF addr_watch_goes_on [OF addr_watch_goes_on [OF addr_watch_starts 1] 2] 3])
  also have "?s3 = example_chosen" by (simp add: example_chosen_def new_addr_watch_def)
  finally show ?thesis .
qed

definition example_got :: addr_watch where
  "example_got =
     example_chosen\<lparr>aw_readers := 0,
       aw_get := (\<lambda>_. GetCalled)(0 := GetReturned 0 (pod_addr (example_pod ''a'' 10 ''Running'' ''10.0.0.1'')))\<rparr>"

lemma example_got_reachable:
  "addr_watch_reachable (follow_pod (example_pod ''a'' 10 ''Running'' ''10.0.0.1'')) example_got"
proof -
  let ?s1 = "example_chosen\<lparr>aw_get := (aw_get example_chosen)(0 := GetRead 0 (da_addr (aw_d example_chosen)))\<rparr>"
  have 1: "addr_watch_step example_chosen ?s1" by (rule ReadAddr) (simp_all add: example_chosen_def)
  have 2: "addr_watch_step ?s1 example_got"
    using RUnlock [of ?s1 0 0 "da_addr (aw_d example_chosen)"]
    by (simp add: example_got_def example_chosen_def new_addr_watch_def follow_pod_def)
  show ?thesis by (rule addr_watch_goes_on [OF addr_watch_goes_on [OF example_chosen_reachable 1] 2])
qed

theorem addr_watch_refines_witness:
  "\<exists>v. watch_for_updates (take 0 (aw_log example_got)) (follow_pod (example_pod ''a'' 10 ''Running'' ''10.0.0.1'')) = Ok v
     \<and> da_addr v = pod_addr (example_pod ''a'' 10 ''Running'' ''10.0.0.1'')"
  using addr_watch_refines [OF example_got_reachable, of 0 0 "pod_addr (example_pod ''a'' 10 ''Running'' ''10.0.0.1'')"]
  by (auto simp: example_got_def)

end
