(* ===== verification/Buffers.thy ===== *)
theory Buffers
  imports Udp Pipes
begin

text \<open>
  The buffers the proxies copy through: \<open>newBufferPool\<close> in \<open>pkg/xnet/utils.go\<close> and the goroutines that
  take a buffer from \<open>tcpPool\<close> or \<open>udpPool\<close>, copy through it and put it back, \<open>tcpBroker\<close> in
  \<open>pkg/xnet/tcp.go\<close> and the two of \<open>ProxyUDP\<close> in \<open>pkg/xnet/udp.go\<close>. Buffers live in one memory that all
  goroutines share, a buffer comes back with what is still in it, and every single store and every
  partial write is a step, so nothing but the pool keeps the connections apart.
\<close>

section \<open>The pool\<close>

definition TCPBufferSize :: nat where "TCPBufferSize = 32768"

text \<open>The function \<open>New\<close> of \<open>newBufferPool\<close>.\<close>

definition new_buffer :: "nat \<Rightarrow> byte list" where
  "new_buffer size' = replicate size' 0"

text \<open>The three loops that copy through a pooled buffer.\<close>

datatype copier = TcpCopy | DownToUp | UpToDown

text \<open>
  What one round stores into the buffer, each piece with its offset: \<open>Read\<close> puts what it read to the
  front, \<open>(*UDPConn).Read\<close> the packet behind room for its length, and then the length.
\<close>

fun round_stores :: "copier \<Rightarrow> nat \<Rightarrow> byte list \<Rightarrow> (nat \<times> byte list) list" where
  "round_stores TcpCopy size' data = [(0, data)]"
| "round_stores DownToUp size' data = [(0, data)]"
| "round_stores UpToDown size' packet =
     (let bs = take (size' - 2) packet in [(2, bs), (0, put_uint16 (of_nat (length bs)))])"

text \<open>How much of the buffer the round writes out.\<close>

fun round_count :: "copier \<Rightarrow> nat \<Rightarrow> byte list \<Rightarrow> nat" where
  "round_count TcpCopy size' data = length data"
| "round_count DownToUp size' data = length data"
| "round_count UpToDown size' packet = length (take (size' - 2) packet) + 2"

text \<open>What it reads fits: \<open>Read\<close> is given the buffer, the length of a frame is 16 bits.\<close>

fun round_fits :: "copier \<Rightarrow> nat \<Rightarrow> byte list \<Rightarrow> bool" where
  "round_fits TcpCopy size' data \<longleftrightarrow> length data \<le> size'"
| "round_fits DownToUp size' data \<longleftrightarrow> length data < 65536 \<and> length data \<le> size'"
| "round_fits UpToDown size' packet \<longleftrightarrow> True"

definition store_at :: "nat \<Rightarrow> byte list \<Rightarrow> byte list \<Rightarrow> byte list" where
  "store_at off d buf = take off buf @ copy_slice (drop off buf) d"

fun store_all :: "(nat \<times> byte list) list \<Rightarrow> byte list \<Rightarrow> byte list" where
  "store_all [] buf = buf"
| "store_all ((off, d) # ss) buf = store_all ss (store_at off d buf)"

text \<open>
  Where a goroutine is: before \<open>Get\<close>; at the top of its loop, with its buffer; in a read, with the
  stores to come and the number of bytes to write; in a write, with the bytes written of those to
  write; or past \<open>Put\<close>.
\<close>

datatype copier_pc =
    BeforeGet
  | Holding nat
  | Storing nat "(nat \<times> byte list) list" nat
  | Writing nat nat nat
  | AfterPut

text \<open>
  The memory, the address of the next buffer to be made, the buffers in the pool, the goroutines, and
  what each has written. \<open>bf_sent\<close>, what its rounds were to write, is for the statements only.
\<close>

record buffers =
  bf_mem :: "nat \<Rightarrow> byte list"
  bf_next :: nat
  bf_free :: "nat set"
  bf_pc :: "nat \<Rightarrow> copier_pc"
  bf_out :: "nat \<Rightarrow> byte list"
  bf_sent :: "nat \<Rightarrow> byte list"

definition new_buffers :: "(nat \<Rightarrow> byte list) \<Rightarrow> buffers" where
  "new_buffers mem =
     \<lparr>bf_mem = mem, bf_next = 0, bf_free = {}, bf_pc = (\<lambda>_. BeforeGet), bf_out = (\<lambda>_. []), bf_sent = (\<lambda>_. [])\<rparr>"

text \<open>What the round of a copier has to write.\<close>

fun round_bytes :: "copier \<Rightarrow> nat \<Rightarrow> byte list \<Rightarrow> byte list" where
  "round_bytes TcpCopy size' data = data"
| "round_bytes DownToUp size' data = data"
| "round_bytes UpToDown size' packet = udp_frame (take (size' - 2) packet)"

text \<open>
  \<open>Get\<close> makes a buffer when it finds none, and a pool may lose buffers to the garbage collector.
  \<open>io.CopyBuffer\<close> need not use the buffer it is given: two connections of the right types are copied
  directly, and the broker only holds the buffer. A read that fails, or times out in the middle, has
  stored something, and nothing of it is written.
\<close>

inductive buffers_step :: "nat \<Rightarrow> (nat \<Rightarrow> copier) \<Rightarrow> buffers \<Rightarrow> buffers \<Rightarrow> bool" for size' kind where
  GetPooled: "bf_pc b i = BeforeGet \<Longrightarrow> a \<in> bf_free b \<Longrightarrow>
    buffers_step size' kind b (b\<lparr>bf_free := bf_free b - {a}, bf_pc := (bf_pc b)(i := Holding a)\<rparr>)"
| GetNew: "bf_pc b i = BeforeGet \<Longrightarrow>
    buffers_step size' kind b
      (b\<lparr>bf_mem := (bf_mem b)(bf_next b := new_buffer size'), bf_next := Suc (bf_next b),
         bf_pc := (bf_pc b)(i := Holding (bf_next b))\<rparr>)"
| Collect: "buffers_step size' kind b (b\<lparr>bf_free := bf_free b - {a}\<rparr>)"
| CopyDirect: "bf_pc b i = Holding a \<Longrightarrow> kind i = TcpCopy \<Longrightarrow>
    buffers_step size' kind b
      (b\<lparr>bf_out := (bf_out b)(i := bf_out b i @ data), bf_sent := (bf_sent b)(i := bf_sent b i @ data)\<rparr>)"
| ReadFails: "bf_pc b i = Holding a \<Longrightarrow>
    buffers_step size' kind b (b\<lparr>bf_mem := (bf_mem b)(a := store_at off d (bf_mem b a))\<rparr>)"
| ReadBegins: "bf_pc b i = Holding a \<Longrightarrow> round_fits (kind i) size' data \<Longrightarrow>
    buffers_step size' kind b
      (b\<lparr>bf_pc := (bf_pc b)(i := Storing a (round_stores (kind i) size' data) (round_count (kind i) size' data)),
         bf_sent := (bf_sent b)(i := bf_sent b i @ round_bytes (kind i) size' data)\<rparr>)"
| Store: "bf_pc b i = Storing a ((off, d) # ss) n \<Longrightarrow>
    buffers_step size' kind b
      (b\<lparr>bf_mem := (bf_mem b)(a := store_at off d (bf_mem b a)), bf_pc := (bf_pc b)(i := Storing a ss n)\<rparr>)"
| ReadEnds: "bf_pc b i = Storing a [] n \<Longrightarrow>
    buffers_step size' kind b (b\<lparr>bf_pc := (bf_pc b)(i := Writing a 0 n)\<rparr>)"
| WritePart: "bf_pc b i = Writing a k n \<Longrightarrow> k \<le> m \<Longrightarrow> m \<le> n \<Longrightarrow>
    buffers_step size' kind b
      (b\<lparr>bf_out := (bf_out b)(i := bf_out b i @ drop k (take m (bf_mem b a))),
         bf_pc := (bf_pc b)(i := Writing a m n)\<rparr>)"
| WriteEnds: "bf_pc b i = Writing a n n \<Longrightarrow>
    buffers_step size' kind b (b\<lparr>bf_pc := (bf_pc b)(i := Holding a)\<rparr>)"
| Put: "bf_pc b i = Holding a \<or> bf_pc b i = Writing a k n \<Longrightarrow>
    buffers_step size' kind b
      (b\<lparr>bf_free := insert a (bf_free b), bf_pc := (bf_pc b)(i := AfterPut)\<rparr>)"

inductive_cases buffers_stepE: "buffers_step size' kind b c"

definition buffers_reachable :: "nat \<Rightarrow> (nat \<Rightarrow> copier) \<Rightarrow> (nat \<Rightarrow> byte list) \<Rightarrow> buffers \<Rightarrow> bool" where
  "buffers_reachable size' kind mem = (buffers_step size' kind)\<^sup>*\<^sup>* (new_buffers mem)"

section \<open>The stores of a round\<close>

lemma length_store_at [simp]: "length (store_at off d buf) = length buf"
  by (simp add: store_at_def)

lemma length_store_all [simp]: "length (store_all ss buf) = length buf"
  by (induction ss buf rule: store_all.induct) auto

text \<open>Whatever the buffer held before, what the round writes is what it read.\<close>

lemma round_stores_written:
  assumes "round_fits k size' data" and "length buf = size'" and "2 \<le> size'"
  shows "take (round_count k size' data) (store_all (round_stores k size' data) buf) = round_bytes k size' data"
    and "round_count k size' data \<le> size'"
proof -
  show "round_count k size' data \<le> size'" using assms by (cases k) auto
  show "take (round_count k size' data) (store_all (round_stores k size' data) buf) = round_bytes k size' data"
  proof (cases k)
    case UpToDown
    then show ?thesis
      using assms(2,3) by (simp add: Let_def store_at_def copy_slice_def udp_frame_def put_uint16_def numeral_2_eq_2 min_def)
  qed (use assms in \<open>auto simp: store_at_def copy_slice_def\<close>)
qed

text \<open>The stores of \<open>(*UDPConn).Read\<close> are those of its model.\<close>

lemma round_stores_udp_conn_read:
  assumes "2 \<le> length buf"
  shows "udp_conn_read buf packet e =
    (store_all (round_stores UpToDown (length buf) packet) buf, round_count UpToDown (length buf) packet, e)"
  using assms
  by (simp add: udp_conn_read_def Let_def store_at_def copy_slice_def put_uint16_def numeral_2_eq_2)


section \<open>Ownership\<close>

text \<open>The buffer a goroutine has, and what is written with what is still to be written of its rounds.\<close>

fun held_buffer :: "copier_pc \<Rightarrow> nat option" where
  "held_buffer BeforeGet = None"
| "held_buffer (Holding a) = Some a"
| "held_buffer (Storing a ss n) = Some a"
| "held_buffer (Writing a k n) = Some a"
| "held_buffer AfterPut = None"

definition owners_ok :: "buffers \<Rightarrow> bool" where
  "owners_ok b \<longleftrightarrow>
     (\<forall>i j a. held_buffer (bf_pc b i) = Some a \<and> held_buffer (bf_pc b j) = Some a \<longrightarrow> i = j) \<and>
     (\<forall>i a. held_buffer (bf_pc b i) = Some a \<longrightarrow> a \<notin> bf_free b \<and> a < bf_next b) \<and>
     (\<forall>a \<in> bf_free b. a < bf_next b)"

definition sizes_ok :: "nat \<Rightarrow> buffers \<Rightarrow> bool" where
  "sizes_ok size' b \<longleftrightarrow> (\<forall>a < bf_next b. length (bf_mem b a) = size')"

fun content_ok :: "nat \<Rightarrow> (nat \<Rightarrow> byte list) \<Rightarrow> byte list \<Rightarrow> byte list \<Rightarrow> copier_pc \<Rightarrow> bool" where
  "content_ok size' mem out sent BeforeGet \<longleftrightarrow> out = [] \<and> sent = []"
| "content_ok size' mem out sent (Holding a) \<longleftrightarrow> out = sent"
| "content_ok size' mem out sent (Storing a ss n) \<longleftrightarrow> n \<le> size' \<and> out @ take n (store_all ss (mem a)) = sent"
| "content_ok size' mem out sent (Writing a k n) \<longleftrightarrow>
     k \<le> n \<and> n \<le> size' \<and> out @ drop k (take n (mem a)) = sent"
| "content_ok size' mem out sent AfterPut \<longleftrightarrow> prefix out sent"

definition contents_ok :: "nat \<Rightarrow> buffers \<Rightarrow> bool" where
  "contents_ok size' b \<longleftrightarrow> (\<forall>i. content_ok size' (bf_mem b) (bf_out b i) (bf_sent b i) (bf_pc b i))"

lemma owners_same:
  assumes "owners_ok b" and "bf_free c = bf_free b" and "bf_next c = bf_next b"
    and "\<And>j. held_buffer (bf_pc c j) = held_buffer (bf_pc b j)"
  shows "owners_ok c"
  using assms(1) by (simp add: owners_ok_def assms(2-4))

lemma owners_step:
  assumes "buffers_step size' kind b c" and "owners_ok b"
  shows "owners_ok c"
  using assms(1)
proof (cases rule: buffers_step.cases)
  case (GetPooled i a)
  with assms(2) show ?thesis by (fastforce simp: owners_ok_def)
next
  case (GetNew i)
  with assms(2) show ?thesis by (fastforce simp: owners_ok_def less_Suc_eq)
next
  case (Collect a)
  with assms(2) show ?thesis by (auto simp: owners_ok_def)
next
  case (Put i a k n)
  then have held: "held_buffer (bf_pc b i) = Some a" by auto
  then have "held_buffer (bf_pc b j) \<noteq> Some a" if "j \<noteq> i" for j
    using assms(2) that unfolding owners_ok_def by blast
  with Put(1) held assms(2) show ?thesis by (auto simp: owners_ok_def)
qed (use assms(2) in \<open>auto elim!: owners_same\<close>)

lemma sizes_step: "buffers_step size' kind b c \<Longrightarrow> owners_ok b \<Longrightarrow> sizes_ok size' b \<Longrightarrow> sizes_ok size' c"
  by (erule buffers_stepE) (auto simp: sizes_ok_def owners_ok_def less_Suc_eq new_buffer_def)

text \<open>A store to a buffer is seen by nobody else.\<close>

lemma content_at:
  "contents_ok size' b \<Longrightarrow> content_ok size' (bf_mem b) (bf_out b i) (bf_sent b i) (bf_pc b i)"
  by (simp add: contents_ok_def)

lemma content_prefix: "content_ok size' mem out sent pc \<Longrightarrow> prefix out sent"
  by (cases pc) (use prefixI in force)+

lemma content_other:
  assumes "held_buffer pc \<noteq> Some a"
  shows "content_ok size' (mem(a := x)) out sent pc = content_ok size' mem out sent pc"
  using assms by (cases pc) auto

lemma drop_take_split:
  assumes "k \<le> m" and "m \<le> n"
  shows "drop k (take m xs) @ drop m (take n xs) = drop k (take n xs)"
proof -
  have "take n xs = take m xs @ drop m (take n xs)"
    using assms(2) by (metis append_take_drop_id min.absorb1 take_take)
  moreover have "k - length (take m xs) = 0 \<or> drop m (take n xs) = []" using assms(1) by auto
  ultimately show ?thesis by (metis append.right_neutral append_Nil2 drop_0 drop_append drop_Nil)
qed

lemma others_buffers:
  "owners_ok b \<Longrightarrow> held_buffer (bf_pc b i) = Some a \<Longrightarrow> j \<noteq> i \<Longrightarrow> held_buffer (bf_pc b j) \<noteq> Some a"
  unfolding owners_ok_def by blast

text \<open>A step of one goroutine, and one that stores to the buffer it has.\<close>

lemma contents_one:
  assumes "contents_ok size' b" and "\<And>j. j \<noteq> i \<Longrightarrow> bf_pc c j = bf_pc b j \<and> bf_out c j = bf_out b j \<and> bf_sent c j = bf_sent b j"
    and "bf_mem c = bf_mem b \<or>
      (\<exists>a x. bf_mem c = (bf_mem b)(a := x) \<and> (\<forall>j. j \<noteq> i \<longrightarrow> held_buffer (bf_pc b j) \<noteq> Some a))"
    and "content_ok size' (bf_mem c) (bf_out c i) (bf_sent c i) (bf_pc c i)"
  shows "contents_ok size' c"
proof -
  have "content_ok size' (bf_mem c) (bf_out c j) (bf_sent c j) (bf_pc c j)" if "j \<noteq> i" for j
    using assms(3) assms(2) [OF that] content_at [OF assms(1), of j] content_other [of "bf_pc b j"] that by auto
  with assms(4) show ?thesis unfolding contents_ok_def by metis
qed

lemma contents_step:
  assumes "buffers_step size' kind b c" and "2 \<le> size'" and "owners_ok b" and "sizes_ok size' b" and "contents_ok size' b"
  shows "contents_ok size' c"
  using assms(1)
proof (cases rule: buffers_step.cases)
  case (GetPooled i a)
  then show ?thesis
    using content_at [OF assms(5), of i] by (intro contents_one [OF assms(5), of i]) auto
next
  case (GetNew i)
  have "held_buffer (bf_pc b j) \<noteq> Some (bf_next b)" for j
    using assms(3) by (auto simp: owners_ok_def)
  with GetNew show ?thesis
    using content_at [OF assms(5), of i] by (intro contents_one [OF assms(5), of i]) auto
next
  case (Collect a)
  with assms(5) show ?thesis by (simp add: contents_ok_def)
next
  case (CopyDirect i a data)
  then show ?thesis
    using content_at [OF assms(5), of i] by (intro contents_one [OF assms(5), of i]) auto
next
  case (ReadFails i a off d)
  then have "held_buffer (bf_pc b j) \<noteq> Some a" if "j \<noteq> i" for j
    using others_buffers [OF assms(3), of i a j] that by simp
  then show ?thesis
    using ReadFails content_at [OF assms(5), of i] by (intro contents_one [OF assms(5), of i]) auto
next
  case (ReadBegins i a data)
  then have "held_buffer (bf_pc b i) = Some a" by simp
  then have "a < bf_next b" using assms(3) unfolding owners_ok_def by blast
  then have "length (bf_mem b a) = size'" using assms(4) by (simp add: sizes_ok_def)
  from round_stores_written [OF ReadBegins(3) this assms(2)] show ?thesis
    using ReadBegins content_at [OF assms(5), of i] by (intro contents_one [OF assms(5), of i]) auto
next
  case (Store i a off d ss n)
  then have "held_buffer (bf_pc b j) \<noteq> Some a" if "j \<noteq> i" for j
    using others_buffers [OF assms(3), of i a j] that by simp
  then show ?thesis
    using Store content_at [OF assms(5), of i] by (intro contents_one [OF assms(5), of i]) auto
next
  case (ReadEnds i a n)
  then show ?thesis
    using content_at [OF assms(5), of i] by (intro contents_one [OF assms(5), of i]) auto
next
  case (WritePart i a k n m)
  then show ?thesis
    using drop_take_split [of k m n "bf_mem b a"] content_at [OF assms(5), of i]
    by (intro contents_one [OF assms(5), of i]) auto
next
  case (WriteEnds i a n)
  then show ?thesis
    using content_at [OF assms(5), of i] by (intro contents_one [OF assms(5), of i]) auto
next
  case (Put i a k n)
  then show ?thesis
    using content_prefix [OF content_at [OF assms(5), of i]] by (intro contents_one [OF assms(5), of i]) auto
qed

lemma buffers_invariant:
  assumes "buffers_reachable size' kind mem b" and "2 \<le> size'"
  shows "owners_ok b \<and> sizes_ok size' b \<and> contents_ok size' b"
proof (rule steps_invariant [OF assms(1) [unfolded buffers_reachable_def]])
  show "owners_ok (new_buffers mem) \<and> sizes_ok size' (new_buffers mem) \<and> contents_ok size' (new_buffers mem)"
    by (simp add: owners_ok_def sizes_ok_def contents_ok_def new_buffers_def)
qed (use assms(2) owners_step sizes_step contents_step in blast)

section \<open>Properties\<close>

text \<open>
  C12: The pool keeps connections apart. However the goroutines of any number of proxies interleave, and
  whatever the buffers held before, no two have the same buffer, none has one that is in the pool, every
  buffer has its full size, and what a goroutine has written is a front of what its own rounds read
  (framed with its length, from the upstream socket), all of it between two rounds: nothing another
  connection has left in a buffer or stores meanwhile gets into it.
\<close>

theorem buffers_keep_apart:
  assumes "buffers_reachable size' kind mem b" and "2 \<le> size'"
  shows "(held_buffer (bf_pc b i) = Some a \<longrightarrow>
       a \<notin> bf_free b \<and> length (bf_mem b a) = size' \<and>
       (\<forall>j. held_buffer (bf_pc b j) = Some a \<longrightarrow> j = i))
     \<and> prefix (bf_out b i) (bf_sent b i)
     \<and> (bf_pc b i = Holding a \<longrightarrow> bf_out b i = bf_sent b i)"
proof -
  note inv = buffers_invariant [OF assms]
  have "content_ok size' (bf_mem b) (bf_out b i) (bf_sent b i) (bf_pc b i)"
    using inv by (simp add: contents_ok_def)
  then have "prefix (bf_out b i) (bf_sent b i) \<and> (bf_pc b i = Holding a \<longrightarrow> bf_out b i = bf_sent b i)"
    using content_prefix by auto
  moreover have "a \<notin> bf_free b \<and> length (bf_mem b a) = size' \<and>
      (\<forall>j. held_buffer (bf_pc b j) = Some a \<longrightarrow> j = i)" if "held_buffer (bf_pc b i) = Some a"
    using inv that unfolding owners_ok_def sizes_ok_def by blast
  ultimately show ?thesis by blast
qed

text \<open>Two brokers of one pool, where the second has the buffer of the first with its bytes.\<close>

abbreviation example_buffers :: "(nat \<Rightarrow> byte list) \<Rightarrow> nat set \<Rightarrow> copier_pc \<Rightarrow> copier_pc \<Rightarrow>
    byte list \<Rightarrow> byte list \<Rightarrow> byte list \<Rightarrow> byte list \<Rightarrow> buffers" where
  "example_buffers mem free pc0 pc1 out0 out1 sent0 sent1 \<equiv>
     \<lparr>bf_mem = mem, bf_next = 1, bf_free = free, bf_pc = (\<lambda>_. BeforeGet)(0 := pc0, 1 := pc1),
      bf_out = (\<lambda>_. [])(0 := out0, 1 := out1), bf_sent = (\<lambda>_. [])(0 := sent0, 1 := sent1)\<rparr>"

definition example_reuse :: buffers where
  "example_reuse =
     example_buffers ((\<lambda>_. [])(0 := [72, 73, 0, 0])) {} AfterPut (Writing 0 1 1) [71, 73] [72] [71, 73] [72]"

lemma buffers_then:
  "buffers_step size' kind b c \<Longrightarrow> (buffers_step size' kind)\<^sup>*\<^sup>* c d \<Longrightarrow> (buffers_step size' kind)\<^sup>*\<^sup>* b d"
  by (rule converse_rtranclp_into_rtranclp)

lemma example_reuse_reachable: "buffers_reachable 4 (\<lambda>_. TcpCopy) (\<lambda>_. []) example_reuse"
proof -
  let ?k = "\<lambda>_. TcpCopy" let ?step = "buffers_step 4 ?k"
  let ?m = "\<lambda>bs. (\<lambda>_. [])(0 := bs)"
  let ?s = "new_buffers (\<lambda>_. [])" let ?c = "example_buffers (?m [0, 0, 0, 0]) {} (Holding 0) BeforeGet [] [] [] []"
  let ?b = "\<lambda>bs pc out. example_buffers (?m bs) {} pc BeforeGet out [] [71, 73] []"
  let ?p = "example_buffers (?m [71, 73, 0, 0]) {0} AfterPut BeforeGet [71, 73] [] [71, 73] []"
  let ?d = "\<lambda>bs pc out sent. example_buffers (?m bs) {} AfterPut pc [71, 73] out [71, 73] sent"
  note defs = new_buffers_def new_buffer_def store_at_def copy_slice_def numeral_2_eq_2 numeral_nat fun_upd_twist fun_upd_idem
  have 1: "?step ?s ?c"
    using GetNew [of ?s 0 4 ?k] by (simp add: defs)
  have 2: "?step ?c (?b [0, 0, 0, 0] (Storing 0 [(0, [71, 73])] 2) [])"
    using ReadBegins [of ?c 0 0 ?k 4 "[71, 73]"] by (simp add: defs)
  have 3: "?step (?b [0, 0, 0, 0] (Storing 0 [(0, [71, 73])] 2) []) (?b [71, 73, 0, 0] (Storing 0 [] 2) [])"
    using Store [of "?b [0, 0, 0, 0] (Storing 0 [(0, [71, 73])] 2) []" 0 0 0 "[71, 73]" "[]" 2 4 ?k] by (simp add: defs)
  have 4: "?step (?b [71, 73, 0, 0] (Storing 0 [] 2) []) (?b [71, 73, 0, 0] (Writing 0 0 2) [])"
    using ReadEnds [of "?b [71, 73, 0, 0] (Storing 0 [] 2) []" 0 0 2 4 ?k] by (simp add: defs)
  have 5: "?step (?b [71, 73, 0, 0] (Writing 0 0 2) []) (?b [71, 73, 0, 0] (Writing 0 2 2) [71, 73])"
    using WritePart [of "?b [71, 73, 0, 0] (Writing 0 0 2) []" 0 0 0 2 2 4 ?k] by (simp add: defs)
  have 6: "?step (?b [71, 73, 0, 0] (Writing 0 2 2) [71, 73]) ?p"
    using Put [of "?b [71, 73, 0, 0] (Writing 0 2 2) [71, 73]" 0 0 2 2 4 ?k] by (simp add: defs)
  have 7: "?step ?p (?d [71, 73, 0, 0] (Holding 0) [] [])"
    using GetPooled [of ?p 1 0 4 ?k] by (simp add: defs)
  have 8: "?step (?d [71, 73, 0, 0] (Holding 0) [] []) (?d [71, 73, 0, 0] (Storing 0 [(0, [72])] 1) [] [72])"
    using ReadBegins [of "?d [71, 73, 0, 0] (Holding 0) [] []" 1 0 ?k 4 "[72]"] by (simp add: defs)
  have 9: "?step (?d [71, 73, 0, 0] (Storing 0 [(0, [72])] 1) [] [72]) (?d [72, 73, 0, 0] (Storing 0 [] 1) [] [72])"
    using Store [of "?d [71, 73, 0, 0] (Storing 0 [(0, [72])] 1) [] [72]" 1 0 0 "[72]" "[]" 1 4 ?k] by (simp add: defs)
  have 10: "?step (?d [72, 73, 0, 0] (Storing 0 [] 1) [] [72]) (?d [72, 73, 0, 0] (Writing 0 0 1) [] [72])"
    using ReadEnds [of "?d [72, 73, 0, 0] (Storing 0 [] 1) [] [72]" 1 0 1 4 ?k] by (simp add: defs)
  have 11: "?step (?d [72, 73, 0, 0] (Writing 0 0 1) [] [72]) example_reuse"
    using WritePart [of "?d [72, 73, 0, 0] (Writing 0 0 1) [] [72]" 1 0 0 1 1 4 ?k]
    by (simp add: example_reuse_def defs)
  show ?thesis
    unfolding buffers_reachable_def
    by (rule buffers_then [OF 1 buffers_then [OF 2 buffers_then [OF 3 buffers_then [OF 4 buffers_then [OF 5
        buffers_then [OF 6 buffers_then [OF 7 buffers_then [OF 8 buffers_then [OF 9 buffers_then [OF 10
        buffers_then [OF 11 rtranclp.rtrancl_refl]]]]]]]]]]])
qed

theorem buffers_keep_apart_witness:
  "0 \<notin> bf_free example_reuse \<and> held_buffer (bf_pc example_reuse 0) \<noteq> Some 0 \<and>
   prefix (bf_out example_reuse 1) (bf_sent example_reuse 1)"
proof -
  have "(2::nat) \<le> 4" by simp
  moreover have "held_buffer (bf_pc example_reuse 1) = Some 0" by (simp add: example_reuse_def)
  moreover have "(0::nat) \<noteq> 1" by simp
  ultimately show ?thesis using buffers_keep_apart [OF example_reuse_reachable, of 1 0] by blast
qed

end
