(* ===== verification/Proxy.thy ===== *)
theory Proxy
  imports Pipes
begin

text \<open>
  \<open>ProxyTCP\<close> and \<open>tcpBroker\<close>, \<open>pkg/xnet/tcp.go\<close>: two goroutines copy, one per direction, and the main
  one waits for the first of them to end, shuts the reading side of the other's source and waits for the
  other. They are a step relation; the peers send, close and fail at any time.
\<close>

section \<open>Connections and brokers\<close>

datatype side = Down | Up

fun other :: "side \<Rightarrow> side" where
  "other Down = Up"
| "other Up = Down"

lemma other_simps [simp]: "other (other s) = s" "other s \<noteq> s" "s \<noteq> other s"
  by (cases s; simp)+

text \<open>
  One of the two connections: the bytes that have arrived and were not read; whether its peer has
  closed; whether \<open>CloseRead\<close> and \<open>Close\<close> were called; the bytes written to it. \<open>tc_sent\<close>, all the bytes
  its peer has sent, is for the statements only.
\<close>

record tcp_conn =
  tc_in :: "byte list"
  tc_eof :: bool
  tc_readShut :: bool
  tc_closed :: bool
  tc_out :: "byte list"
  tc_sent :: "byte list"

text \<open>
  A broker: in \<open>io.CopyBuffer\<close>; past it, with the channel closed and its source still open, and whether
  it saw the end of its source; or finished, with its source closed.
\<close>

datatype broker = Copying | Copied bool | BrokerDone bool

text \<open>The main goroutine: at the select; waiting for the broker of a side; or returned.\<close>

datatype proxy_main = Selecting | WaitFor side | ProxyReturned

record tcp_proxy =
  tp_conn :: "side \<Rightarrow> tcp_conn"
  tp_broker :: "side \<Rightarrow> broker"
  tp_main :: proxy_main

definition new_tcp_conn :: "byte list \<Rightarrow> tcp_conn" where
  "new_tcp_conn bs =
     \<lparr>tc_in = bs, tc_eof = False, tc_readShut = False, tc_closed = False, tc_out = [], tc_sent = bs\<rparr>"

definition new_tcp_proxy :: "byte list \<Rightarrow> tcp_proxy" where
  "new_tcp_proxy early =
     \<lparr>tp_conn = (\<lambda>s. new_tcp_conn (if s = Down then early else [])), tp_broker = (\<lambda>_. Copying),
      tp_main = Selecting\<rparr>"

definition upd_conn :: "side \<Rightarrow> (tcp_conn \<Rightarrow> tcp_conn) \<Rightarrow> tcp_proxy \<Rightarrow> tcp_proxy" where
  "upd_conn s f p = p\<lparr>tp_conn := (tp_conn p)(s := f (tp_conn p s))\<rparr>"

definition set_broker :: "side \<Rightarrow> broker \<Rightarrow> tcp_proxy \<Rightarrow> tcp_proxy" where
  "set_broker s b p = p\<lparr>tp_broker := (tp_broker p)(s := b)\<rparr>"

text \<open>
  The flag of a step says that it is the program's own, and not one of the peers or the network. The
  broker of a side copies from that side to the other. Reading a connection whose reading side was shut
  may still give bytes that have arrived.
\<close>

inductive proxy_step :: "bool \<Rightarrow> tcp_proxy \<Rightarrow> tcp_proxy \<Rightarrow> bool" where
  Arrive: "\<not> tc_eof (tp_conn p s) \<Longrightarrow>
    proxy_step False p (upd_conn s (\<lambda>c. c\<lparr>tc_in := tc_in c @ bs, tc_sent := tc_sent c @ bs\<rparr>) p)"
| PeerCloses: "proxy_step False p (upd_conn s (\<lambda>c. c\<lparr>tc_eof := True\<rparr>) p)"
| Copy: "tp_broker p s = Copying \<Longrightarrow> tc_in (tp_conn p s) = bs @ rest \<Longrightarrow> bs \<noteq> [] \<Longrightarrow>
    \<not> tc_closed (tp_conn p s) \<Longrightarrow> \<not> tc_closed (tp_conn p (other s)) \<Longrightarrow>
    proxy_step True p (upd_conn (other s) (\<lambda>c. c\<lparr>tc_out := tc_out c @ bs\<rparr>)
      (upd_conn s (\<lambda>c. c\<lparr>tc_in := rest\<rparr>) p))"
| CopyEnds: "tp_broker p s = Copying \<Longrightarrow> tc_in (tp_conn p s) = [] \<Longrightarrow> tc_eof (tp_conn p s) \<Longrightarrow>
    proxy_step True p (set_broker s (Copied True) p)"
| CopyShut: "tp_broker p s = Copying \<Longrightarrow> tc_readShut (tp_conn p s) \<Longrightarrow>
    proxy_step True p (set_broker s (Copied False) p)"
| CopyFails: "tp_broker p s = Copying \<Longrightarrow> proxy_step False p (set_broker s (Copied False) p)"
| CloseSource: "tp_broker p s = Copied clean \<Longrightarrow>
    proxy_step True p (set_broker s (BrokerDone clean) (upd_conn s (\<lambda>c. c\<lparr>tc_closed := True\<rparr>) p))"
| Select: "tp_main p = Selecting \<Longrightarrow> tp_broker p s \<noteq> Copying \<Longrightarrow>
    proxy_step True p ((upd_conn (other s) (\<lambda>c. c\<lparr>tc_readShut := True\<rparr>) p)\<lparr>tp_main := WaitFor (other s)\<rparr>)"
| Return: "tp_main p = WaitFor s \<Longrightarrow> tp_broker p s \<noteq> Copying \<Longrightarrow>
    proxy_step True p (p\<lparr>tp_main := ProxyReturned\<rparr>)"

inductive_cases proxy_stepE: "proxy_step own p q"

inductive proxy_reachable :: "byte list \<Rightarrow> tcp_proxy \<Rightarrow> bool" for early where
  proxy_starts: "proxy_reachable early (new_tcp_proxy early)"
| proxy_goes_on: "proxy_reachable early p \<Longrightarrow> proxy_step own p q \<Longrightarrow> proxy_reachable early q"

section \<open>Invariants\<close>

text \<open>What is written to the other side, followed by what is still to be read, is what was sent.\<close>

definition bytes_ok :: "tcp_proxy \<Rightarrow> bool" where
  "bytes_ok p \<longleftrightarrow>
     (\<forall>s. tc_sent (tp_conn p s) = tc_out (tp_conn p (other s)) @ tc_in (tp_conn p s)) \<and>
     (\<forall>s. tp_broker p s = Copied True \<or> tp_broker p s = BrokerDone True \<longrightarrow>
        tc_in (tp_conn p s) = [] \<and> tc_eof (tp_conn p s))"

definition main_ok :: "tcp_proxy \<Rightarrow> bool" where
  "main_ok p \<longleftrightarrow>
     (case tp_main p of
        Selecting \<Rightarrow> True
      | WaitFor s \<Rightarrow> tp_broker p (other s) \<noteq> Copying \<and> tc_readShut (tp_conn p s)
      | ProxyReturned \<Rightarrow> \<forall>s. tp_broker p s \<noteq> Copying)"

lemma upd_conn_simps [simp]:
  "tp_conn (upd_conn s f p) = (tp_conn p)(s := f (tp_conn p s))"
  "tp_broker (upd_conn s f p) = tp_broker p" "tp_main (upd_conn s f p) = tp_main p"
  "tp_conn (set_broker s b p) = tp_conn p" "tp_broker (set_broker s b p) = (tp_broker p)(s := b)"
  "tp_main (set_broker s b p) = tp_main p"
  by (simp_all add: upd_conn_def set_broker_def)

lemma all_sides: "(\<forall>s. P s) \<longleftrightarrow> P Down \<and> P Up"
  by (metis side.exhaust)

lemma bytes_step:
  assumes "proxy_step own p q" and "bytes_ok p"
  shows "bytes_ok q"
  using assms
proof (cases rule: proxy_step.cases)
  case (Arrive s bs)
  with assms(2) show ?thesis by (cases s) (auto simp: bytes_ok_def all_sides)
next
  case (PeerCloses s)
  with assms(2) show ?thesis by (cases s) (auto simp: bytes_ok_def all_sides)
next
  case (Copy s bs rest)
  with assms(2) show ?thesis by (cases s) (auto simp: bytes_ok_def all_sides)
next
  case (Select s)
  with assms(2) show ?thesis by (cases s) (auto simp: bytes_ok_def all_sides)
qed (use assms(2) in \<open>auto simp: bytes_ok_def\<close>)

lemma main_step:
  assumes "proxy_step own p q" and "main_ok p"
  shows "main_ok q"
  using assms
proof (cases rule: proxy_step.cases)
  case (Return s)
  with assms(2) show ?thesis by (cases s) (auto simp: main_ok_def all_sides)
qed (use assms(2) in \<open>auto simp: main_ok_def split: proxy_main.splits\<close>)

lemma proxy_invariant: "proxy_reachable early p \<Longrightarrow> bytes_ok p \<and> main_ok p"
proof (induction rule: proxy_reachable.induct)
  case proxy_starts
  show ?case by (auto simp: bytes_ok_def main_ok_def new_tcp_proxy_def new_tcp_conn_def all_sides)
next
  case (proxy_goes_on p own q)
  then show ?case using bytes_step main_step by blast
qed

text \<open>Each direction of the proxy is a pipe.\<close>

interpretation proxy_pipe: pipe "proxy_reachable early" "\<lambda>p. tc_sent (tp_conn p s)"
    "\<lambda>p. tc_out (tp_conn p (other s))" "\<lambda>p. tc_in (tp_conn p s)"
  for early s
  using proxy_invariant by unfold_locales (auto simp: bytes_ok_def)

section \<open>Coming to an end\<close>

definition finished :: "tcp_proxy \<Rightarrow> side \<Rightarrow> bool" where
  "finished p s \<longleftrightarrow> (\<exists>clean. tp_broker p s = BrokerDone clean) \<and> tc_closed (tp_conn p s)"

text \<open>Brokers that are done have closed their source.\<close>

definition closed_ok :: "tcp_proxy \<Rightarrow> bool" where
  "closed_ok p \<longleftrightarrow> (\<forall>s clean. tp_broker p s = BrokerDone clean \<longrightarrow> tc_closed (tp_conn p s))"

lemma closed_step: "proxy_step own p q \<Longrightarrow> closed_ok p \<Longrightarrow> closed_ok q"
  by (erule proxy_stepE) (auto simp: closed_ok_def)

lemma closed_reachable: "proxy_reachable early p \<Longrightarrow> closed_ok p"
  by (induction rule: proxy_reachable.induct)
    (auto simp: closed_ok_def new_tcp_proxy_def intro: closed_step [unfolded closed_ok_def, rule_format])

text \<open>No one else closes a connection, and reading is shut only after the other side's copy has ended.\<close>

definition open_ok :: "tcp_proxy \<Rightarrow> bool" where
  "open_ok p \<longleftrightarrow> (\<forall>s. (tc_closed (tp_conn p s) \<longrightarrow> tp_broker p s \<noteq> Copying) \<and>
     (tc_readShut (tp_conn p s) \<longrightarrow> tp_broker p (other s) \<noteq> Copying))"

lemma open_step: "proxy_step own p q \<Longrightarrow> open_ok p \<Longrightarrow> open_ok q"
  by (erule proxy_stepE) (auto simp: open_ok_def)

lemma open_reachable: "proxy_reachable early p \<Longrightarrow> open_ok p"
proof (induction rule: proxy_reachable.induct)
  case proxy_starts
  show ?case by (simp add: open_ok_def new_tcp_proxy_def new_tcp_conn_def)
qed (rule open_step)

text \<open>What the program still has to do on its own: bytes to copy, and the steps of its goroutines.\<close>

fun broker_rank :: "broker \<Rightarrow> nat" where
  "broker_rank Copying = 2"
| "broker_rank (Copied clean) = 1"
| "broker_rank (BrokerDone clean) = 0"

fun proxy_main_rank :: "proxy_main \<Rightarrow> nat" where
  "proxy_main_rank Selecting = 2"
| "proxy_main_rank (WaitFor s) = 1"
| "proxy_main_rank ProxyReturned = 0"

definition proxy_rank :: "tcp_proxy \<Rightarrow> nat" where
  "proxy_rank p =
     length (tc_in (tp_conn p Down)) + length (tc_in (tp_conn p Up)) +
     broker_rank (tp_broker p Down) + broker_rank (tp_broker p Up) + proxy_main_rank (tp_main p)"

lemma proxy_rank_step:
  assumes "proxy_step True p q"
  shows "proxy_rank q < proxy_rank p"
  using assms
proof (cases rule: proxy_step.cases)
  case (Copy s bs rest)
  then show ?thesis by (cases s) (auto simp: proxy_rank_def)
next
  case (CopyEnds s)
  then show ?thesis by (cases s) (auto simp: proxy_rank_def)
next
  case (CopyShut s)
  then show ?thesis by (cases s) (auto simp: proxy_rank_def)
next
  case (CloseSource s clean)
  then show ?thesis by (cases s) (auto simp: proxy_rank_def)
next
  case (Select s)
  then show ?thesis by (cases s) (auto simp: proxy_rank_def)
qed (auto simp: proxy_rank_def)

definition proxy_over :: "tcp_proxy \<Rightarrow> bool" where
  "proxy_over p \<longleftrightarrow> tp_main p = ProxyReturned \<and> finished p Down \<and> finished p Up"

lemma broker_ended_step: "proxy_step own p q \<Longrightarrow> tp_broker p s \<noteq> Copying \<Longrightarrow> tp_broker q s \<noteq> Copying"
  by (erule proxy_stepE) auto

lemma broker_goes_on:
  assumes "closed_ok p" and "tp_broker p s \<noteq> Copying" and "\<not> finished p s"
  shows "\<exists>q. proxy_step True p q"
proof (cases "tp_broker p s")
  case (Copied clean)
  from CloseSource [OF this] show ?thesis by blast
qed (use assms in \<open>auto simp: closed_ok_def finished_def\<close>)

lemma proxy_goes_on_to_end:
  assumes "closed_ok p" and "main_ok p" and "tp_broker p s \<noteq> Copying" and "\<not> proxy_over p"
  shows "\<exists>q. proxy_step True p q"
proof (cases "tp_main p")
  case Selecting
  from Select [OF this assms(3)] show ?thesis by blast
next
  case (WaitFor s')
  then have "tc_readShut (tp_conn p s')" using assms(2) by (simp add: main_ok_def)
  then show ?thesis using CopyShut [of p s'] Return [OF WaitFor] by blast
next
  case ProxyReturned
  then have "\<forall>s. tp_broker p s \<noteq> Copying" using assms(2) by (simp add: main_ok_def)
  with broker_goes_on [OF assms(1)] assms(4) ProxyReturned show ?thesis by (auto simp: proxy_over_def)
qed

section \<open>Properties\<close>

text \<open>
  Neither direction loses, repeats or reorders bytes: what was written to a connection is the front
  of what the peer of the other one has sent, also of what had arrived before the proxy started, and the
  rest is still to be read; a copy that saw the end of its source has passed on everything.
\<close>

lemma proxy_tcp_bytes:
  assumes "proxy_reachable early p"
  shows "tc_sent (tp_conn p s) = tc_out (tp_conn p (other s)) @ tc_in (tp_conn p s)
    \<and> (tp_broker p s = Copied True \<or> tp_broker p s = BrokerDone True \<longrightarrow>
       tc_out (tp_conn p (other s)) = tc_sent (tp_conn p s))"
  using proxy_invariant [OF assms] by (simp add: bytes_ok_def)

text \<open>
  C25: \<open>ProxyTCP\<close> ends with the first direction: as soon as one copy has ended, for whatever reason,
  whichever of its steps the program takes, without the peers or the network doing anything, it comes
  to its return with both connections closed, and does not stop before; and it does not return before
  both copies have ended.
\<close>

theorem proxy_tcp_returns:
  assumes "proxy_reachable early p" and "tp_broker p s \<noteq> Copying"
  shows "comes_to (proxy_step True) (\<lambda>q. tp_main q = ProxyReturned \<and> finished q Down \<and> finished q Up) p
    \<and> (tp_main p = ProxyReturned \<longrightarrow> tp_broker p (other s) \<noteq> Copying)"
proof -
  note inv = proxy_invariant [OF assms(1)]
  have "comes_to (proxy_step True) proxy_over p"
  proof (rule comes_to_measure [where I = "\<lambda>p. closed_ok p \<and> main_ok p \<and> tp_broker p s \<noteq> Copying" and measure = proxy_rank])
    show "closed_ok p \<and> main_ok p \<and> tp_broker p s \<noteq> Copying"
      using inv closed_reachable [OF assms(1)] assms(2) by blast
  qed (use closed_step main_step broker_ended_step proxy_rank_step proxy_goes_on_to_end in blast)+
  then show ?thesis using inv by (auto simp: proxy_over_def [abs_def] main_ok_def)
qed

text \<open>A connection that was closed stays closed, and nothing is written to it any more.\<close>

lemma closed_conn_step:
  assumes "proxy_step own p q" and "tc_closed (tp_conn p s)"
  shows "tc_closed (tp_conn q s) \<and> tc_out (tp_conn q s) = tc_out (tp_conn p s)"
  using assms by (cases rule: proxy_step.cases) auto

text \<open>Whatever happens from here, the connection is closed and no byte is written to it.\<close>

definition written_off :: "side \<Rightarrow> tcp_proxy \<Rightarrow> bool" where
  "written_off s p \<longleftrightarrow> (\<forall>q. (\<lambda>p q. \<exists>own. proxy_step own p q)\<^sup>*\<^sup>* p q \<longrightarrow>
     tc_closed (tp_conn q s) \<and> tc_out (tp_conn q s) = tc_out (tp_conn p s))"

lemma closed_written_off:
  assumes "tc_closed (tp_conn p s)"
  shows "written_off s p"
  unfolding written_off_def
proof (intro allI impI)
  fix q
  assume run: "(\<lambda>p q. \<exists>own. proxy_step own p q)\<^sup>*\<^sup>* p q"
  show "tc_closed (tp_conn q s) \<and> tc_out (tp_conn q s) = tc_out (tp_conn p s)"
    by (rule steps_invariant [OF run, where I = "\<lambda>q. tc_closed (tp_conn q s) \<and> tc_out (tp_conn q s) = tc_out (tp_conn p s)"])
      (use assms closed_conn_step in fastforce)+
qed

text \<open>
  C31: Half-closed connections are not tunnelled: when the copy from one side has seen the end of what
  its peer sends and is over, then whichever of its steps the program takes, it comes to the close of that
  connection in both directions, and from then on, whatever the other side still answers, not one byte
  of it is written back; when the broker is done already, that holds from now on. (Between the peer's
  half-close and that close answers still pass.)
\<close>

theorem proxy_tcp_half_close:
  assumes "proxy_reachable early p" and "tp_broker p s = Copied True \<or> tp_broker p s = BrokerDone True"
  shows "tc_eof (tp_conn p s) \<and> comes_to (proxy_step True) (written_off s) p
    \<and> (tp_broker p s = BrokerDone True \<longrightarrow> written_off s p)"
proof -
  have eof: "tc_eof (tp_conn p s)" using proxy_invariant [OF assms(1)] assms(2) by (auto simp: bytes_ok_def)
  define I where "I q \<longleftrightarrow> closed_ok q \<and> tp_broker q s \<noteq> Copying" for q
  have ends: "\<exists>r. proxy_step True q r" if "I q" "\<not> written_off s q" for q
    using that broker_goes_on [of q s] closed_written_off by (auto simp: I_def finished_def)
  have "comes_to (proxy_step True) (written_off s) p"
  proof (rule comes_to_measure [where I = I and measure = proxy_rank])
    show "I p" using assms closed_reachable by (auto simp: I_def)
  qed (use closed_step broker_ended_step proxy_rank_step ends in \<open>unfold I_def, blast\<close>)+
  moreover have "written_off s p" if "tp_broker p s = BrokerDone True"
    using that closed_reachable [OF assms(1)] closed_written_off unfolding closed_ok_def by blast
  ultimately show ?thesis using eof by blast
qed

text \<open>A proxy whose client had sent a request early and whose copy from the client has ended.\<close>

definition example_proxy :: tcp_proxy where
  "example_proxy = set_broker Down (Copied False) (new_tcp_proxy [71, 69, 84])"

lemma example_proxy_reachable: "proxy_reachable [71, 69, 84] example_proxy"
proof -
  have "proxy_step False (new_tcp_proxy [71, 69, 84]) example_proxy"
    unfolding example_proxy_def by (rule CopyFails) (simp add: new_tcp_proxy_def)
  then show ?thesis by (rule proxy_goes_on [OF proxy_starts])
qed

theorem proxy_tcp_returns_witness:
  "comes_to (proxy_step True) (\<lambda>q. tp_main q = ProxyReturned \<and> finished q Down \<and> finished q Up) example_proxy"
  using proxy_tcp_returns [OF example_proxy_reachable, of Down] by (simp add: example_proxy_def)

text \<open>A client that sends a request and closes its sending side; the answer comes afterwards.\<close>

definition example_half :: tcp_proxy where
  "example_half =
     \<lparr>tp_conn = (\<lambda>s. case s of
        Down \<Rightarrow> \<lparr>tc_in = [], tc_eof = True, tc_readShut = False, tc_closed = True, tc_out = [], tc_sent = [71]\<rparr>
      | Up \<Rightarrow> \<lparr>tc_in = [], tc_eof = False, tc_readShut = False, tc_closed = False, tc_out = [71], tc_sent = []\<rparr>),
      tp_broker = (\<lambda>s. case s of Down \<Rightarrow> BrokerDone True | Up \<Rightarrow> Copying), tp_main = Selecting\<rparr>"

lemma example_half_reachable: "proxy_reachable [71] example_half"
proof -
  let ?p1 = "upd_conn Down (\<lambda>c. c\<lparr>tc_eof := True\<rparr>) (new_tcp_proxy [71])"
  let ?p2 = "upd_conn (other Down) (\<lambda>c. c\<lparr>tc_out := tc_out c @ [71]\<rparr>) (upd_conn Down (\<lambda>c. c\<lparr>tc_in := []\<rparr>) ?p1)"
  let ?p3 = "set_broker Down (Copied True) ?p2"
  let ?p4 = "set_broker Down (BrokerDone True) (upd_conn Down (\<lambda>c. c\<lparr>tc_closed := True\<rparr>) ?p3)"
  note new = new_tcp_proxy_def new_tcp_conn_def
  have 1: "proxy_step False (new_tcp_proxy [71]) ?p1" by (rule PeerCloses)
  have 2: "proxy_step True ?p1 ?p2" by (rule Copy) (simp_all add: new)
  have 3: "proxy_step True ?p2 ?p3" by (rule CopyEnds) (simp_all add: new)
  have 4: "proxy_step True ?p3 ?p4" by (rule CloseSource) simp
  have "?p4 = example_half"
    by (auto simp: example_half_def upd_conn_def set_broker_def new split: side.split)
  moreover have "proxy_reachable [71] ?p4"
    by (rule proxy_goes_on [OF proxy_goes_on [OF proxy_goes_on [OF proxy_goes_on [OF proxy_starts 1] 2] 3] 4])
  ultimately show ?thesis by simp
qed

theorem proxy_tcp_half_close_witness:
  "tc_eof (tp_conn example_half Down) \<and> written_off Down example_half \<and>
   comes_to (proxy_step True) (written_off Down) example_half"
  using proxy_tcp_half_close [OF example_half_reachable, of Down] by (simp add: example_half_def)

end
