(* ===== verification/Linger.thy ===== *)
theory Linger
  imports Proxy
begin

text \<open>
  What becomes of the bytes \<open>ProxyTCP\<close> has written, \<open>pkg/xnet/tcp.go\<close>: the system has them, and hands
  them to the peer in its own time, also after a connection was closed, unless \<open>SetLinger(0)\<close> was called
  on it before; then \<open>Close\<close> discards what the peer has not got yet. \<open>Proxy\<close> is extended with what was
  delivered and with that call, which the main goroutine makes on the upstream connection when the
  client's direction ends first.
\<close>

text \<open>
  The proxy; whether \<open>upConn.SetLinger(0)\<close> was called; how many of the bytes written to a connection its
  peer has got; and whether the rest was discarded.
\<close>

record linger_proxy =
  lp_proxy :: tcp_proxy
  lp_linger :: bool
  lp_delivered :: "side \<Rightarrow> nat"
  lp_discarded :: "side \<Rightarrow> bool"

definition new_linger_proxy :: "byte list \<Rightarrow> linger_proxy" where
  "new_linger_proxy early =
     \<lparr>lp_proxy = new_tcp_proxy early, lp_linger = False, lp_delivered = (\<lambda>_. 0), lp_discarded = (\<lambda>_. False)\<rparr>"

text \<open>The case of \<open>downClosed\<close> in the select, and the close of a connection.\<close>

definition selects_down :: "tcp_proxy \<Rightarrow> tcp_proxy \<Rightarrow> bool" where
  "selects_down p q \<longleftrightarrow> tp_main p = Selecting \<and> tp_main q = WaitFor Up"

definition closes :: "side \<Rightarrow> tcp_proxy \<Rightarrow> tcp_proxy \<Rightarrow> bool" where
  "closes s p q \<longleftrightarrow> \<not> tc_closed (tp_conn p s) \<and> tc_closed (tp_conn q s)"

inductive linger_step :: "linger_proxy \<Rightarrow> linger_proxy \<Rightarrow> bool" where
  Proceed: "proxy_step own (lp_proxy l) q \<Longrightarrow>
    linger_step l
      (l\<lparr>lp_proxy := q, lp_linger := (lp_linger l \<or> selects_down (lp_proxy l) q),
         lp_discarded := (\<lambda>s. lp_discarded l s \<or> (s = Up \<and> lp_linger l \<and> closes Up (lp_proxy l) q))\<rparr>)"
| Deliver: "\<not> lp_discarded l s \<Longrightarrow> lp_delivered l s < length (tc_out (tp_conn (lp_proxy l) s)) \<Longrightarrow>
    linger_step l (l\<lparr>lp_delivered := (lp_delivered l)(s := Suc (lp_delivered l s))\<rparr>)"

inductive_cases linger_stepE: "linger_step l m"

definition linger_reachable :: "byte list \<Rightarrow> linger_proxy \<Rightarrow> bool" where
  "linger_reachable early = linger_step\<^sup>*\<^sup>* (new_linger_proxy early)"

text \<open>What a peer has got.\<close>

definition received :: "linger_proxy \<Rightarrow> side \<Rightarrow> byte list" where
  "received l s = take (lp_delivered l s) (tc_out (tp_conn (lp_proxy l) s))"

section \<open>Invariants\<close>

text \<open>A connection that was closed is written to no more, so what was delivered of it stays a front.\<close>

definition delivered_ok :: "linger_proxy \<Rightarrow> bool" where
  "delivered_ok l \<longleftrightarrow> (\<forall>s. lp_delivered l s \<le> length (tc_out (tp_conn (lp_proxy l) s)))"

definition discarded_ok :: "linger_proxy \<Rightarrow> bool" where
  "discarded_ok l \<longleftrightarrow>
     (lp_linger l \<longrightarrow> tp_main (lp_proxy l) \<noteq> Selecting \<and> tp_main (lp_proxy l) \<noteq> WaitFor Down) \<and>
     (\<forall>s. lp_discarded l s \<longrightarrow> s = Up \<and> lp_linger l \<and> tc_closed (tp_conn (lp_proxy l) Up))"

lemma out_grows: "proxy_step own p q \<Longrightarrow> length (tc_out (tp_conn p s)) \<le> length (tc_out (tp_conn q s))"
  by (erule proxy_stepE) auto

lemma main_goes_on:
  "proxy_step own p q \<Longrightarrow> tp_main p \<noteq> Selecting \<Longrightarrow> tp_main q = tp_main p \<or> tp_main q = ProxyReturned"
  by (erule proxy_stepE) auto

lemma delivered_step:
  assumes "linger_step l m" and "delivered_ok l"
  shows "delivered_ok m"
  using assms(1)
proof (cases rule: linger_step.cases)
  case (Proceed own q)
  with assms(2) out_grows [OF Proceed(2)] show ?thesis by (auto simp: delivered_ok_def intro: le_trans)
next
  case (Deliver s)
  with assms(2) show ?thesis by (auto simp: delivered_ok_def)
qed

lemma discarded_step:
  assumes "linger_step l m" and "discarded_ok l"
  shows "discarded_ok m"
  using assms(1)
proof (cases rule: linger_step.cases)
  case (Proceed own q)
  then show ?thesis
    using assms(2) main_goes_on [OF Proceed(2)] closed_conn_step [OF Proceed(2), of Up]
    by (auto simp: discarded_ok_def selects_down_def closes_def)
next
  case (Deliver s)
  with assms(2) show ?thesis by (auto simp: discarded_ok_def)
qed

lemma linger_starts: "linger_reachable early (new_linger_proxy early)"
  by (simp add: linger_reachable_def)

lemma linger_goes_on: "linger_reachable early l \<Longrightarrow> linger_step l m \<Longrightarrow> linger_reachable early m"
  unfolding linger_reachable_def by (rule rtranclp.rtrancl_into_rtrancl)

lemma linger_invariant:
  assumes "linger_reachable early l"
  shows "delivered_ok l \<and> discarded_ok l \<and> proxy_reachable early (lp_proxy l)"
proof (rule steps_invariant [OF assms [unfolded linger_reachable_def],
      where I = "\<lambda>l. delivered_ok l \<and> discarded_ok l \<and> proxy_reachable early (lp_proxy l)"])
  show "delivered_ok (new_linger_proxy early) \<and> discarded_ok (new_linger_proxy early) \<and>
      proxy_reachable early (lp_proxy (new_linger_proxy early))"
    by (simp add: delivered_ok_def discarded_ok_def new_linger_proxy_def proxy_starts)
next
  fix l m
  assume st: "linger_step l m" and inv: "delivered_ok l \<and> discarded_ok l \<and> proxy_reachable early (lp_proxy l)"
  have "proxy_reachable early (lp_proxy m)"
    using st inv by (cases rule: linger_step.cases) (auto intro: proxy_goes_on)
  with delivered_step [OF st] discarded_step [OF st] inv
  show "delivered_ok m \<and> discarded_ok m \<and> proxy_reachable early (lp_proxy m)" by blast
qed

text \<open>Steps of the proxy before the call of \<open>SetLinger\<close>.\<close>

lemma proceed_plain:
  assumes "proxy_step own (lp_proxy l) q" and "\<not> lp_linger l" and "tp_main q \<noteq> WaitFor Up"
  shows "linger_step l (l\<lparr>lp_proxy := q\<rparr>)"
proof -
  have "l\<lparr>lp_proxy := q, lp_linger := (lp_linger l \<or> selects_down (lp_proxy l) q),
      lp_discarded := (\<lambda>s. lp_discarded l s \<or> (s = Up \<and> lp_linger l \<and> closes Up (lp_proxy l) q))\<rparr> =
    l\<lparr>lp_proxy := q\<rparr>"
    using assms(2,3) by (cases l) (auto simp: selects_down_def)
  with Proceed [OF assms(1)] show ?thesis by (simp only:)
qed

lemma deliver_some:
  assumes "\<not> lp_discarded l s" and "lp_delivered l s + n \<le> length (tc_out (tp_conn (lp_proxy l) s))"
  shows "linger_step\<^sup>*\<^sup>* l (l\<lparr>lp_delivered := (lp_delivered l)(s := lp_delivered l s + n)\<rparr>)"
  using assms(2)
proof (induction n)
  case 0
  show ?case by simp
next
  case (Suc n)
  let ?m = "l\<lparr>lp_delivered := (lp_delivered l)(s := lp_delivered l s + n)\<rparr>"
  let ?n = "?m\<lparr>lp_delivered := (lp_delivered ?m)(s := Suc (lp_delivered ?m s))\<rparr>"
  have "linger_step ?m ?n" by (rule Deliver) (use assms(1) Suc.prems in simp_all)
  moreover have "linger_step\<^sup>*\<^sup>* l ?m" by (rule Suc.IH) (use Suc.prems in simp)
  moreover have "?n = l\<lparr>lp_delivered := (lp_delivered l)(s := lp_delivered l s + Suc n)\<rparr>" by simp
  ultimately show ?case by (metis rtranclp.rtrancl_into_rtrancl)
qed

text \<open>What was discarded stays so, and what its peer has got stays what it is.\<close>

lemma discarded_stays:
  assumes "linger_step l m" and "lp_discarded l Up" and "discarded_ok l"
  shows "lp_discarded m Up \<and> received m Up = received l Up"
  using assms(1)
proof (cases rule: linger_step.cases)
  case (Proceed own q)
  then have "tc_out (tp_conn q Up) = tc_out (tp_conn (lp_proxy l) Up)"
    using closed_conn_step [OF Proceed(2), of Up] assms(2,3) by (auto simp: discarded_ok_def)
  with Proceed assms(2) show ?thesis by (simp add: received_def)
next
  case (Deliver s)
  with assms(2) show ?thesis by (cases s) (auto simp: received_def)
qed

section \<open>Properties\<close>

text \<open>
  When nothing is lost: what was written to the client always reaches it, also after the proxy has
  returned, and so does what was written upstream when the upstream's direction ends first; bytes are
  discarded only on the upstream connection and only after the client's direction has ended.
\<close>

lemma proxy_tcp_delivers:
  assumes "linger_reachable early l"
  shows "(lp_discarded l s \<longrightarrow> s = Up \<and> tp_broker (lp_proxy l) Down \<noteq> Copying)
    \<and> (\<not> lp_discarded l s \<longrightarrow>
         leads linger_step l (\<lambda>m. lp_proxy m = lp_proxy l \<and> received m s = tc_out (tp_conn (lp_proxy l) s)))"
proof -
  note inv = linger_invariant [OF assms]
  have "main_ok (lp_proxy l)" using proxy_invariant inv by blast
  then have "lp_discarded l s \<longrightarrow> s = Up \<and> tp_broker (lp_proxy l) Down \<noteq> Copying"
  proof (cases "tp_main (lp_proxy l)")
    case (WaitFor s')
    with inv \<open>main_ok (lp_proxy l)\<close> show ?thesis by (cases s') (auto simp: discarded_ok_def main_ok_def)
  qed (use inv \<open>main_ok (lp_proxy l)\<close> in \<open>auto simp: discarded_ok_def main_ok_def\<close>)
  moreover have "leads linger_step l (\<lambda>m. lp_proxy m = lp_proxy l \<and> received m s = tc_out (tp_conn (lp_proxy l) s))"
    if "\<not> lp_discarded l s"
  proof -
    let ?n = "length (tc_out (tp_conn (lp_proxy l) s)) - lp_delivered l s"
    have "lp_delivered l s + ?n = length (tc_out (tp_conn (lp_proxy l) s))"
      using inv by (simp add: delivered_ok_def)
    with deliver_some [OF that, of ?n] show ?thesis
      unfolding leads_def by (intro exI conjI) (assumption | simp add: received_def)+
  qed
  ultimately show ?thesis by blast
qed


text \<open>
  The end of such a run: the proxy after the client's direction has ended, by the broker of the other
  one, whether the upstream connection is closed, and the main goroutine.
\<close>

definition client_gone :: "byte list \<Rightarrow> broker \<Rightarrow> bool \<Rightarrow> bool \<Rightarrow> proxy_main \<Rightarrow> tcp_proxy" where
  "client_gone bs up shut closed main =
     \<lparr>tp_conn = (\<lambda>s. case s of
        Down \<Rightarrow> \<lparr>tc_in = [], tc_eof = True, tc_readShut = False, tc_closed = True, tc_out = [], tc_sent = bs\<rparr>
      | Up \<Rightarrow> \<lparr>tc_in = [], tc_eof = False, tc_readShut = shut, tc_closed = closed, tc_out = bs, tc_sent = []\<rparr>),
      tp_broker = (\<lambda>s. case s of Down \<Rightarrow> BrokerDone True | Up \<Rightarrow> up), tp_main = main\<rparr>"

lemma client_gone_simps [simp]:
  "tp_main (client_gone bs up shut closed main) = main"
  "tp_broker (client_gone bs up shut closed main) Down = BrokerDone True"
  "tp_broker (client_gone bs up shut closed main) Up = up"
  "tc_sent (tp_conn (client_gone bs up shut closed main) Down) = bs"
  "tc_out (tp_conn (client_gone bs up shut closed main) Up) = bs"
  "tc_readShut (tp_conn (client_gone bs up shut closed main) Up) = shut"
  "tc_closed (tp_conn (client_gone bs up shut closed main) Up) = closed"
  by (simp_all add: client_gone_def)

lemma client_gone_eqs:
  "(upd_conn Up (\<lambda>c. c\<lparr>tc_readShut := True\<rparr>) (client_gone bs up False closed main))\<lparr>tp_main := main'\<rparr> =
     client_gone bs up True closed main'"
  "set_broker Up b (client_gone bs up shut closed main) = client_gone bs b shut closed main"
  "upd_conn Up (\<lambda>c. c\<lparr>tc_closed := True\<rparr>) (client_gone bs up shut False main) = client_gone bs up shut True main"
  "(client_gone bs up shut closed main)\<lparr>tp_main := main'\<rparr> = client_gone bs up shut closed main'"
  by (auto simp: client_gone_def upd_conn_def set_broker_def split: side.split)

lemma client_gone_steps:
  "proxy_step True (client_gone bs Copying False False Selecting) (client_gone bs Copying True False (WaitFor Up))"
  "proxy_step True (client_gone bs Copying True False (WaitFor Up)) (client_gone bs (Copied False) True False (WaitFor Up))"
  "proxy_step True (client_gone bs (Copied False) True False (WaitFor Up)) (client_gone bs (BrokerDone False) True True (WaitFor Up))"
  "proxy_step True (client_gone bs (BrokerDone False) True True (WaitFor Up)) (client_gone bs (BrokerDone False) True True ProxyReturned)"
  using Select [of "client_gone bs Copying False False Selecting" Down]
    CopyShut [of "client_gone bs Copying True False (WaitFor Up)" Up]
    CloseSource [of "client_gone bs (Copied False) True False (WaitFor Up)" Up False]
    Return [of "client_gone bs (BrokerDone False) True True (WaitFor Up)" Up]
  by (simp_all add: client_gone_eqs)

lemma client_gone_reachable:
  assumes "bs \<noteq> []"
  shows "linger_reachable [] ((new_linger_proxy [])\<lparr>lp_proxy := client_gone bs Copying False False Selecting\<rparr>)"
proof -
  let ?at = "\<lambda>p. (new_linger_proxy [])\<lparr>lp_proxy := p\<rparr>"
  let ?a = "upd_conn Down (\<lambda>c. c\<lparr>tc_in := tc_in c @ bs, tc_sent := tc_sent c @ bs\<rparr>) (new_tcp_proxy [])"
  let ?b = "upd_conn Down (\<lambda>c. c\<lparr>tc_eof := True\<rparr>) ?a"
  let ?c = "upd_conn (other Down) (\<lambda>c. c\<lparr>tc_out := tc_out c @ bs\<rparr>) (upd_conn Down (\<lambda>c. c\<lparr>tc_in := []\<rparr>) ?b)"
  let ?d = "set_broker Down (Copied True) ?c"
  let ?e = "set_broker Down (BrokerDone True) (upd_conn Down (\<lambda>c. c\<lparr>tc_closed := True\<rparr>) ?d)"
  note new = new_tcp_proxy_def new_tcp_conn_def
  have go: "linger_reachable [] (?at q)" if "linger_reachable [] (?at p)" "proxy_step own p q" "tp_main q \<noteq> WaitFor Up"
    for own p q
    using linger_goes_on [OF that(1), of "?at q"] proceed_plain [of own "?at p" q] that(2,3)
    by (simp add: new_linger_proxy_def)
  have "?at (new_tcp_proxy []) = new_linger_proxy []" by (simp add: new_linger_proxy_def)
  then have "linger_reachable [] (?at (new_tcp_proxy []))" using linger_starts by simp
  from go [OF this Arrive [of "new_tcp_proxy []" Down bs]] have "linger_reachable [] (?at ?a)" by (simp add: new)
  from go [OF this PeerCloses [of ?a Down]] have "linger_reachable [] (?at ?b)" by (simp add: new)
  from go [OF this Copy [of ?b Down bs "[]"]] have "linger_reachable [] (?at ?c)" using assms by (simp add: new)
  from go [OF this CopyEnds [of ?c Down]] have "linger_reachable [] (?at ?d)" by (simp add: new)
  from go [OF this CloseSource [of ?d Down True]] have "linger_reachable [] (?at ?e)" by (simp add: new)
  moreover have "?e = client_gone bs Copying False False Selecting"
    by (auto simp: client_gone_def upd_conn_def set_broker_def new split: side.split)
  ultimately show ?thesis by simp
qed

text \<open>What was discarded never arrives.\<close>

lemma discarded_for_good:
  assumes "linger_step\<^sup>*\<^sup>* l m" and "discarded_ok l" and "lp_discarded l Up" and "received l Up = bs"
  shows "received m Up = bs"
proof -
  have "discarded_ok m \<and> lp_discarded m Up \<and> received m Up = bs"
    using assms
  proof (induction rule: rtranclp_induct)
    case (step m n)
    then show ?case using discarded_stays discarded_step by metis
  qed simp
  then show ?thesis by simp
qed

text \<open>
  C33: A client that closes first can lose the end of what it sent: for any bytes and any front of them
  there is a run in which the client sends the bytes and closes, the proxy reads all of them to their
  end, writes all of them upstream without an error and returns, and the destination gets just that
  front, now and for ever: \<open>SetLinger(0)\<close> makes the close of the upstream connection discard the rest.
\<close>

theorem proxy_tcp_discards:
  assumes "k \<le> length bs" and "bs \<noteq> []"
  shows "\<exists>l. linger_reachable [] l \<and> tp_main (lp_proxy l) = ProxyReturned \<and>
    tc_sent (tp_conn (lp_proxy l) Down) = bs \<and> tp_broker (lp_proxy l) Down = BrokerDone True \<and>
    tc_out (tp_conn (lp_proxy l) Up) = bs \<and>
    (\<forall>m. linger_step\<^sup>*\<^sup>* l m \<longrightarrow> received m Up = take k bs)"
proof -
  let ?at = "\<lambda>p lin disc. \<lparr>lp_proxy = p, lp_linger = lin, lp_delivered = (\<lambda>_. 0)(Up := k), lp_discarded = disc\<rparr>"
  let ?g = "client_gone bs" and ?none = "\<lambda>_. False" and ?up = "\<lambda>s. s = Up"
  let ?l = "?at (?g (BrokerDone False) True True ProxyReturned) True ?up"
  have go: "linger_reachable [] (?at q lin' disc')" if "linger_reachable [] (?at p lin disc)" "proxy_step own p q"
    "lin' \<longleftrightarrow> lin \<or> selects_down p q" "disc' = (\<lambda>s. disc s \<or> (s = Up \<and> lin \<and> closes Up p q))"
    for own p q lin lin' disc disc'
    using linger_goes_on [OF that(1)] Proceed [of own "?at p lin disc" q] that(2-4) by simp
  have "linger_step\<^sup>*\<^sup>* ((new_linger_proxy [])\<lparr>lp_proxy := ?g Copying False False Selecting\<rparr>)
      (?at (?g Copying False False Selecting) False ?none)"
    using deliver_some [of "(new_linger_proxy [])\<lparr>lp_proxy := ?g Copying False False Selecting\<rparr>" Up k] assms(1)
    by (simp add: new_linger_proxy_def)
  then have "linger_reachable [] (?at (?g Copying False False Selecting) False ?none)"
    using client_gone_reachable [OF assms(2)] unfolding linger_reachable_def by (rule rtranclp_trans [rotated])
  from go [OF this client_gone_steps(1)]
  have "linger_reachable [] (?at (?g Copying True False (WaitFor Up)) True ?none)"
    by (simp add: selects_down_def)
  from go [OF this client_gone_steps(2)]
  have "linger_reachable [] (?at (?g (Copied False) True False (WaitFor Up)) True ?none)"
    by (simp add: selects_down_def closes_def)
  from go [OF this client_gone_steps(3)]
  have "linger_reachable [] (?at (?g (BrokerDone False) True True (WaitFor Up)) True ?up)"
    by (simp add: selects_down_def closes_def)
  from go [OF this client_gone_steps(4)]
  have l: "linger_reachable [] ?l" by (simp add: selects_down_def closes_def)
  have "received m Up = take k bs" if "linger_step\<^sup>*\<^sup>* ?l m" for m
    by (rule discarded_for_good [OF that]) (use linger_invariant [OF l] in \<open>simp_all add: received_def\<close>)
  with l show ?thesis by (intro exI [of _ ?l]) simp
qed

theorem proxy_tcp_discards_witness:
  "\<exists>l. linger_reachable [] l \<and> tp_main (lp_proxy l) = ProxyReturned \<and>
    tc_out (tp_conn (lp_proxy l) Up) = [71, 69, 84] \<and> received l Up = [71]"
  using proxy_tcp_discards [of 1 "[71, 69, 84]"] by auto

end
