(* ===== verification/Tcp_Request.thy ===== *)
theory Tcp_Request
  imports Client Proxy
begin

text \<open>
  A TCP connection of the client from its acceptance to its end: \<open>handleTCPConn\<close> in
  \<open>cmd/client/tcp.go\<close> with the goroutine of \<open>createStream\<close> in \<open>utils.go\<close>. Two goroutines copy between the
  local connection and the data stream, a third reads the error stream, and the function waits for them
  on three channels; so they are a step relation. The streams and the request, up to the
  acknowledgement, are \<open>create_stream\<close> and \<open>open_request\<close> of \<open>Client\<close>; here they succeed or fail.
\<close>

section \<open>The goroutines\<close>

text \<open>
  The function: before \<open>createStream\<close>; in the request, with the streams there; at the select; at the
  receive from \<open>errorChan\<close>; or returned, with its deferred \<open>Close\<close> done.
\<close>

datatype request_main = CreatingStreams | Requesting | SelectingDone | AwaitingError | RequestReturned

text \<open>
  The copy from the data stream to the local connection: in \<open>io.Copy\<close>; past it, with \<open>remoteDone\<close> still
  open, and whether it saw the end of the stream; or gone.
\<close>

datatype down_copier = DownNotStarted | DownCopying | DownCopied bool | DownDone bool

text \<open>
  The copy from the local connection to the data stream: in \<open>io.Copy\<close>; with an error to be signalled on
  \<open>localError\<close>; at the deferred \<open>dataStream.Close\<close>; or gone. The flags are as above.
\<close>

datatype up_copier = UpNotStarted | UpCopying | UpFailed | UpClosing bool | UpDone bool

text \<open>
  The goroutine of \<open>createStream\<close>: reading the error stream; sending an error on \<open>errCh\<close>, which has no
  buffer; before \<open>close(errCh)\<close>; before the check of the message; or gone. The flag is the answer of the
  check.
\<close>

datatype error_reader =
    NoErrorStream
  | ReadingErrors
  | SendingError stream_error bool
  | ClosingErrCh bool
  | CheckingMessage bool
  | ErrorsDone

text \<open>
  \<open>tr_conn Down\<close> is the local connection, \<open>tr_conn Up\<close> the data stream after the acknowledgement; that
  one's \<open>tc_closed\<close> is the \<open>Close\<close> of the stream, which ends its writing side only. \<open>tr_logged\<close> are the
  errors the function received.
\<close>

record tcp_request =
  tr_conn :: "side \<Rightarrow> tcp_conn"
  tr_main :: request_main
  tr_down :: down_copier
  tr_up :: up_copier
  tr_errors :: error_reader
  tr_localError :: bool
  tr_remoteDone :: bool
  tr_errCh_closed :: bool
  tr_logged :: "stream_error list"
  tr_conn_closed :: bool

definition new_tcp_request :: "byte list \<Rightarrow> tcp_request" where
  "new_tcp_request early =
     \<lparr>tr_conn = (\<lambda>s. new_tcp_conn (if s = Down then early else [])), tr_main = CreatingStreams,
      tr_down = DownNotStarted, tr_up = UpNotStarted, tr_errors = NoErrorStream,
      tr_localError = False, tr_remoteDone = False, tr_errCh_closed = False, tr_logged = [],
      tr_conn_closed = False\<rparr>"

definition upd_end :: "side \<Rightarrow> (tcp_conn \<Rightarrow> tcp_conn) \<Rightarrow> tcp_request \<Rightarrow> tcp_request" where
  "upd_end s f r = r\<lparr>tr_conn := (tr_conn r)(s := f (tr_conn r s))\<rparr>"

text \<open>The return of the function, whose deferred call closes the local connection.\<close>

definition return_request :: "tcp_request \<Rightarrow> tcp_request" where
  "return_request r = (upd_end Down (\<lambda>c. c\<lparr>tc_closed := True\<rparr>) r)\<lparr>tr_main := RequestReturned\<rparr>"

lemma upd_end_simps [simp]:
  "tr_conn (upd_end s f r) = (tr_conn r)(s := f (tr_conn r s))"
  "tr_main (upd_end s f r) = tr_main r" "tr_down (upd_end s f r) = tr_down r"
  "tr_up (upd_end s f r) = tr_up r" "tr_errors (upd_end s f r) = tr_errors r"
  "tr_localError (upd_end s f r) = tr_localError r" "tr_remoteDone (upd_end s f r) = tr_remoteDone r"
  "tr_errCh_closed (upd_end s f r) = tr_errCh_closed r" "tr_logged (upd_end s f r) = tr_logged r"
  "tr_conn_closed (upd_end s f r) = tr_conn_closed r"
  by (simp_all add: upd_end_def)

lemma return_request_simps [simp]:
  "tr_conn (return_request r) = (tr_conn r)(Down := (tr_conn r Down)\<lparr>tc_closed := True\<rparr>)"
  "tr_main (return_request r) = RequestReturned" "tr_down (return_request r) = tr_down r"
  "tr_up (return_request r) = tr_up r" "tr_errors (return_request r) = tr_errors r"
  "tr_localError (return_request r) = tr_localError r" "tr_remoteDone (return_request r) = tr_remoteDone r"
  "tr_errCh_closed (return_request r) = tr_errCh_closed r" "tr_logged (return_request r) = tr_logged r"
  "tr_conn_closed (return_request r) = tr_conn_closed r"
  by (simp_all add: return_request_def)

text \<open>
  The flag of a step says that it is the program's own; the other steps are the peers', the network's
  and the API server's. A connection that this program has closed fails with \<open>net.ErrClosed\<close>, which the
  copies do not count as an error. What was read and could not be written counts as not read.
\<close>

inductive request_step :: "bool \<Rightarrow> tcp_request \<Rightarrow> tcp_request \<Rightarrow> bool" where
  Arrive: "\<not> tc_eof (tr_conn r s) \<Longrightarrow>
    request_step False r (upd_end s (\<lambda>c. c\<lparr>tc_in := tc_in c @ bs, tc_sent := tc_sent c @ bs\<rparr>) r)"
| PeerCloses: "request_step False r (upd_end s (\<lambda>c. c\<lparr>tc_eof := True\<rparr>) r)"
| CreateFails: "tr_main r = CreatingStreams \<Longrightarrow> request_step False r (return_request r)"
| StreamsCreated: "tr_main r = CreatingStreams \<Longrightarrow>
    request_step False r (r\<lparr>tr_main := Requesting, tr_errors := ReadingErrors\<rparr>)"
| RequestFails: "tr_main r = Requesting \<Longrightarrow> request_step False r (return_request r)"
| RequestAccepted: "tr_main r = Requesting \<Longrightarrow>
    request_step False r (r\<lparr>tr_main := SelectingDone, tr_down := DownCopying, tr_up := UpCopying\<rparr>)"
| CopyUp: "tr_up r = UpCopying \<Longrightarrow> tc_in (tr_conn r Down) = bs @ rest \<Longrightarrow> bs \<noteq> [] \<Longrightarrow>
    \<not> tc_closed (tr_conn r Down) \<Longrightarrow>
    request_step True r (upd_end Up (\<lambda>c. c\<lparr>tc_out := tc_out c @ bs\<rparr>) (upd_end Down (\<lambda>c. c\<lparr>tc_in := rest\<rparr>) r))"
| CopyUpEnds: "tr_up r = UpCopying \<Longrightarrow> tc_in (tr_conn r Down) = [] \<Longrightarrow> tc_eof (tr_conn r Down) \<Longrightarrow>
    \<not> tc_closed (tr_conn r Down) \<Longrightarrow> request_step True r (r\<lparr>tr_up := UpClosing True\<rparr>)"
| CopyUpClosed: "tr_up r = UpCopying \<Longrightarrow> tc_closed (tr_conn r Down) \<Longrightarrow>
    request_step True r (r\<lparr>tr_up := UpClosing False\<rparr>)"
| CopyUpFails: "tr_up r = UpCopying \<Longrightarrow> request_step False r (r\<lparr>tr_up := UpFailed\<rparr>)"
| SignalError: "tr_up r = UpFailed \<Longrightarrow>
    request_step True r (r\<lparr>tr_up := UpClosing False, tr_localError := True\<rparr>)"
| CloseStream: "tr_up r = UpClosing clean \<Longrightarrow>
    request_step True r ((upd_end Up (\<lambda>c. c\<lparr>tc_closed := True\<rparr>) r)\<lparr>tr_up := UpDone clean\<rparr>)"
| CopyDown: "tr_down r = DownCopying \<Longrightarrow> tc_in (tr_conn r Up) = bs @ rest \<Longrightarrow> bs \<noteq> [] \<Longrightarrow>
    \<not> tc_closed (tr_conn r Down) \<Longrightarrow>
    request_step True r (upd_end Down (\<lambda>c. c\<lparr>tc_out := tc_out c @ bs\<rparr>) (upd_end Up (\<lambda>c. c\<lparr>tc_in := rest\<rparr>) r))"
| CopyDownEnds: "tr_down r = DownCopying \<Longrightarrow> tc_in (tr_conn r Up) = [] \<Longrightarrow> tc_eof (tr_conn r Up) \<Longrightarrow>
    request_step True r (r\<lparr>tr_down := DownCopied True\<rparr>)"
| CopyDownClosed: "tr_down r = DownCopying \<Longrightarrow> tc_in (tr_conn r Up) \<noteq> [] \<Longrightarrow> tc_closed (tr_conn r Down) \<Longrightarrow>
    request_step True r (r\<lparr>tr_down := DownCopied False\<rparr>)"
| CopyDownFails: "tr_down r = DownCopying \<Longrightarrow> request_step False r (r\<lparr>tr_down := DownCopied False\<rparr>)"
| SignalDone: "tr_down r = DownCopied clean \<Longrightarrow>
    request_step True r (r\<lparr>tr_down := DownDone clean, tr_remoteDone := True\<rparr>)"
| Select: "tr_main r = SelectingDone \<Longrightarrow> tr_remoteDone r \<or> tr_localError r \<Longrightarrow>
    request_step True r (r\<lparr>tr_main := AwaitingError\<rparr>)"
| ReceiveError: "tr_main r = AwaitingError \<Longrightarrow> tr_errors r = SendingError e closes \<Longrightarrow>
    request_step True r (return_request (r\<lparr>tr_errors := ClosingErrCh closes, tr_logged := tr_logged r @ [e]\<rparr>))"
| ReceiveClosed: "tr_main r = AwaitingError \<Longrightarrow> tr_errCh_closed r \<Longrightarrow> request_step True r (return_request r)"
| ErrorRead: "tr_errors r = ReadingErrors \<Longrightarrow> error_stream_result message err = ([e], closes) \<Longrightarrow>
    request_step False r (r\<lparr>tr_errors := SendingError e closes\<rparr>)"
| NoErrorRead: "tr_errors r = ReadingErrors \<Longrightarrow> error_stream_result message err = ([], closes) \<Longrightarrow>
    request_step False r (r\<lparr>tr_errors := ClosingErrCh closes\<rparr>)"
| CloseErrCh: "tr_errors r = ClosingErrCh closes \<Longrightarrow>
    request_step True r (r\<lparr>tr_errors := CheckingMessage closes, tr_errCh_closed := True\<rparr>)"
| CheckMessage: "tr_errors r = CheckingMessage closes \<Longrightarrow>
    request_step True r (r\<lparr>tr_errors := ErrorsDone, tr_conn_closed := (tr_conn_closed r \<or> closes)\<rparr>)"

inductive_cases request_stepE: "request_step own r r'"

definition request_any :: "tcp_request \<Rightarrow> tcp_request \<Rightarrow> bool" where
  "request_any r r' \<longleftrightarrow> (\<exists>own. request_step own r r')"

definition request_reachable :: "byte list \<Rightarrow> tcp_request \<Rightarrow> bool" where
  "request_reachable early = request_any\<^sup>*\<^sup>* (new_tcp_request early)"

section \<open>Invariants\<close>

definition request_bytes_ok :: "tcp_request \<Rightarrow> bool" where
  "request_bytes_ok r \<longleftrightarrow>
     (\<forall>s. tc_sent (tr_conn r s) = tc_out (tr_conn r (other s)) @ tc_in (tr_conn r s)) \<and>
     (tr_up r = UpClosing True \<or> tr_up r = UpDone True \<longrightarrow>
        tc_in (tr_conn r Down) = [] \<and> tc_eof (tr_conn r Down)) \<and>
     (tr_down r = DownCopied True \<or> tr_down r = DownDone True \<longrightarrow>
        tc_in (tr_conn r Up) = [] \<and> tc_eof (tr_conn r Up))"

definition copying_started :: "tcp_request \<Rightarrow> bool" where
  "copying_started r \<longleftrightarrow> tr_up r \<noteq> UpNotStarted"

text \<open>The error stream has ended and its error, if any, was handed over.\<close>

fun errors_over :: "error_reader \<Rightarrow> bool" where
  "errors_over (ClosingErrCh _) = True"
| "errors_over (CheckingMessage _) = True"
| "errors_over ErrorsDone = True"
| "errors_over _ = False"

definition request_main_ok :: "tcp_request \<Rightarrow> bool" where
  "request_main_ok r \<longleftrightarrow>
     (case tr_main r of
        CreatingStreams \<Rightarrow> tr_errors r = NoErrorStream \<and> \<not> copying_started r
      | Requesting \<Rightarrow> tr_errors r \<noteq> NoErrorStream \<and> \<not> copying_started r
      | SelectingDone \<Rightarrow> tr_errors r \<noteq> NoErrorStream \<and> copying_started r
      | AwaitingError \<Rightarrow> tr_errors r \<noteq> NoErrorStream \<and> copying_started r \<and> (tr_remoteDone r \<or> tr_localError r)
      | RequestReturned \<Rightarrow> copying_started r \<longrightarrow> errors_over (tr_errors r) \<and> (tr_remoteDone r \<or> tr_localError r))"

definition request_signals_ok :: "tcp_request \<Rightarrow> bool" where
  "request_signals_ok r \<longleftrightarrow>
     (tr_down r = DownNotStarted \<longleftrightarrow> \<not> copying_started r) \<and>
     (tr_remoteDone r \<longleftrightarrow> (\<exists>clean. tr_down r = DownDone clean)) \<and>
     (tr_localError r \<longrightarrow> tr_up r = UpClosing False \<or> tr_up r = UpDone False) \<and>
     (tc_closed (tr_conn r Up) \<longleftrightarrow> (\<exists>clean. tr_up r = UpDone clean)) \<and>
     (tc_closed (tr_conn r Down) \<longleftrightarrow> tr_main r = RequestReturned) \<and>
     (tr_errCh_closed r \<longleftrightarrow> (\<exists>closes. tr_errors r = CheckingMessage closes) \<or> tr_errors r = ErrorsDone)"

lemmas request_inv_defs =
  request_bytes_ok_def request_main_ok_def request_signals_ok_def copying_started_def

lemma request_bytes_step:
  assumes "request_step own r r'" and "request_bytes_ok r"
  shows "request_bytes_ok r'"
  using assms
proof (cases rule: request_step.cases)
  case (Arrive s bs)
  with assms(2) show ?thesis by (cases s) (auto simp: request_bytes_ok_def all_sides)
next
  case (PeerCloses s)
  with assms(2) show ?thesis by (cases s) (auto simp: request_bytes_ok_def all_sides)
qed (use assms(2) in \<open>auto simp: request_bytes_ok_def all_sides\<close>)

lemma request_main_step:
  assumes "request_step own r r'" and "request_main_ok r" and "request_signals_ok r"
  shows "request_main_ok r'"
  using assms
proof (cases rule: request_step.cases)
  case ReceiveClosed
  with assms(2,3) show ?thesis by (auto simp: request_main_ok_def request_signals_ok_def copying_started_def)
qed (use assms(2) in \<open>auto simp: request_main_ok_def copying_started_def split: request_main.splits\<close>)

lemma request_signals_step:
  assumes "request_step own r r'" and "request_signals_ok r" and "request_main_ok r"
  shows "request_signals_ok r'"
  using assms
proof (cases rule: request_step.cases)
  case (Arrive s bs)
  with assms(2) show ?thesis by (cases s) (auto simp: request_signals_ok_def copying_started_def)
next
  case (PeerCloses s)
  with assms(2) show ?thesis by (cases s) (auto simp: request_signals_ok_def copying_started_def)
qed (use assms(2,3) in \<open>auto simp: request_signals_ok_def request_main_ok_def copying_started_def\<close>)

lemma request_invariant:
  assumes "request_reachable early r"
  shows "request_bytes_ok r \<and> request_main_ok r \<and> request_signals_ok r"
proof (rule steps_invariant [OF assms [unfolded request_reachable_def]])
  show "request_bytes_ok (new_tcp_request early) \<and> request_main_ok (new_tcp_request early)
      \<and> request_signals_ok (new_tcp_request early)"
    by (simp add: request_inv_defs new_tcp_request_def new_tcp_conn_def all_sides)
next
  fix r r'
  assume "request_any r r'" and "request_bytes_ok r \<and> request_main_ok r \<and> request_signals_ok r"
  then show "request_bytes_ok r' \<and> request_main_ok r' \<and> request_signals_ok r'"
    using request_bytes_step request_main_step request_signals_step unfolding request_any_def by blast
qed

text \<open>Each direction of the request is a pipe.\<close>

interpretation request_pipe: pipe "request_reachable early" "\<lambda>r. tc_sent (tr_conn r s)"
    "\<lambda>r. tc_out (tr_conn r (other s))" "\<lambda>r. tc_in (tr_conn r s)"
  for early s
  using request_invariant by unfold_locales (auto simp: request_bytes_ok_def)

section \<open>Coming to an end\<close>

text \<open>Everything the request started is gone.\<close>

definition request_cleaned :: "tcp_request \<Rightarrow> bool" where
  "request_cleaned r \<longleftrightarrow>
     tr_main r = RequestReturned \<and> tc_closed (tr_conn r Down) \<and> tc_closed (tr_conn r Up) \<and>
     (\<exists>clean. tr_up r = UpDone clean) \<and> tr_errors r = ErrorsDone"

definition request_ok :: "tcp_request \<Rightarrow> bool" where
  "request_ok r \<longleftrightarrow> request_bytes_ok r \<and> request_main_ok r \<and> request_signals_ok r"

lemma request_ok_step: "request_step own r r' \<Longrightarrow> request_ok r \<Longrightarrow> request_ok r'"
  unfolding request_ok_def using request_bytes_step request_main_step request_signals_step by blast

text \<open>What the program still has to do on its own: bytes to copy, and the steps of its goroutines.\<close>

fun up_rank :: "up_copier \<Rightarrow> nat" where
  "up_rank UpCopying = 3"
| "up_rank UpFailed = 2"
| "up_rank (UpClosing clean) = 1"
| "up_rank _ = 0"

fun down_rank :: "down_copier \<Rightarrow> nat" where
  "down_rank DownCopying = 2"
| "down_rank (DownCopied clean) = 1"
| "down_rank _ = 0"

fun errors_rank :: "error_reader \<Rightarrow> nat" where
  "errors_rank (SendingError e closes) = 3"
| "errors_rank (ClosingErrCh closes) = 2"
| "errors_rank (CheckingMessage closes) = 1"
| "errors_rank _ = 0"

fun request_main_rank :: "request_main \<Rightarrow> nat" where
  "request_main_rank SelectingDone = 2"
| "request_main_rank AwaitingError = 1"
| "request_main_rank _ = 0"

definition request_rank :: "tcp_request \<Rightarrow> nat" where
  "request_rank r =
     length (tc_in (tr_conn r Down)) + length (tc_in (tr_conn r Up)) +
     up_rank (tr_up r) + down_rank (tr_down r) + errors_rank (tr_errors r) + request_main_rank (tr_main r)"

lemma request_rank_step: "request_step True r q \<Longrightarrow> request_rank q < request_rank r"
  by (erule request_stepE) (auto simp: request_rank_def)

text \<open>A copy has ended, or failed, and the error stream has.\<close>

definition request_ending :: "tcp_request \<Rightarrow> bool" where
  "request_ending r \<longleftrightarrow> request_ok r \<and> copying_started r \<and> tr_errors r \<noteq> ReadingErrors \<and>
     (tr_down r \<noteq> DownCopying \<or> tr_up r = UpFailed \<or> tr_localError r)"

lemma request_ending_step: "request_step True r q \<Longrightarrow> request_ending r \<Longrightarrow> request_ending q"
  unfolding request_ending_def
  by (rule conjI, blast intro: request_ok_step, erule request_stepE) (auto simp: copying_started_def)

lemma down_ended_step: "request_step True r q \<Longrightarrow> tr_down r \<noteq> DownCopying \<Longrightarrow> tr_down q \<noteq> DownCopying"
  by (erule request_stepE) auto

lemma errors_go_on: "errors_over (tr_errors r) \<Longrightarrow> tr_errors r \<noteq> ErrorsDone \<Longrightarrow> \<exists>q. request_step True r q"
  by (cases "tr_errors r") (auto dest: CloseErrCh CheckMessage)

lemma receive_goes_on:
  assumes "request_ending r" and "tr_main r = AwaitingError"
  shows "\<exists>q. request_step True r q"
proof (cases "errors_over (tr_errors r)")
  case True
  show ?thesis
  proof (cases "tr_errors r = ErrorsDone")
    case True
    with assms have "tr_errCh_closed r" by (simp add: request_ending_def request_ok_def request_signals_ok_def)
    from ReceiveClosed [OF assms(2) this] show ?thesis by blast
  qed (use True errors_go_on in blast)
next
  case False
  with assms obtain e closes where "tr_errors r = SendingError e closes"
    by (cases "tr_errors r") (auto simp: request_ending_def request_ok_def request_main_ok_def)
  from ReceiveError [OF assms(2) this] show ?thesis by blast
qed

lemma down_goes_on: "tr_down r \<noteq> DownCopying \<Longrightarrow> tr_down r \<noteq> DownNotStarted \<Longrightarrow> \<nexists>clean. tr_down r = DownDone clean \<Longrightarrow>
    \<exists>q. request_step True r q"
  by (cases "tr_down r") (auto dest: SignalDone)

lemma select_goes_on:
  assumes "request_ending r" and "tr_main r = SelectingDone"
  shows "\<exists>q. request_step True r q"
proof (cases "tr_remoteDone r \<or> tr_localError r")
  case True
  from Select [OF assms(2) this] show ?thesis by blast
next
  case False
  show ?thesis
  proof (cases "tr_up r = UpFailed")
    case True
    from SignalError [OF this] show ?thesis by blast
  next
    case up: False
    show ?thesis
      by (rule down_goes_on) (use assms False up in
        \<open>auto simp: request_ending_def request_ok_def request_signals_ok_def copying_started_def\<close>)
  qed
qed

lemma up_goes_on:
  assumes "tc_closed (tr_conn r Down)" and "copying_started r" and "\<nexists>clean. tr_up r = UpDone clean"
  shows "\<exists>q. request_step True r q"
  using assms
  by (cases "tr_up r") (auto simp: copying_started_def dest: CopyUpClosed SignalError CloseStream)

lemma request_goes_on_to_end:
  assumes "request_ending r" and "\<not> request_cleaned r"
  shows "\<exists>q. request_step True r q"
proof (cases "tr_main r")
  case RequestReturned
  with assms(1) have "errors_over (tr_errors r)" "tc_closed (tr_conn r Down)" "copying_started r"
    and "tc_closed (tr_conn r Up) \<longleftrightarrow> (\<exists>clean. tr_up r = UpDone clean)"
    by (auto simp: request_ending_def request_ok_def request_main_ok_def request_signals_ok_def)
  then show ?thesis using assms(2) RequestReturned errors_go_on [of r] up_goes_on [of r]
    by (auto simp: request_cleaned_def)
qed (use assms(1) select_goes_on receive_goes_on in
    \<open>auto simp: request_ending_def request_ok_def request_main_ok_def\<close>)

section \<open>Properties\<close>

text \<open>
  C14: A TCP connection of the client comes to its end: once the stream from the server has ended (or a
  copy has failed) and the error stream has ended, whichever of its own steps the program takes, it
  comes to the return of \<open>handleTCPConn\<close> with the local connection closed, the data stream closed for
  writing, and its goroutines gone, and does not stop before; the copy to the local connection is
  gone too, if it had ended.
\<close>

theorem tcp_request_returns:
  assumes "request_reachable early r" and "copying_started r"
    and "tr_errors r \<noteq> ReadingErrors"
    and "tr_down r \<noteq> DownCopying \<or> tr_up r = UpFailed \<or> tr_localError r"
  shows "comes_to (request_step True)
    (\<lambda>q. request_cleaned q \<and> (tr_down r \<noteq> DownCopying \<longrightarrow> (\<exists>clean. tr_down q = DownDone clean))) r"
proof (rule comes_to_measure [where measure = request_rank
      and I = "\<lambda>q. request_ending q \<and> (tr_down r \<noteq> DownCopying \<longrightarrow> tr_down q \<noteq> DownCopying)"])
  show "request_ending r \<and> (tr_down r \<noteq> DownCopying \<longrightarrow> tr_down r \<noteq> DownCopying)"
    using request_invariant [OF assms(1)] assms(2-4) by (simp add: request_ending_def request_ok_def)
next
  fix q
  assume q: "request_ending q \<and> (tr_down r \<noteq> DownCopying \<longrightarrow> tr_down q \<noteq> DownCopying)"
    and "\<not> (request_cleaned q \<and> (tr_down r \<noteq> DownCopying \<longrightarrow> (\<exists>clean. tr_down q = DownDone clean)))"
  moreover have "tr_down q \<noteq> DownNotStarted"
    using q by (simp add: request_ending_def request_ok_def request_signals_ok_def)
  ultimately show "\<exists>s. request_step True q s" using request_goes_on_to_end down_goes_on by blast
qed (use request_ending_step request_rank_step down_ended_step in \<open>auto simp: request_ending_def\<close>)

text \<open>
  The local side may close its sending direction and still wait for the answer: when it has done so
  and the copy to the stream saw it, everything it sent was written to the data stream, and until the
  stream from the server has ended the function stays at its select with the local connection open.
  Once it has returned, the error stream was read to its end and one of the two signals was given.
\<close>

lemma tcp_request_half_close:
  assumes "request_reachable early r"
  shows "(tr_up r = UpClosing True \<or> tr_up r = UpDone True \<longrightarrow>
      tc_out (tr_conn r Up) = tc_sent (tr_conn r Down) \<and>
      ((\<nexists>clean. tr_down r = DownDone clean) \<longrightarrow> tr_main r = SelectingDone \<and> \<not> tc_closed (tr_conn r Down)))
    \<and> (copying_started r \<and> tr_main r = RequestReturned \<longrightarrow>
      errors_over (tr_errors r) \<and> (tr_remoteDone r \<or> tr_localError r))"
proof -
  have inv: "request_bytes_ok r" "request_main_ok r" "request_signals_ok r"
    using request_invariant [OF assms] by blast+
  have bytes: "tc_out (tr_conn r Up) = tc_sent (tr_conn r Down)" if "tr_up r = UpClosing True \<or> tr_up r = UpDone True"
    using inv(1) that by (auto simp: request_bytes_ok_def all_sides)
  have open_conn: "tr_main r = SelectingDone \<and> \<not> tc_closed (tr_conn r Down)"
    if up: "tr_up r = UpClosing True \<or> tr_up r = UpDone True" and down: "\<nexists>clean. tr_down r = DownDone clean"
  proof -
    have "copying_started r" "\<not> tr_remoteDone r" "\<not> tr_localError r"
      using inv(3) up down by (auto simp: request_signals_ok_def copying_started_def)
    then have "tr_main r = SelectingDone"
      using inv(2) by (cases "tr_main r") (auto simp: request_main_ok_def)
    then show ?thesis using inv(3) by (simp add: request_signals_ok_def)
  qed
  show ?thesis using bytes open_conn inv(2) by (auto simp: request_main_ok_def)
qed

text \<open>
  A request that fails after its streams were created leaves them behind: the data stream is never
  closed, and if the error stream brings an error the goroutine that reads it waits forever to hand it
  over, whatever else happens.
\<close>

lemma failed_request_leaks:
  assumes "request_reachable early r" and "tr_main r = RequestReturned" and "\<not> copying_started r"
    and "request_any\<^sup>*\<^sup>* r q"
  shows "\<not> tc_closed (tr_conn q Up) \<and> (tr_errors r = SendingError e closes \<longrightarrow> tr_errors q = SendingError e closes)"
proof -
  define I where "I q \<longleftrightarrow> tr_main q = RequestReturned \<and> \<not> copying_started q \<and> \<not> tc_closed (tr_conn q Up) \<and>
    tr_down q = DownNotStarted \<and> (tr_errors r = SendingError e closes \<longrightarrow> tr_errors q = SendingError e closes)" for q
  have "I r"
    using request_invariant [OF assms(1)] assms(2,3) by (auto simp: I_def request_signals_ok_def copying_started_def)
  moreover have "I t" if "request_any s t" "I s" for s t
  proof -
    from that(1) obtain own where "request_step own s t" by (auto simp: request_any_def)
    then show ?thesis using that(2)
      by (cases rule: request_step.cases) (auto simp: I_def copying_started_def)
  qed
  ultimately have "I q" by (rule steps_invariant [OF assms(4)])
  then show ?thesis by (simp add: I_def)
qed

section \<open>Examples\<close>

text \<open>
  A request of a local side that had sent one byte early: with its streams there, an error on the error
  stream, and nothing copied yet; refused in that state; accepted, with a failed copy, or with all copied
  that the local side sent before it closed its sending direction.
\<close>

abbreviation example_error :: error_reader where
  "example_error \<equiv> SendingError (ForwardError ''gone'') False"

definition example_request :: "request_main \<Rightarrow> down_copier \<Rightarrow> up_copier \<Rightarrow> tcp_request" where
  "example_request m d u =
     (new_tcp_request [71])\<lparr>tr_main := m, tr_down := d, tr_up := u, tr_errors := example_error\<rparr>"

definition example_half_closed :: tcp_request where
  "example_half_closed =
     upd_end Down (\<lambda>c. c\<lparr>tc_in := [], tc_eof := True\<rparr>) (upd_end Up (\<lambda>c. c\<lparr>tc_out := [71]\<rparr>)
       (example_request SelectingDone DownCopying (UpClosing True)))"

lemma any_request: "request_reachable early r \<Longrightarrow> request_step own r r' \<Longrightarrow> request_reachable early r'"
  unfolding request_reachable_def request_any_def by (auto intro: rtranclp.rtrancl_into_rtrancl)

lemmas example_request_defs = example_request_def new_tcp_request_def new_tcp_conn_def

lemma example_requesting: "request_reachable [71] (example_request Requesting DownNotStarted UpNotStarted)"
proof -
  let ?r = "(new_tcp_request [71])\<lparr>tr_main := Requesting, tr_errors := ReadingErrors\<rparr>"
  have "request_reachable [71] (new_tcp_request [71])" by (simp add: request_reachable_def)
  moreover have "request_step False (new_tcp_request [71]) ?r"
    by (rule StreamsCreated) (simp add: new_tcp_request_def)
  moreover have "request_step False ?r (example_request Requesting DownNotStarted UpNotStarted)"
    using ErrorRead [of ?r "''gone''" None "ForwardError ''gone''" False]
    by (simp add: example_request_defs error_stream_result_def sandbox_closed_def)
  ultimately show ?thesis by (blast intro: any_request)
qed

lemma example_started: "request_reachable [71] (example_request SelectingDone DownCopying UpCopying)"
proof -
  have "request_step False (example_request Requesting DownNotStarted UpNotStarted)
      (example_request SelectingDone DownCopying UpCopying)"
    using RequestAccepted [of "example_request Requesting DownNotStarted UpNotStarted"]
    by (simp add: example_request_defs)
  with example_requesting show ?thesis by (rule any_request)
qed

lemma example_request_reachable:
  "request_reachable [71] (return_request (example_request Requesting DownNotStarted UpNotStarted))"
  "request_reachable [71] (example_request SelectingDone (DownCopied False) UpCopying)"
  "request_reachable [71] example_half_closed"
proof -
  show "request_reachable [71] (return_request (example_request Requesting DownNotStarted UpNotStarted))"
    by (rule any_request [OF example_requesting], rule RequestFails) (simp add: example_request_defs)
  let ?a = "example_request SelectingDone DownCopying UpCopying"
  have "request_step False ?a (example_request SelectingDone (DownCopied False) UpCopying)"
    using CopyDownFails [of ?a] by (simp add: example_request_defs)
  with example_started show "request_reachable [71] (example_request SelectingDone (DownCopied False) UpCopying)"
    by (rule any_request)
  let ?b = "upd_end Up (\<lambda>c. c\<lparr>tc_out := tc_out c @ [71]\<rparr>) (upd_end Down (\<lambda>c. c\<lparr>tc_in := []\<rparr>) ?a)"
  let ?c = "upd_end Down (\<lambda>c. c\<lparr>tc_eof := True\<rparr>) ?b"
  have "request_step True ?a ?b" by (rule CopyUp) (simp_all add: example_request_defs)
  moreover have "request_step False ?b ?c" by (rule PeerCloses)
  moreover have "request_step True ?c (?c\<lparr>tr_up := UpClosing True\<rparr>)"
    by (rule CopyUpEnds) (simp_all add: example_request_defs)
  ultimately have "request_reachable [71] (?c\<lparr>tr_up := UpClosing True\<rparr>)"
    using example_started by (blast intro: any_request)
  moreover have "?c\<lparr>tr_up := UpClosing True\<rparr> = example_half_closed"
    by (auto simp: example_half_closed_def upd_end_def example_request_defs)
  ultimately show "request_reachable [71] example_half_closed" by simp
qed

theorem tcp_request_returns_witness:
  "comes_to (request_step True) (\<lambda>q. request_cleaned q \<and> (\<exists>clean. tr_down q = DownDone clean))
     (example_request SelectingDone (DownCopied False) UpCopying)"
  using tcp_request_returns [OF example_request_reachable(2)]
  by (simp add: example_request_defs copying_started_def)

end
