(* ===== verification/Tunnel.thy ===== *)
theory Tunnel
  imports Tcp_Request
begin

text \<open>
  A whole TCP tunnel: the client's \<open>handleTCPConn\<close> of \<open>Tcp_Request\<close> and the server's \<open>ProxyTCP\<close> of
  \<open>Proxy\<close>, with the stream between them. The stream is a wire: it delivers what was written to one end,
  in order and in any portions, to the other; it ends there after the writer has closed it and all was
  delivered, or it breaks at any time, which both sides see as an end.
\<close>

record tunnel =
  tu_client :: tcp_request
  tu_server :: tcp_proxy
  tu_lost :: bool

definition new_tunnel :: "byte list \<Rightarrow> tunnel" where
  "new_tunnel early = \<lparr>tu_client = new_tcp_request early, tu_server = new_tcp_proxy [], tu_lost = False\<rparr>"

abbreviation stream_out :: "tunnel \<Rightarrow> byte list" where
  "stream_out t \<equiv> tc_out (tr_conn (tu_client t) Up)"

abbreviation stream_in :: "tunnel \<Rightarrow> byte list" where
  "stream_in t \<equiv> tc_sent (tr_conn (tu_client t) Up)"

abbreviation server_in :: "tunnel \<Rightarrow> byte list" where
  "server_in t \<equiv> tc_sent (tp_conn (tu_server t) Down)"

abbreviation server_out :: "tunnel \<Rightarrow> byte list" where
  "server_out t \<equiv> tc_out (tp_conn (tu_server t) Down)"

definition arrives :: "byte list \<Rightarrow> tcp_conn \<Rightarrow> tcp_conn" where
  "arrives bs c = c\<lparr>tc_in := tc_in c @ bs, tc_sent := tc_sent c @ bs\<rparr>"

definition ends :: "tcp_conn \<Rightarrow> tcp_conn" where
  "ends c = c\<lparr>tc_eof := True\<rparr>"

lemma arrives_simps [simp]:
  "tc_sent (arrives bs c) = tc_sent c @ bs" "tc_out (arrives bs c) = tc_out c" "tc_eof (arrives bs c) = tc_eof c"
  "tc_closed (arrives bs c) = tc_closed c"
  "tc_sent (ends c) = tc_sent c" "tc_out (ends c) = tc_out c" "tc_eof (ends c)" "tc_closed (ends c) = tc_closed c"
  by (simp_all add: arrives_def ends_def)

text \<open>
  The steps of the two programs and of their other peers, which leave the stream's incoming ends alone,
  and the steps of the stream.
\<close>

inductive tunnel_step :: "tunnel \<Rightarrow> tunnel \<Rightarrow> bool" where
  ClientStep: "request_step own (tu_client t) r \<Longrightarrow> tc_sent (tr_conn r Up) = stream_in t \<Longrightarrow>
    tc_eof (tr_conn r Up) = tc_eof (tr_conn (tu_client t) Up) \<Longrightarrow> tunnel_step t (t\<lparr>tu_client := r\<rparr>)"
| ServerStep: "proxy_step own (tu_server t) p \<Longrightarrow> tc_sent (tp_conn p Down) = server_in t \<Longrightarrow>
    tc_eof (tp_conn p Down) = tc_eof (tp_conn (tu_server t) Down) \<Longrightarrow> tunnel_step t (t\<lparr>tu_server := p\<rparr>)"
| WireUp: "stream_out t = server_in t @ bs @ rest \<Longrightarrow> \<not> tc_eof (tp_conn (tu_server t) Down) \<Longrightarrow>
    tunnel_step t (t\<lparr>tu_server := upd_conn Down (arrives bs) (tu_server t)\<rparr>)"
| WireUpEnds: "stream_out t = server_in t \<Longrightarrow> tc_closed (tr_conn (tu_client t) Up) \<Longrightarrow>
    tunnel_step t (t\<lparr>tu_server := upd_conn Down ends (tu_server t)\<rparr>)"
| WireDown: "server_out t = stream_in t @ bs @ rest \<Longrightarrow> \<not> tc_eof (tr_conn (tu_client t) Up) \<Longrightarrow>
    tunnel_step t (t\<lparr>tu_client := upd_end Up (arrives bs) (tu_client t)\<rparr>)"
| WireDownEnds: "server_out t = stream_in t \<Longrightarrow> tc_closed (tp_conn (tu_server t) Down) \<Longrightarrow>
    tunnel_step t (t\<lparr>tu_client := upd_end Up ends (tu_client t)\<rparr>)"
| WireBreaks: "tunnel_step t (t\<lparr>tu_client := upd_end Up ends (tu_client t),
      tu_server := upd_conn Down ends (tu_server t), tu_lost := True\<rparr>)"

inductive_cases tunnel_stepE: "tunnel_step t u"

definition tunnel_reachable :: "byte list \<Rightarrow> tunnel \<Rightarrow> bool" where
  "tunnel_reachable early = tunnel_step\<^sup>*\<^sup>* (new_tunnel early)"

section \<open>The two programs in the tunnel\<close>

lemma wire_client_step:
  "request_step False r (upd_end Up ends r)"
  "\<not> tc_eof (tr_conn r Up) \<Longrightarrow> request_step False r (upd_end Up (arrives bs) r)"
  using request_step.PeerCloses [of r Up] request_step.Arrive [of r Up bs]
  by (simp_all add: ends_def [abs_def] arrives_def [abs_def])

lemma wire_server_step:
  "proxy_step False p (upd_conn Down ends p)"
  "\<not> tc_eof (tp_conn p Down) \<Longrightarrow> proxy_step False p (upd_conn Down (arrives bs) p)"
  using proxy_step.PeerCloses [of p Down] proxy_step.Arrive [of p Down bs]
  by (simp_all add: ends_def [abs_def] arrives_def [abs_def])

lemma tunnel_parts_step:
  assumes "tunnel_step t u" and "request_reachable early (tu_client t)" and "proxy_reachable [] (tu_server t)"
  shows "request_reachable early (tu_client u) \<and> proxy_reachable [] (tu_server u)"
  using assms
  by (cases rule: tunnel_step.cases)
    (auto intro: any_request proxy_goes_on wire_client_step wire_server_step)

text \<open>What was written to a connection stays, and no more is written to one that is closed.\<close>

lemma request_out_grows:
  "request_step own r r' \<Longrightarrow> \<exists>bs. tc_out (tr_conn r' s) = tc_out (tr_conn r s) @ bs"
  by (erule request_stepE) auto

lemma request_closed_out:
  assumes "request_step own r r'" and "request_signals_ok r" and "tc_closed (tr_conn r Up)"
  shows "tc_closed (tr_conn r' Up) \<and> tc_out (tr_conn r' Up) = tc_out (tr_conn r Up)"
  using assms by (cases rule: request_step.cases) (auto simp: request_signals_ok_def)

lemma proxy_out_grows:
  "proxy_step own p q \<Longrightarrow> \<exists>bs. tc_out (tp_conn q s) = tc_out (tp_conn p s) @ bs"
  by (erule proxy_stepE) auto

definition wire_ok :: "tunnel \<Rightarrow> bool" where
  "wire_ok t \<longleftrightarrow>
     prefix (server_in t) (stream_out t) \<and> prefix (stream_in t) (server_out t) \<and>
     (tc_eof (tp_conn (tu_server t) Down) \<and> \<not> tu_lost t \<longrightarrow>
        tc_closed (tr_conn (tu_client t) Up) \<and> server_in t = stream_out t) \<and>
     (tc_eof (tr_conn (tu_client t) Up) \<and> \<not> tu_lost t \<longrightarrow>
        tc_closed (tp_conn (tu_server t) Down) \<and> stream_in t = server_out t)"

lemma wire_client:
  assumes "request_step own (tu_client t) r" and "tc_sent (tr_conn r Up) = stream_in t"
    and "tc_eof (tr_conn r Up) = tc_eof (tr_conn (tu_client t) Up)"
    and "wire_ok t" and "request_signals_ok (tu_client t)"
  shows "wire_ok (t\<lparr>tu_client := r\<rparr>)"
proof -
  obtain bs where "tc_out (tr_conn r Up) = stream_out t @ bs" using request_out_grows [OF assms(1)] by blast
  then show ?thesis
    using assms request_closed_out [OF assms(1,5)] by (auto simp: wire_ok_def)
qed

lemma wire_server:
  assumes "proxy_step own (tu_server t) p" and "tc_sent (tp_conn p Down) = server_in t"
    and "tc_eof (tp_conn p Down) = tc_eof (tp_conn (tu_server t) Down)" and "wire_ok t"
  shows "wire_ok (t\<lparr>tu_server := p\<rparr>)"
proof -
  obtain bs where "tc_out (tp_conn p Down) = server_out t @ bs" using proxy_out_grows [OF assms(1)] by blast
  then show ?thesis
    using assms closed_conn_step [OF assms(1), of Down] by (auto simp: wire_ok_def)
qed

lemma wire_step:
  assumes "tunnel_step t u" and "wire_ok t" and "request_signals_ok (tu_client t)"
  shows "wire_ok u"
  using assms
proof (cases rule: tunnel_step.cases)
  case (ClientStep own r)
  with assms wire_client [of own t r] show ?thesis by simp
next
  case (ServerStep own p)
  with assms wire_server [of own t p] show ?thesis by simp
qed (use assms(2) in \<open>auto simp: wire_ok_def\<close>)

lemma tunnel_invariant:
  assumes "tunnel_reachable early t"
  shows "(request_reachable early (tu_client t) \<and> proxy_reachable [] (tu_server t)) \<and> wire_ok t"
proof (rule steps_invariant [OF assms [unfolded tunnel_reachable_def]])
  show "(request_reachable early (tu_client (new_tunnel early)) \<and> proxy_reachable [] (tu_server (new_tunnel early)))
      \<and> wire_ok (new_tunnel early)"
    using proxy_starts [of "[]"]
    by (simp add: new_tunnel_def request_reachable_def wire_ok_def)
      (simp add: new_tcp_request_def new_tcp_proxy_def new_tcp_conn_def)
next
  fix t u
  assume "tunnel_step t u"
    and "(request_reachable early (tu_client t) \<and> proxy_reachable [] (tu_server t)) \<and> wire_ok t"
  then show "(request_reachable early (tu_client u) \<and> proxy_reachable [] (tu_server u)) \<and> wire_ok u"
    using tunnel_parts_step wire_step request_invariant by blast
qed

lemma on_the_wire:
  assumes "tunnel_reachable early t"
  shows "stream_out t = server_in t @ drop (length (server_in t)) (stream_out t)"
    and "server_out t = stream_in t @ drop (length (stream_in t)) (server_out t)"
  using tunnel_invariant [OF assms] by (auto simp: wire_ok_def prefix_def)

section \<open>The tunnel as pipelines\<close>

interpretation tunnel_up: pipeline
    "request_reachable early" "\<lambda>r. tc_sent (tr_conn r Down)" "\<lambda>r. tc_out (tr_conn r (other Down))"
      "\<lambda>r. tc_in (tr_conn r Down)"
    "proxy_reachable []" "\<lambda>p. tc_sent (tp_conn p Down)" "\<lambda>p. tc_out (tp_conn p (other Down))"
      "\<lambda>p. tc_in (tp_conn p Down)"
    "tunnel_reachable early" tu_client tu_server "\<lambda>t. drop (length (server_in t)) (stream_out t)"
  for early
  by unfold_locales (use tunnel_invariant on_the_wire in simp_all)

interpretation tunnel_down: pipeline
    "proxy_reachable []" "\<lambda>p. tc_sent (tp_conn p Up)" "\<lambda>p. tc_out (tp_conn p (other Up))"
      "\<lambda>p. tc_in (tp_conn p Up)"
    "request_reachable early" "\<lambda>r. tc_sent (tr_conn r Up)" "\<lambda>r. tc_out (tr_conn r (other Up))"
      "\<lambda>r. tc_in (tr_conn r Up)"
    "tunnel_reachable early" tu_server tu_client "\<lambda>t. drop (length (stream_in t)) (server_out t)"
  for early
  by unfold_locales (use tunnel_invariant on_the_wire in simp_all)

text \<open>What the application had sent before the request is the beginning of what it sends.\<close>

lemma request_sent_grows:
  "request_step own r r' \<Longrightarrow> \<exists>bs. tc_sent (tr_conn r' s) = tc_sent (tr_conn r s) @ bs"
  by (erule request_stepE) auto

lemma tunnel_early:
  assumes "tunnel_reachable early t"
  shows "prefix early (tc_sent (tr_conn (tu_client t) Down))"
proof (rule steps_invariant [OF assms [unfolded tunnel_reachable_def],
      where I = "\<lambda>t. prefix early (tc_sent (tr_conn (tu_client t) Down))"])
  show "prefix early (tc_sent (tr_conn (tu_client (new_tunnel early)) Down))"
    by (simp add: new_tunnel_def new_tcp_request_def new_tcp_conn_def)
next
  fix t u
  assume "tunnel_step t u" and p: "prefix early (tc_sent (tr_conn (tu_client t) Down))"
  then have "\<exists>bs. tc_sent (tr_conn (tu_client u) Down) = tc_sent (tr_conn (tu_client t) Down) @ bs"
    by (cases rule: tunnel_step.cases) (auto dest: request_sent_grows)
  with p show "prefix early (tc_sent (tr_conn (tu_client u) Down))" by (auto simp: prefix_def)
qed

section \<open>Properties\<close>

text \<open>
  C9: The tunnel carries bytes faithfully in both directions: at every moment, what was written to the
  destination is the front of what the local application has sent, also of what it had sent before the
  request was accepted; the rest is in the server, on the stream or in the client; and what was
  written to the local application is the front of what the destination has sent.
\<close>

theorem tunnel_bytes:
  assumes "tunnel_reachable early t"
  shows "tc_sent (tr_conn (tu_client t) Down) =
      tc_out (tp_conn (tu_server t) Up) @ tc_in (tp_conn (tu_server t) Down) @
      drop (length (server_in t)) (stream_out t) @ tc_in (tr_conn (tu_client t) Down)
    \<and> prefix (tc_out (tr_conn (tu_client t) Down)) (tc_sent (tp_conn (tu_server t) Up))"
  using tunnel_up.through [OF assms] tunnel_down.whole.in_order [OF assms] by simp

text \<open>
  Nothing is lost on the way to a clean end: as long as the stream has not broken, when the
  server's copy from the client has seen its end and the client's copy had seen the local application's,
  everything the application sent was written to the destination; and in the same way everything the
  destination sent was written to the application when both copies back have seen their ends. (Whether
  what was written arrives is the matter of \<open>Linger\<close>.)
\<close>

lemma tunnel_complete:
  assumes "tunnel_reachable early t" and "\<not> tu_lost t"
  shows "(tp_broker (tu_server t) Down = BrokerDone True \<and> tr_up (tu_client t) = UpDone True \<longrightarrow>
       tc_out (tp_conn (tu_server t) Up) = tc_sent (tr_conn (tu_client t) Down))
    \<and> (tr_down (tu_client t) = DownDone True \<and> tp_broker (tu_server t) Up = BrokerDone True \<longrightarrow>
       tc_out (tr_conn (tu_client t) Down) = tc_sent (tp_conn (tu_server t) Up))"
proof -
  note inv = tunnel_invariant [OF assms(1)]
  have r: "request_bytes_ok (tu_client t)" and p: "bytes_ok (tu_server t)" and w: "wire_ok t"
    using inv request_invariant proxy_invariant by blast+
  have "tc_out (tp_conn (tu_server t) Up) = tc_sent (tr_conn (tu_client t) Down)"
    if "tp_broker (tu_server t) Down = BrokerDone True" "tr_up (tu_client t) = UpDone True"
  proof -
    have "tc_in (tp_conn (tu_server t) Down) = []" "tc_eof (tp_conn (tu_server t) Down)"
      using p that(1) by (simp_all add: bytes_ok_def)
    moreover have "tc_in (tr_conn (tu_client t) Down) = []" using r that(2) by (simp add: request_bytes_ok_def)
    ultimately show ?thesis using tunnel_up.through [OF assms(1)] w assms(2) by (simp add: wire_ok_def)
  qed
  moreover have "tc_out (tr_conn (tu_client t) Down) = tc_sent (tp_conn (tu_server t) Up)"
    if "tr_down (tu_client t) = DownDone True" "tp_broker (tu_server t) Up = BrokerDone True"
  proof -
    have "tc_in (tr_conn (tu_client t) Up) = []" "tc_eof (tr_conn (tu_client t) Up)"
      using r that(1) by (simp_all add: request_bytes_ok_def)
    moreover have "tc_in (tp_conn (tu_server t) Up) = []" using p that(2) by (simp add: bytes_ok_def)
    ultimately show ?thesis using tunnel_down.through [OF assms(1)] w assms(2) by (simp add: wire_ok_def)
  qed
  ultimately show ?thesis by blast
qed

section \<open>Examples\<close>

text \<open>An application that sends one byte and closes; the byte arrives, and the copies of that direction end.\<close>

lemma tunnel_any: "tunnel_reachable early t \<Longrightarrow> tunnel_step t u \<Longrightarrow> tunnel_reachable early u"
  unfolding tunnel_reachable_def by (rule rtranclp.rtrancl_into_rtrancl)

definition example_client :: tcp_request where
  "example_client =
     \<lparr>tr_conn = (\<lambda>s. case s of
        Down \<Rightarrow> \<lparr>tc_in = [], tc_eof = True, tc_readShut = False, tc_closed = False, tc_out = [], tc_sent = [71]\<rparr>
      | Up \<Rightarrow> \<lparr>tc_in = [], tc_eof = False, tc_readShut = False, tc_closed = True, tc_out = [71], tc_sent = []\<rparr>),
      tr_main = SelectingDone, tr_down = DownCopying, tr_up = UpDone True, tr_errors = ReadingErrors,
      tr_localError = False, tr_remoteDone = False, tr_errCh_closed = False, tr_logged = [],
      tr_conn_closed = False\<rparr>"

definition example_tunnel :: tunnel where
  "example_tunnel = \<lparr>tu_client = example_client, tu_server = new_tcp_proxy [], tu_lost = False\<rparr>"

text \<open>
  The tunnel at the moment both programs begin to copy: the server has accepted the request of an
  application that had sent some bytes early, and its proxy finds some bytes behind the header.
\<close>

definition opened_tunnel :: "byte list \<Rightarrow> byte list \<Rightarrow> tunnel" where
  "opened_tunnel early behind =
     \<lparr>tu_client = (new_tcp_request early)\<lparr>tr_main := SelectingDone, tr_down := DownCopying, tr_up := UpCopying,
        tr_errors := ReadingErrors\<rparr>, tu_server = new_tcp_proxy behind, tu_lost = False\<rparr>"

lemma opened_tunnel_reachable: "tunnel_reachable early (opened_tunnel early [])"
proof -
  note defs = new_tunnel_def opened_tunnel_def new_tcp_request_def
  let ?c1 = "(new_tcp_request early)\<lparr>tr_main := Requesting, tr_errors := ReadingErrors\<rparr>"
  let ?c2 = "?c1\<lparr>tr_main := SelectingDone, tr_down := DownCopying, tr_up := UpCopying\<rparr>"
  have "tunnel_step (new_tunnel early) ((new_tunnel early)\<lparr>tu_client := ?c1\<rparr>)"
    using ClientStep [OF StreamsCreated, of "new_tunnel early"] by (simp add: defs)
  moreover have "tunnel_step ((new_tunnel early)\<lparr>tu_client := ?c1\<rparr>) ((new_tunnel early)\<lparr>tu_client := ?c2\<rparr>)"
    using ClientStep [OF RequestAccepted, of "(new_tunnel early)\<lparr>tu_client := ?c1\<rparr>"] by (simp add: defs)
  moreover have "(new_tunnel early)\<lparr>tu_client := ?c2\<rparr> = opened_tunnel early []" by (simp add: defs)
  ultimately show ?thesis
    unfolding tunnel_reachable_def by (metis rtranclp.rtrancl_into_rtrancl rtranclp.rtrancl_refl)
qed

lemma opened_tunnel_steps: "tunnel_step\<^sup>*\<^sup>* (opened_tunnel early []) t \<Longrightarrow> tunnel_reachable early t"
  using opened_tunnel_reachable unfolding tunnel_reachable_def by (rule rtranclp_trans)

lemma example_tunnel_opened: "tunnel_step\<^sup>*\<^sup>* (opened_tunnel [71] []) example_tunnel"
proof -
  note defs = opened_tunnel_def new_tcp_request_def new_tcp_conn_def
  let ?t0 = "opened_tunnel [71] []"
  let ?c3 = "upd_end Down (\<lambda>c. c\<lparr>tc_eof := True\<rparr>) (tu_client ?t0)"
  let ?c4 = "upd_end Up (\<lambda>c. c\<lparr>tc_out := tc_out c @ [71]\<rparr>) (upd_end Down (\<lambda>c. c\<lparr>tc_in := []\<rparr>) ?c3)"
  let ?c5 = "?c4\<lparr>tr_up := UpClosing True\<rparr>"
  let ?c6 = "(upd_end Up (\<lambda>c. c\<lparr>tc_closed := True\<rparr>) ?c5)\<lparr>tr_up := UpDone True\<rparr>"
  have step: "tunnel_step\<^sup>*\<^sup>* ?t0 (?t0\<lparr>tu_client := c'\<rparr>)"
    if "tunnel_step\<^sup>*\<^sup>* ?t0 (?t0\<lparr>tu_client := c\<rparr>)" "request_step own c c'"
      "tc_sent (tr_conn c' Up) = tc_sent (tr_conn c Up)" "tc_eof (tr_conn c' Up) = tc_eof (tr_conn c Up)" for own c c'
    using rtranclp.rtrancl_into_rtrancl [OF that(1) ClientStep, of own c'] that(2-4) by simp
  have "tunnel_step\<^sup>*\<^sup>* ?t0 (?t0\<lparr>tu_client := tu_client ?t0\<rparr>)" by simp
  then have "tunnel_step\<^sup>*\<^sup>* ?t0 (?t0\<lparr>tu_client := ?c3\<rparr>)"
    by (rule step [OF _ request_step.PeerCloses]) simp_all
  then have "tunnel_step\<^sup>*\<^sup>* ?t0 (?t0\<lparr>tu_client := ?c4\<rparr>)"
    by (rule step [OF _ CopyUp]) (simp_all add: defs)
  then have "tunnel_step\<^sup>*\<^sup>* ?t0 (?t0\<lparr>tu_client := ?c5\<rparr>)"
    by (rule step [OF _ CopyUpEnds]) (simp_all add: defs)
  then have "tunnel_step\<^sup>*\<^sup>* ?t0 (?t0\<lparr>tu_client := ?c6\<rparr>)"
    by (rule step [OF _ CloseStream]) simp_all
  moreover have "?c6 = example_client"
    by (auto simp: example_client_def upd_end_def defs split: side.split)
  ultimately show ?thesis by (simp add: example_tunnel_def opened_tunnel_def)
qed

lemmas example_tunnel_client = opened_tunnel_steps [OF example_tunnel_opened]

theorem tunnel_bytes_witness:
  "tc_sent (tr_conn (tu_client example_tunnel) Down) = [71] \<and>
   drop (length (server_in example_tunnel)) (stream_out example_tunnel) = [71]"
  using tunnel_bytes [OF example_tunnel_client]
  by (simp add: example_tunnel_def example_client_def new_tcp_proxy_def new_tcp_conn_def)

end
