(* ===== verification/Closing.thy ===== *)
theory Closing
  imports Tunnel
begin

text \<open>
  What the two programs and the stream between them come to by themselves, whatever order they run in:
  what the application sends is written to the destination while both copies run, and once one of the
  two ends of a TCP tunnel has closed, the tunnel is taken down on both sides. A \<open>Write\<close> takes as long as
  its peer lets it take, so each waits until it is accepted, of which nothing is assumed.
\<close>

section \<open>Writes that wait\<close>

text \<open>A write of the client's or of the server's copies, to the connection of the given side.\<close>

datatype tunnel_write = ClientWrites side | ServerWrites side

text \<open>A copy has bytes for a connection that is open.\<close>

fun client_waits :: "tcp_request \<Rightarrow> side \<Rightarrow> bool" where
  "client_waits r Down = (tr_down r = DownCopying \<and> tc_in (tr_conn r Up) \<noteq> [] \<and> \<not> tc_closed (tr_conn r Down))"
| "client_waits r Up = (tr_up r = UpCopying \<and> tc_in (tr_conn r Down) \<noteq> [] \<and> \<not> tc_closed (tr_conn r Down))"

definition server_waits :: "tcp_proxy \<Rightarrow> side \<Rightarrow> bool" where
  "server_waits p s \<longleftrightarrow> tp_broker p (other s) = Copying \<and> tc_in (tp_conn p (other s)) \<noteq> [] \<and>
     \<not> tc_closed (tp_conn p (other s)) \<and> \<not> tc_closed (tp_conn p s)"

definition held_up :: "(tunnel \<Rightarrow> tunnel_write \<Rightarrow> bool) \<Rightarrow> tunnel \<Rightarrow> bool" where
  "held_up accepts t \<longleftrightarrow> (\<exists>s. client_waits (tu_client t) s \<and> \<not> accepts t (ClientWrites s) \<or>
     server_waits (tu_server t) s \<and> \<not> accepts t (ServerWrites s))"

text \<open>
  The steps of \<open>Tunnel\<close> that the programs and the stream make without the application, the destination or a
  failure; those that write are made only when the write is accepted.
\<close>

inductive tunnel_runs :: "(tunnel \<Rightarrow> tunnel_write \<Rightarrow> bool) \<Rightarrow> tunnel \<Rightarrow> tunnel \<Rightarrow> bool" for accepts where
  ClientRuns: "request_step True (tu_client t) r \<Longrightarrow>
    \<forall>s. tc_out (tr_conn r s) \<noteq> tc_out (tr_conn (tu_client t) s) \<longrightarrow> accepts t (ClientWrites s) \<Longrightarrow>
    tunnel_runs accepts t (t\<lparr>tu_client := r\<rparr>)"
| ServerRuns: "proxy_step True (tu_server t) p \<Longrightarrow>
    \<forall>s. tc_out (tp_conn p s) \<noteq> tc_out (tp_conn (tu_server t) s) \<longrightarrow> accepts t (ServerWrites s) \<Longrightarrow>
    tunnel_runs accepts t (t\<lparr>tu_server := p\<rparr>)"
| UpArrives: "stream_out t = server_in t @ bs @ rest \<Longrightarrow> bs \<noteq> [] \<Longrightarrow> \<not> tc_eof (tp_conn (tu_server t) Down) \<Longrightarrow>
    tunnel_runs accepts t (t\<lparr>tu_server := upd_conn Down (arrives bs) (tu_server t)\<rparr>)"
| UpEnds: "stream_out t = server_in t \<Longrightarrow> tc_closed (tr_conn (tu_client t) Up) \<Longrightarrow>
    \<not> tc_eof (tp_conn (tu_server t) Down) \<Longrightarrow> tunnel_runs accepts t (t\<lparr>tu_server := upd_conn Down ends (tu_server t)\<rparr>)"
| DownArrives: "server_out t = stream_in t @ bs @ rest \<Longrightarrow> bs \<noteq> [] \<Longrightarrow> \<not> tc_eof (tr_conn (tu_client t) Up) \<Longrightarrow>
    tunnel_runs accepts t (t\<lparr>tu_client := upd_end Up (arrives bs) (tu_client t)\<rparr>)"
| DownEnds: "server_out t = stream_in t \<Longrightarrow> tc_closed (tp_conn (tu_server t) Down) \<Longrightarrow>
    \<not> tc_eof (tr_conn (tu_client t) Up) \<Longrightarrow> tunnel_runs accepts t (t\<lparr>tu_client := upd_end Up ends (tu_client t)\<rparr>)"

inductive_cases tunnel_runsE: "tunnel_runs accepts t u"

text \<open>A step of one of the programs can be made, unless it is a write that waits.\<close>

lemma client_write_waits:
  assumes "request_step True r q" and "tc_out (tr_conn q s) \<noteq> tc_out (tr_conn r s)"
  shows "client_waits r s"
  using assms by (cases rule: request_step.cases; cases s) auto

lemma server_write_waits:
  assumes "proxy_step True p q" and "tc_out (tp_conn q s) \<noteq> tc_out (tp_conn p s)"
  shows "server_waits p s"
  using assms by (cases rule: proxy_step.cases) (auto simp: server_waits_def split: if_splits)

lemma client_runs_or_waits:
  assumes "request_step True (tu_client t) r"
  shows "held_up accepts t \<or> (\<exists>u. tunnel_runs accepts t u)"
  using ClientRuns [OF assms] client_write_waits [OF assms] unfolding held_up_def by blast

lemma server_runs_or_waits:
  assumes "proxy_step True (tu_server t) p"
  shows "held_up accepts t \<or> (\<exists>u. tunnel_runs accepts t u)"
  using ServerRuns [OF assms] server_write_waits [OF assms] unfolding held_up_def by blast

lemma own_leaves_input:
  "request_step True r q \<Longrightarrow> tc_sent (tr_conn q s) = tc_sent (tr_conn r s) \<and> tc_eof (tr_conn q s) = tc_eof (tr_conn r s)"
  by (erule request_stepE) auto

lemma own_leaves_server_input:
  "proxy_step True p q \<Longrightarrow> tc_sent (tp_conn q s) = tc_sent (tp_conn p s) \<and> tc_eof (tp_conn q s) = tc_eof (tp_conn p s)"
  by (erule proxy_stepE) auto

lemma tunnel_runs_step: "tunnel_runs accepts t u \<Longrightarrow> tunnel_step t u \<and> tu_lost u = tu_lost t"
  by (erule tunnel_runsE) (auto intro: tunnel_step.intros dest: own_leaves_input own_leaves_server_input)

section \<open>What is left to do\<close>

text \<open>A byte is copied, carried by the stream and copied again: it counts three times, twice, and once.\<close>

definition tunnel_rank :: "tunnel \<Rightarrow> nat" where
  "tunnel_rank t =
     request_rank (tu_client t) + 2 * length (tc_in (tr_conn (tu_client t) Down)) +
       2 * (length (stream_out t) - length (server_in t)) + (if tc_eof (tr_conn (tu_client t) Up) then 0 else 1) +
     (proxy_rank (tu_server t) + 2 * length (tc_in (tp_conn (tu_server t) Up)) +
       2 * (length (server_out t) - length (stream_in t)) + (if tc_eof (tp_conn (tu_server t) Down) then 0 else 1))"

lemma client_rank_step:
  assumes "request_step True r q"
  shows "request_rank q + 2 * length (tc_in (tr_conn q Down)) + 2 * (length (tc_out (tr_conn q Up)) - n) <
    request_rank r + 2 * length (tc_in (tr_conn r Down)) + 2 * (length (tc_out (tr_conn r Up)) - n)"
  using assms by (cases rule: request_step.cases) (auto simp: request_rank_def neq_Nil_conv)

lemma server_rank_step:
  assumes "proxy_step True p q"
  shows "proxy_rank q + 2 * length (tc_in (tp_conn q Up)) + 2 * (length (tc_out (tp_conn q Down)) - n) <
    proxy_rank p + 2 * length (tc_in (tp_conn p Up)) + 2 * (length (tc_out (tp_conn p Down)) - n)"
  using assms
proof (cases rule: proxy_step.cases)
  case (Copy s bs rest)
  with proxy_rank_step [OF assms] show ?thesis by (cases s) (auto simp: proxy_rank_def neq_Nil_conv)
next
  case (CloseSource s clean)
  with proxy_rank_step [OF assms] show ?thesis by (cases s) auto
next
  case (Select s)
  with proxy_rank_step [OF assms] show ?thesis by (cases s) auto
qed (use proxy_rank_step [OF assms] in auto)

lemma tunnel_rank_step:
  assumes "tunnel_runs accepts t u"
  shows "tunnel_rank u < tunnel_rank t"
  using assms
proof (cases rule: tunnel_runs.cases)
  case (ClientRuns r)
  with client_rank_step [OF ClientRuns(2), of "length (server_in t)"] own_leaves_input [OF ClientRuns(2), of Up]
  show ?thesis by (simp add: tunnel_rank_def)
next
  case (ServerRuns p)
  with server_rank_step [OF ServerRuns(2), of "length (stream_in t)"] own_leaves_server_input [OF ServerRuns(2), of Down]
  show ?thesis by (simp add: tunnel_rank_def)
qed (auto simp: tunnel_rank_def request_rank_def proxy_rank_def arrives_def ends_def neq_Nil_conv)

section \<open>Something can always be done\<close>

text \<open>One of the ends has closed: a copy of the server has ended, or the client's from the application.\<close>

definition tunnel_ending :: "tunnel \<Rightarrow> bool" where
  "tunnel_ending t \<longleftrightarrow> copying_started (tu_client t) \<and> tr_errors (tu_client t) \<noteq> ReadingErrors \<and>
     ((\<exists>s. tp_broker (tu_server t) s \<noteq> Copying) \<or> tr_up (tu_client t) \<noteq> UpCopying)"

definition tunnel_over :: "tunnel \<Rightarrow> bool" where
  "tunnel_over t \<longleftrightarrow> proxy_over (tu_server t) \<and> request_cleaned (tu_client t) \<and>
     (\<exists>clean. tr_down (tu_client t) = DownDone clean)"

lemma tunnel_ending_step:
  assumes "tunnel_runs accepts t u" and "tunnel_ending t"
  shows "tunnel_ending u"
  using assms(1)
proof (cases rule: tunnel_runs.cases)
  case (ClientRuns r)
  have "copying_started r \<and> tr_errors r \<noteq> ReadingErrors \<and> (tr_up (tu_client t) \<noteq> UpCopying \<longrightarrow> tr_up r \<noteq> UpCopying)"
    using ClientRuns(2) assms(2)
    by (cases rule: request_step.cases) (auto simp: tunnel_ending_def copying_started_def)
  with ClientRuns assms(2) show ?thesis by (auto simp: tunnel_ending_def)
next
  case (ServerRuns p)
  with assms(2) broker_ended_step [OF ServerRuns(2)] show ?thesis by (auto simp: tunnel_ending_def)
qed (use assms(2) in \<open>auto simp: tunnel_ending_def copying_started_def\<close>)

lemma server_end_goes_on:
  assumes "open_ok p" and "tp_broker p s = Copying" and "tc_eof (tp_conn p s)" and "tp_broker p (other s) = Copying"
  shows "\<exists>q. proxy_step True p q"
proof (cases "tc_in (tp_conn p s)")
  case Nil
  from CopyEnds [OF assms(2) this assms(3)] show ?thesis by blast
next
  case (Cons b bs)
  have "\<not> tc_closed (tp_conn p s)" "\<not> tc_closed (tp_conn p (other s))"
    using assms(1,2,4) by (auto simp: open_ok_def)
  with Copy [OF assms(2), of "tc_in (tp_conn p s)" "[]"] Cons show ?thesis by auto
qed

lemma client_end_goes_on:
  assumes "tr_down r = DownCopying" and "tc_eof (tr_conn r Up)"
  shows "\<exists>q. request_step True r q"
proof (cases "tc_in (tr_conn r Up)")
  case Nil
  from CopyDownEnds [OF assms(1) this assms(2)] show ?thesis by blast
next
  case (Cons b bs)
  then show ?thesis
    using CopyDown [OF assms(1), of "tc_in (tr_conn r Up)" "[]"] CopyDownClosed [OF assms(1)] by auto
qed

text \<open>A stream whose writer has closed it brings the rest, and its end.\<close>

lemma up_stream_goes_on:
  assumes "wire_ok t" and "tc_closed (tr_conn (tu_client t) Up)" and "\<not> tc_eof (tp_conn (tu_server t) Down)"
  shows "\<exists>u. tunnel_runs accepts t u"
proof -
  obtain rest where "stream_out t = server_in t @ rest" using assms(1) by (auto simp: wire_ok_def prefix_def)
  then show ?thesis
    using UpArrives [of t rest "[]" accepts] UpEnds [of t accepts] assms(2,3) by (cases "rest = []") auto
qed

lemma down_stream_goes_on:
  assumes "wire_ok t" and "tc_closed (tp_conn (tu_server t) Down)" and "\<not> tc_eof (tr_conn (tu_client t) Up)"
  shows "\<exists>u. tunnel_runs accepts t u"
proof -
  obtain rest where "server_out t = stream_in t @ rest" using assms(1) by (auto simp: wire_ok_def prefix_def)
  then show ?thesis
    using DownArrives [of t rest "[]" accepts] DownEnds [of t accepts] assms(2,3) by (cases "rest = []") auto
qed

text \<open>Up to the end of the server.\<close>

lemma server_part_goes_on:
  assumes "tunnel_reachable early t" and "tunnel_ending t" and "\<not> proxy_over (tu_server t)"
  shows "held_up accepts t \<or> (\<exists>u. tunnel_runs accepts t u)"
proof (cases "\<exists>s. tp_broker (tu_server t) s \<noteq> Copying")
  case True
  have "proxy_reachable [] (tu_server t)" using tunnel_invariant [OF assms(1)] by blast
  with True assms(3) proxy_goes_on_to_end [of "tu_server t"] show ?thesis
    using proxy_invariant closed_reachable by (blast dest: server_runs_or_waits)
next
  case False
  note inv = tunnel_invariant [OF assms(1)]
  have up: "tr_up (tu_client t) \<noteq> UpCopying" "tr_up (tu_client t) \<noteq> UpNotStarted"
    using assms(2) False by (auto simp: tunnel_ending_def copying_started_def)
  show ?thesis
  proof (cases "\<exists>clean. tr_up (tu_client t) = UpDone clean")
    case True
    with inv have "tc_closed (tr_conn (tu_client t) Up)"
      using request_invariant by (blast dest: request_signals_ok_def [THEN iffD1])
    moreover have "\<exists>q. proxy_step True (tu_server t) q" if "tc_eof (tp_conn (tu_server t) Down)"
      by (rule server_end_goes_on [OF _ _ that]) (use inv open_reachable False in auto)
    ultimately show ?thesis using up_stream_goes_on inv by (blast dest: server_runs_or_waits)
  next
    case False
    with up show ?thesis
      by (cases "tr_up (tu_client t)") (auto dest: SignalError CloseStream dest: client_runs_or_waits)
  qed
qed

text \<open>And from there to that of the client.\<close>

lemma client_part_goes_on:
  assumes "tunnel_reachable early t" and "tunnel_ending t" and "proxy_over (tu_server t)" and "\<not> tunnel_over t"
  shows "held_up accepts t \<or> (\<exists>u. tunnel_runs accepts t u)"
proof (cases "tr_down (tu_client t) = DownCopying")
  case True
  have "tc_closed (tp_conn (tu_server t) Down)" using assms(3) by (simp add: proxy_over_def finished_def)
  then show ?thesis
    using down_stream_goes_on client_end_goes_on [OF True] tunnel_invariant [OF assms(1)] by (blast dest: client_runs_or_waits)
next
  case False
  have "request_ok (tu_client t)"
    using tunnel_invariant [OF assms(1)] request_invariant unfolding request_ok_def by blast
  with False assms(2) have "request_ending (tu_client t)" "tr_down (tu_client t) \<noteq> DownNotStarted"
    by (auto simp: request_ending_def tunnel_ending_def request_ok_def request_signals_ok_def)
  then have "\<exists>q. request_step True (tu_client t) q"
    using request_goes_on_to_end down_goes_on [of "tu_client t"] False assms(3,4) unfolding tunnel_over_def by blast
  then show ?thesis by (blast dest: client_runs_or_waits)
qed

section \<open>What has come through by then\<close>

text \<open>
  The destination has sent everything and closed: the server's copy from it has seen the end, and the
  client's copy to the application is running or has seen the end of the stream, with no failure of the
  copy in the other direction that would make the client leave first.
\<close>

definition dest_finished :: "tunnel \<Rightarrow> bool" where
  "dest_finished t \<longleftrightarrow>
     (tp_broker (tu_server t) Up = Copied True \<or> tp_broker (tu_server t) Up = BrokerDone True) \<and>
     tr_up (tu_client t) \<noteq> UpFailed \<and> \<not> tr_localError (tu_client t) \<and>
     (tr_down (tu_client t) = DownCopying \<or> tr_down (tu_client t) = DownCopied True \<or>
      tr_down (tu_client t) = DownDone True)"

text \<open>
  The application has sent everything and closed its sending direction: the client's copy from it has
  seen the end, and the server's copy has too, or is running while the destination is open.
\<close>

definition app_finished :: "tunnel \<Rightarrow> bool" where
  "app_finished t \<longleftrightarrow>
     (tr_up (tu_client t) = UpClosing True \<or> tr_up (tu_client t) = UpDone True) \<and>
     (tp_broker (tu_server t) Down = Copied True \<or> tp_broker (tu_server t) Down = BrokerDone True \<or>
      tp_broker (tu_server t) Down = Copying \<and> tp_broker (tu_server t) Up = Copying \<and>
      \<not> tc_eof (tp_conn (tu_server t) Up))"

lemma dest_finished_client:
  assumes "request_step True r q" and "request_main_ok r" and "request_signals_ok r" and "copying_started r"
    and "tr_up r \<noteq> UpFailed" and "\<not> tr_localError r"
    and "tr_down r = DownCopying \<or> tr_down r = DownCopied True \<or> tr_down r = DownDone True"
  shows "tr_up q \<noteq> UpFailed \<and> \<not> tr_localError q \<and>
    (tr_down q = DownCopying \<or> tr_down q = DownCopied True \<or> tr_down q = DownDone True)"
  using assms(1)
proof (cases rule: request_step.cases)
  case CopyDownClosed
  then have "\<not> tr_remoteDone r" "tr_main r = RequestReturned" using assms(3) by (auto simp: request_signals_ok_def)
  with assms(2,4,6) show ?thesis by (simp add: request_main_ok_def)
qed (use assms(5-7) in auto)

lemma dest_finished_step:
  assumes "tunnel_runs accepts t u" and "tunnel_reachable early t" and "copying_started (tu_client t)" and "dest_finished t"
  shows "dest_finished u"
  using assms(1)
proof (cases rule: tunnel_runs.cases)
  case (ClientRuns r)
  have "request_main_ok (tu_client t)" "request_signals_ok (tu_client t)"
    using tunnel_invariant [OF assms(2)] request_invariant by blast+
  from dest_finished_client [OF ClientRuns(2) this assms(3)] ClientRuns(1) assms(4) show ?thesis
    by (simp add: dest_finished_def)
next
  case (ServerRuns p)
  have "tp_broker p Up = Copied True \<or> tp_broker p Up = BrokerDone True"
    using ServerRuns(2) assms(4) by (cases rule: proxy_step.cases) (auto simp: dest_finished_def)
  with ServerRuns assms(4) show ?thesis by (simp add: dest_finished_def)
qed (use assms(4) in \<open>auto simp: dest_finished_def\<close>)

lemma app_finished_server:
  assumes "proxy_step True p q" and "open_ok p"
    and "tp_broker p Down = Copied True \<or> tp_broker p Down = BrokerDone True \<or>
      tp_broker p Down = Copying \<and> tp_broker p Up = Copying \<and> \<not> tc_eof (tp_conn p Up)"
  shows "tp_broker q Down = Copied True \<or> tp_broker q Down = BrokerDone True \<or>
    tp_broker q Down = Copying \<and> tp_broker q Up = Copying \<and> \<not> tc_eof (tp_conn q Up)"
  using assms(1)
proof (cases rule: proxy_step.cases)
  case (CopyEnds s)
  with assms(3) show ?thesis by (cases s) auto
next
  case (CopyShut s)
  with assms(2) have "tp_broker p (other s) \<noteq> Copying" by (simp add: open_ok_def)
  with CopyShut assms(3) show ?thesis by (cases s) auto
next
  case (CloseSource s clean)
  with assms(3) show ?thesis by (cases s) auto
qed (use assms(3) in auto)

lemma app_finished_step:
  assumes "tunnel_runs accepts t u" and "tunnel_reachable early t" and "app_finished t"
  shows "app_finished u"
  using assms(1)
proof (cases rule: tunnel_runs.cases)
  case (ClientRuns r)
  have "tr_up r = UpClosing True \<or> tr_up r = UpDone True"
    using ClientRuns(2) assms(3) by (cases rule: request_step.cases) (auto simp: app_finished_def)
  with ClientRuns assms(3) show ?thesis by (simp add: app_finished_def)
next
  case (ServerRuns p)
  have "open_ok (tu_server t)" using tunnel_invariant [OF assms(2)] open_reachable by blast
  from app_finished_server [OF ServerRuns(2) this] ServerRuns(1) assms(3) show ?thesis
    by (simp add: app_finished_def)
qed (use assms(3) in \<open>auto simp: app_finished_def\<close>)

text \<open>What the two ends have sent does not change.\<close>

lemma tunnel_runs_sent:
  assumes "tunnel_runs accepts t u"
  shows "tc_sent (tr_conn (tu_client u) Down) = tc_sent (tr_conn (tu_client t) Down) \<and>
    tc_sent (tp_conn (tu_server u) Up) = tc_sent (tp_conn (tu_server t) Up)"
  using assms by (cases rule: tunnel_runs.cases) (auto dest: own_leaves_input own_leaves_server_input)

lemma over_complete:
  assumes "tunnel_reachable early u" and "\<not> tu_lost u" and "tunnel_over u"
  shows "(dest_finished u \<longrightarrow> tc_out (tr_conn (tu_client u) Down) = tc_sent (tp_conn (tu_server u) Up))
    \<and> (app_finished u \<longrightarrow> tc_out (tp_conn (tu_server u) Up) = tc_sent (tr_conn (tu_client u) Down))"
  using tunnel_complete [OF assms(1,2)] assms(3)
  by (auto simp: dest_finished_def app_finished_def tunnel_over_def proxy_over_def finished_def request_cleaned_def)

section \<open>What is sent while both copies run\<close>

text \<open>
  The direction to the destination is open: both programs copy, or the client's copy has ended cleanly, and
  the destination has not closed its side.
\<close>

definition app_flows :: "tunnel \<Rightarrow> bool" where
  "app_flows t \<longleftrightarrow>
     (tr_up (tu_client t) = UpCopying \<or> tr_up (tu_client t) = UpClosing True \<or> tr_up (tu_client t) = UpDone True) \<and>
     tr_main (tu_client t) = SelectingDone \<and> tr_down (tu_client t) = DownCopying \<and> \<not> tr_localError (tu_client t) \<and>
     tp_broker (tu_server t) Down = Copying \<and> tp_broker (tu_server t) Up = Copying \<and>
     \<not> tc_eof (tp_conn (tu_server t) Up)"

abbreviation all_written :: "tunnel \<Rightarrow> bool" where
  "all_written t \<equiv> tc_out (tp_conn (tu_server t) Up) = tc_sent (tr_conn (tu_client t) Down)"

lemma app_flows_client:
  assumes "request_step True r q" and "request_main_ok r" and "request_signals_ok r"
    and "tr_main r = SelectingDone" and "tr_down r = DownCopying" and "\<not> tr_localError r" and "\<not> tc_eof (tr_conn r Up)"
    and "tr_up r = UpCopying \<or> tr_up r = UpClosing True \<or> tr_up r = UpDone True"
  shows "tr_main q = SelectingDone \<and> tr_down q = DownCopying \<and> \<not> tr_localError q \<and>
    (tr_up q = UpCopying \<or> tr_up q = UpClosing True \<or> tr_up q = UpDone True)"
  using assms by (cases rule: request_step.cases) (auto simp: request_signals_ok_def)

text \<open>When the server has seen the end of the stream, everything has been written.\<close>

lemma server_end_written:
  assumes "tunnel_reachable early t" and "\<not> tu_lost t" and "app_flows t"
    and "tc_eof (tp_conn (tu_server t) Down)" and "tc_in (tp_conn (tu_server t) Down) = []"
  shows "all_written t"
proof -
  note inv = tunnel_invariant [OF assms(1)]
  have "tc_closed (tr_conn (tu_client t) Up)" "server_in t = stream_out t"
    using inv assms(2,4) by (auto simp: wire_ok_def)
  moreover have "request_signals_ok (tu_client t)" "request_bytes_ok (tu_client t)" using inv request_invariant by blast+
  ultimately have "tr_up (tu_client t) = UpDone True" "tc_in (tr_conn (tu_client t) Down) = []"
    using assms(3) by (auto simp: app_flows_def request_signals_ok_def request_bytes_ok_def)
  with tunnel_up.through [OF assms(1)] assms(5) \<open>server_in t = stream_out t\<close> show ?thesis by simp
qed

lemma app_flows_step:
  assumes "tunnel_runs accepts t u" and "tunnel_reachable early t" and "\<not> tu_lost t" and "app_flows t"
  shows "app_flows u \<or> all_written u"
  using assms(1)
proof (cases rule: tunnel_runs.cases)
  case (ClientRuns r)
  note inv = tunnel_invariant [OF assms(2)]
  have "\<not> tc_eof (tr_conn (tu_client t) Up)"
    using inv assms(3,4) open_reachable [of "[]" "tu_server t"] by (auto simp: wire_ok_def app_flows_def open_ok_def)
  then have "app_flows u"
    using app_flows_client [OF ClientRuns(2)] ClientRuns(1) request_invariant inv assms(4)
    unfolding app_flows_def by auto
  then show ?thesis ..
next
  case (ServerRuns p)
  have "open_ok (tu_server t)" "main_ok (tu_server t)"
    using tunnel_invariant [OF assms(2)] open_reachable proxy_invariant by blast+
  from ServerRuns(2) show ?thesis
  proof (cases rule: proxy_step.cases)
    case (CopyEnds s)
    have s: "s = Down" using CopyEnds(4) assms(4) by (cases s) (auto simp: app_flows_def)
    with server_end_written [OF assms(2-4)] CopyEnds ServerRuns(1) show ?thesis by simp
  next
    case (CopyShut s)
    with \<open>open_ok (tu_server t)\<close> assms(4) show ?thesis
      by (cases s) (auto simp: open_ok_def app_flows_def)
  next
    case (Select s)
    with assms(4) show ?thesis by (cases s) (auto simp: app_flows_def)
  next
    case (CloseSource s clean)
    with assms(4) show ?thesis by (cases s) (auto simp: app_flows_def)
  next
    case (Return s)
    with \<open>main_ok (tu_server t)\<close> assms(4) show ?thesis by (cases s) (auto simp: main_ok_def app_flows_def)
  next
    case (Copy s bs rest)
    with ServerRuns(1) assms(4) show ?thesis by (cases s) (auto simp: app_flows_def)
  qed simp_all
qed (use assms(4) in \<open>auto simp: app_flows_def\<close>)

lemma app_flows_goes_on:
  assumes "tunnel_reachable early t" and "\<not> tu_lost t" and "app_flows t" and "\<not> all_written t"
  shows "held_up accepts t \<or> (\<exists>u. tunnel_runs accepts t u)"
proof -
  note inv = tunnel_invariant [OF assms(1)]
  have o: "\<not> tc_closed (tp_conn (tu_server t) Down)" "\<not> tc_closed (tp_conn (tu_server t) Up)"
    using inv open_reachable [of "[]" "tu_server t"] assms(3) by (auto simp: app_flows_def open_ok_def)
  have c: "\<not> tc_closed (tr_conn (tu_client t) Down)"
    using inv request_invariant assms(3) by (auto simp: app_flows_def request_signals_ok_def)
  have "tc_in (tp_conn (tu_server t) Down) \<noteq> [] \<or> drop (length (server_in t)) (stream_out t) \<noteq> [] \<or>
      tc_in (tr_conn (tu_client t) Down) \<noteq> []"
    using tunnel_up.through [OF assms(1)] assms(4) by auto
  then consider "tc_in (tp_conn (tu_server t) Down) \<noteq> []" | "tc_in (tp_conn (tu_server t) Down) = []" "\<not> tc_eof (tp_conn (tu_server t) Down)"
      "drop (length (server_in t)) (stream_out t) \<noteq> []"
    | "tc_in (tr_conn (tu_client t) Down) \<noteq> []"
    using server_end_written [OF assms(1-3)] assms(4) by blast
  then show ?thesis
  proof cases
    case 1
    have "\<exists>q. proxy_step True (tu_server t) q"
      using Copy [of "tu_server t" Down "tc_in (tp_conn (tu_server t) Down)" "[]"] 1 o assms(3) by (auto simp: app_flows_def)
    then show ?thesis using server_runs_or_waits by blast
  next
    case 2
    have "stream_out t = server_in t @ drop (length (server_in t)) (stream_out t) @ []"
      using inv by (auto simp: wire_ok_def prefix_def)
    from UpArrives [OF this 2(3,2)] show ?thesis by blast
  next
    case 3
    then have "tr_up (tu_client t) = UpCopying"
      using inv request_invariant assms(3) by (auto simp: app_flows_def request_bytes_ok_def)
    then have "\<exists>q. request_step True (tu_client t) q"
      using CopyUp [of "tu_client t" "tc_in (tr_conn (tu_client t) Down)" "[]"] 3 c by auto
    then show ?thesis using client_runs_or_waits by blast
  qed
qed

lemma all_written_stays:
  assumes "tunnel_runs accepts t u" and "tunnel_reachable early u" and "all_written t"
  shows "all_written u"
proof -
  have "\<exists>bs. tc_out (tp_conn (tu_server u) Up) = tc_out (tp_conn (tu_server t) Up) @ bs"
    using assms(1)
  proof (cases rule: tunnel_runs.cases)
    case (ServerRuns p)
    with proxy_out_grows [OF ServerRuns(2)] show ?thesis by simp
  qed simp_all
  then have "prefix (tc_sent (tr_conn (tu_client u) Down)) (tc_out (tp_conn (tu_server u) Up))"
    using tunnel_runs_sent [OF assms(1)] assms(3) by (auto simp: prefix_def)
  then show ?thesis
    using tunnel_up.whole.in_order [OF assms(2)] by (simp add: prefix_order.eq_iff)
qed

lemma tunnel_delivers:
  assumes "tunnel_reachable early t" and "\<not> tu_lost t" and "app_flows t"
  shows "comes_to (tunnel_runs accepts)
    (\<lambda>u. held_up accepts u \<or> tc_out (tp_conn (tu_server u) Up) = tc_sent (tr_conn (tu_client t) Down)) t"
proof -
  define kept where "kept u \<longleftrightarrow> tunnel_reachable early u \<and> \<not> tu_lost u \<and> (app_flows u \<or> all_written u) \<and>
    tc_sent (tr_conn (tu_client u) Down) = tc_sent (tr_conn (tu_client t) Down)" for u
  have step: "kept v" if "tunnel_runs accepts u v" "kept u" for u v
    using that(2) tunnel_any tunnel_runs_step [OF that(1)] tunnel_runs_sent [OF that(1)]
      app_flows_step [OF that(1)] all_written_stays [OF that(1)] unfolding kept_def by metis
  have "comes_to (tunnel_runs accepts) (\<lambda>u. held_up accepts u \<or> all_written u \<and> kept u) t"
  proof (rule comes_to_measure [where I = kept and measure = tunnel_rank])
    show "kept t" using assms by (simp add: kept_def)
    show "\<exists>v. tunnel_runs accepts u v" if "kept u" "\<not> (held_up accepts u \<or> all_written u \<and> kept u)" for u
      using that app_flows_goes_on unfolding kept_def by blast
  qed (use step tunnel_rank_step in blast)+
  then show ?thesis by (rule comes_to_weaken) (auto simp: kept_def)
qed

section \<open>Properties\<close>

text \<open>
  C17: A tunnel ends with either of its ends: once a copy of the server has ended, or the client's copy
  from the application, and the error stream has ended and the data stream does not break, then
  whatever order the goroutines of both programs run in and the stream delivers in, they come to the
  return of both functions with all connections closed and all goroutines gone, and do not stop
  before, unless one of the copies waits in a \<open>Write\<close> that is not accepted, because its peer does not
  read. If it was the destination that closed, everything it had sent was written to the application
  by then; if it was the application, everything it had sent was written to the destination, unless the
  destination closes too. Nothing is assumed of which writes are accepted, and when; where all are, none
  waits. (Whether what was written arrives is the matter of \<open>Linger\<close>.)
\<close>

theorem tunnel_closes:
  assumes "tunnel_reachable early t" and "\<not> tu_lost t"
    and "copying_started (tu_client t)" and "tr_errors (tu_client t) \<noteq> ReadingErrors"
    and "(\<exists>s. tp_broker (tu_server t) s \<noteq> Copying) \<or> tr_up (tu_client t) \<noteq> UpCopying"
  shows "comes_to (tunnel_runs accepts)
    (\<lambda>u. held_up accepts u \<or> tunnel_over u \<and>
       (dest_finished t \<longrightarrow> tc_out (tr_conn (tu_client u) Down) = tc_sent (tp_conn (tu_server t) Up)) \<and>
       (app_finished t \<longrightarrow> tc_out (tp_conn (tu_server u) Up) = tc_sent (tr_conn (tu_client t) Down))) t"
proof -
  define kept where "kept u \<longleftrightarrow> tunnel_reachable early u \<and> \<not> tu_lost u \<and> tunnel_ending u \<and>
    (dest_finished t \<longrightarrow> dest_finished u) \<and> (app_finished t \<longrightarrow> app_finished u) \<and>
    tc_sent (tr_conn (tu_client u) Down) = tc_sent (tr_conn (tu_client t) Down) \<and>
    tc_sent (tp_conn (tu_server u) Up) = tc_sent (tp_conn (tu_server t) Up)" for u
  have step: "kept v" if "tunnel_runs accepts u v" "kept u" for u v
    using that(2) tunnel_any tunnel_runs_step [OF that(1)] tunnel_ending_step [OF that(1)] tunnel_runs_sent [OF that(1)]
      dest_finished_step [OF that(1)] app_finished_step [OF that(1)] unfolding kept_def tunnel_ending_def by metis
  have "comes_to (tunnel_runs accepts) (\<lambda>u. held_up accepts u \<or> tunnel_over u \<and> kept u) t"
  proof (rule comes_to_measure [where I = kept and measure = tunnel_rank])
    show "kept t" using assms by (simp add: kept_def tunnel_ending_def)
    show "\<exists>v. tunnel_runs accepts u v" if "kept u" "\<not> (held_up accepts u \<or> tunnel_over u \<and> kept u)" for u
      using that server_part_goes_on client_part_goes_on unfolding kept_def by blast
  qed (use step tunnel_rank_step in blast)+
  then show ?thesis by (rule comes_to_weaken) (use over_complete in \<open>auto simp: kept_def\<close>)
qed

text \<open>The application of \<open>Tunnel\<close>, whose byte is on the stream, when the error stream has ended too.\<close>

definition example_closing :: tunnel where
  "example_closing = example_tunnel\<lparr>tu_client := example_client\<lparr>tr_errors := ClosingErrCh False\<rparr>\<rparr>"

lemma example_closing_reachable: "tunnel_reachable [71] example_closing"
proof -
  have "request_step False example_client (example_client\<lparr>tr_errors := ClosingErrCh False\<rparr>)"
    by (rule NoErrorRead [where message = "[]" and err = None])
      (simp_all add: example_client_def error_stream_result_def sandbox_closed_def)
  then have "tunnel_step example_tunnel example_closing"
    unfolding example_closing_def
    using ClientStep [of False example_tunnel "example_client\<lparr>tr_errors := ClosingErrCh False\<rparr>"]
    by (simp add: example_tunnel_def)
  with example_tunnel_client show ?thesis by (rule tunnel_any)
qed

theorem tunnel_closes_witness:
  "comes_to (tunnel_runs (\<lambda>_ _. True)) (\<lambda>u. tunnel_over u \<and> tc_out (tp_conn (tu_server u) Up) = [71]) example_closing"
proof -
  have "\<not> tu_lost example_closing" "copying_started (tu_client example_closing)" "app_finished example_closing"
    "tr_errors (tu_client example_closing) \<noteq> ReadingErrors" "tr_up (tu_client example_closing) \<noteq> UpCopying"
    "tc_sent (tr_conn (tu_client example_closing) Down) = [71]"
    by (simp_all add: example_closing_def example_tunnel_def example_client_def copying_started_def app_finished_def
        new_tcp_proxy_def new_tcp_conn_def)
  with tunnel_closes [OF example_closing_reachable, where accepts = "\<lambda>_ _. True"] show ?thesis
    by (auto simp: held_up_def elim: comes_to_weaken)
qed

end
