(* ===== verification/Ports.thy ===== *)
theory Ports
  imports Go_Strings K8s_Objects
begin

text \<open>
  \<open>pkg/ports\<close>: port pairs (\<open>pair.go\<close>) and the parser of \<open>[LOCAL:]REMOTE[@PROTOCOL]\<close>
  (\<open>parser.go\<close>), which looks up port names and protocols in the target object. Protocols are strings,
  as in the code.
\<close>

definition constProtocolTCP :: string where "constProtocolTCP = ''tcp''"
definition constProtocolUDP :: string where "constProtocolUDP = ''udp''"

lemmas const_protocol_defs = constProtocolTCP_def constProtocolUDP_def

record port_pair =
  LocalPort :: u16
  RemotePort :: u16
  Protocol :: string

record port_with_protocol =
  pwp_Port :: u16
  pwp_Protocol :: string

record ports_in_object =
  Names :: "string \<rightharpoonup> port_with_protocol"
  Protocols :: "u16 \<rightharpoonup> string list"

datatype ports_error =
    UnknownProtocol string
  | InvalidPortFormat string
  | InvalidPort string
  | PortNameNotFound string
  | AmbiguousProtocol u16 "string list"
  | UnknownObject string

section \<open>The ports of an object\<close>

definition no_ports :: ports_in_object where
  "no_ports = \<lparr>Names = Map.empty, Protocols = Map.empty\<rparr>"

text \<open>The body of both loops: the name is overwritten, the protocol appended.\<close>

definition add_port :: "string \<Rightarrow> 32 word \<Rightarrow> string \<Rightarrow> ports_in_object \<Rightarrow> ports_in_object" where
  "add_port name port protocol ret =
     (let po = ucast port :: u16; proto = to_lower protocol in
        ret\<lparr>Names := (Names ret)(name \<mapsto> \<lparr>pwp_Port = po, pwp_Protocol = proto\<rparr>),
            Protocols := (Protocols ret)(po \<mapsto>
              (case Protocols ret po of None \<Rightarrow> [] | Some ps \<Rightarrow> ps) @ [proto])\<rparr>)"

definition add_service_port :: "service_port \<Rightarrow> ports_in_object \<Rightarrow> ports_in_object" where
  "add_service_port p = add_port (sp_Name p) (sp_Port p) (sp_Protocol p)"

definition add_container_port :: "container_port \<Rightarrow> ports_in_object \<Rightarrow> ports_in_object" where
  "add_container_port p = add_port (cp_Name p) (cp_ContainerPort p) (cp_Protocol p)"

definition get_ports_from_pod_spec :: "pod_spec \<Rightarrow> ports_in_object" where
  "get_ports_from_pod_spec podSpec =
     fold (\<lambda>ct. fold add_container_port (ct_Ports ct)) (ps_Containers podSpec) no_ports"

fun get_ports_from_object :: "'sel object \<Rightarrow> ports_error + ports_in_object" where
  "get_ports_from_object (Service s) = Inr (fold add_service_port (svc_Ports s) no_ports)"
| "get_ports_from_object (Pod p) = Inr (get_ports_from_pod_spec (pod_Spec p))"
| "get_ports_from_object (Deployment w) = Inr (get_ports_from_pod_spec (wl_Template w))"
| "get_ports_from_object (StatefulSet w) = Inr (get_ports_from_pod_spec (wl_Template w))"
| "get_ports_from_object (ReplicaSet w) = Inr (get_ports_from_pod_spec (wl_Template w))"
| "get_ports_from_object (DaemonSet w) = Inr (get_ports_from_pod_spec (wl_Template w))"
| "get_ports_from_object (OtherObject t) = Inl (UnknownObject t)"

text \<open>
  What the maps of an object say, without the maps: the ports of a list by name and by number. Each
  declared port is a name, a number and a protocol.
\<close>

type_synonym declared = "string \<times> 32 word \<times> string"

definition declared_service :: "service_port \<Rightarrow> declared" where
  "declared_service p = (sp_Name p, sp_Port p, sp_Protocol p)"

definition declared_container :: "container_port \<Rightarrow> declared" where
  "declared_container p = (cp_Name p, cp_ContainerPort p, cp_Protocol p)"

definition template_ports :: "pod_spec \<Rightarrow> declared list" where
  "template_ports ps = concat (map (\<lambda>ct. map declared_container (ct_Ports ct)) (ps_Containers ps))"

fun declared_ports :: "'sel object \<Rightarrow> declared list" where
  "declared_ports (Service s) = map declared_service (svc_Ports s)"
| "declared_ports (Pod p) = template_ports (pod_Spec p)"
| "declared_ports (Deployment w) = template_ports (wl_Template w)"
| "declared_ports (StatefulSet w) = template_ports (wl_Template w)"
| "declared_ports (ReplicaSet w) = template_ports (wl_Template w)"
| "declared_ports (DaemonSet w) = template_ports (wl_Template w)"
| "declared_ports (OtherObject t) = []"

definition lookup_name :: "declared list \<Rightarrow> string \<Rightarrow> port_with_protocol option" where
  "lookup_name ds n =
     (let es = filter (\<lambda>(m, _, _). m = n) ds in
        if es = [] then None
        else (case last es of (_, po, pr) \<Rightarrow> Some \<lparr>pwp_Port = ucast po, pwp_Protocol = to_lower pr\<rparr>))"

definition lookup_port :: "declared list \<Rightarrow> u16 \<Rightarrow> string list option" where
  "lookup_port ds q =
     (case filter (\<lambda>(_, po, _). ucast po = q) ds of
        [] \<Rightarrow> None
      | es \<Rightarrow> Some (map (\<lambda>(_, _, pr). to_lower pr) es))"

fun add_declared :: "declared \<Rightarrow> ports_in_object \<Rightarrow> ports_in_object" where
  "add_declared (n, po, pr) ret = add_port n po pr ret"

lemma add_service_port_declared: "add_service_port = (\<lambda>p. add_declared (declared_service p))"
  by (simp add: fun_eq_iff add_service_port_def declared_service_def)

lemma add_container_port_declared: "add_container_port = (\<lambda>p. add_declared (declared_container p))"
  by (simp add: fun_eq_iff add_container_port_def declared_container_def)

lemma lookup_name_snoc:
  "lookup_name (ds @ [(n, po, pr)]) =
     (lookup_name ds)(n \<mapsto> \<lparr>pwp_Port = ucast po, pwp_Protocol = to_lower pr\<rparr>)"
  by (auto simp: lookup_name_def fun_eq_iff split: list.splits)

lemma lookup_port_snoc:
  "lookup_port (ds @ [(n, po, pr)]) =
     (lookup_port ds)(ucast po \<mapsto>
        (case lookup_port ds (ucast po) of None \<Rightarrow> [] | Some ps \<Rightarrow> ps) @ [to_lower pr])"
  by (auto simp: lookup_port_def fun_eq_iff split: list.splits)

lemma fold_add_declared:
  "Names (fold add_declared ds no_ports) = lookup_name ds \<and>
   Protocols (fold add_declared ds no_ports) = lookup_port ds"
proof (induction ds rule: rev_induct)
  case Nil
  show ?case by (simp add: no_ports_def lookup_name_def lookup_port_def fun_eq_iff)
next
  case (snoc d ds)
  then show ?case
    by (cases d) (simp add: add_port_def Let_def lookup_name_snoc lookup_port_snoc)
qed

lemma get_ports_from_pod_spec_declared:
  "get_ports_from_pod_spec ps = fold add_declared (template_ports ps) no_ports"
proof -
  have "fold (\<lambda>ct. fold add_container_port (ct_Ports ct)) cs r =
      fold add_declared (concat (map (\<lambda>ct. map declared_container (ct_Ports ct)) cs)) r" for cs r
    by (induction cs arbitrary: r)
      (simp_all add: fold_map comp_def add_container_port_declared)
  then show ?thesis by (simp add: get_ports_from_pod_spec_def template_ports_def)
qed

lemma get_ports_declared:
  "get_ports_from_object obj = Inr po \<Longrightarrow> po = fold add_declared (declared_ports obj) no_ports"
  by (cases obj)
    (auto simp: get_ports_from_pod_spec_declared fold_map comp_def add_service_port_declared)

lemma get_ports_lookup:
  assumes "get_ports_from_object obj = Inr po"
  shows "Names po = lookup_name (declared_ports obj)" and "Protocols po = lookup_port (declared_ports obj)"
  using get_ports_declared [OF assms] fold_add_declared by simp_all

section \<open>The parser\<close>

definition parse_port :: "string \<Rightarrow> ports_error + u16" where
  "parse_port s = (case parse_uint16 s of None \<Rightarrow> Inl (InvalidPort s) | Some p \<Rightarrow> Inr p)"

text \<open>The protocol after \<open>@\<close> (empty when there is none) and the argument before it.\<close>

definition split_proto :: "string \<Rightarrow> ports_error + string \<times> string" where
  "split_proto arg =
     (case index_rune arg (CHR ''@'') of
        None \<Rightarrow> Inr ([], arg)
      | Some protoIdx \<Rightarrow>
          if 0 < protoIdx then
            if protoIdx < length arg - 1 then
              let proto = drop (protoIdx + 1) arg in
                if proto = constProtocolTCP \<or> proto = constProtocolUDP
                then Inr (proto, take protoIdx arg)
                else Inl (UnknownProtocol proto)
            else Inr ([], take protoIdx arg)
          else Inr ([], arg))"

text \<open>The local part (empty when it is to follow the remote port) and the remote part.\<close>

definition split_ports :: "string \<Rightarrow> ports_error + string \<times> string" where
  "split_ports arg =
     (case split_on (CHR '':'') arg of
        [r] \<Rightarrow> Inr ([], r)
      | [l, r] \<Rightarrow> Inr (if l = [] then ''0'' else l, r)
      | _ \<Rightarrow> Inl (InvalidPortFormat arg))"

text \<open>
  The remote port, and the protocol so far (empty when nothing has set it): the second argument is
  the object's ports, \<^const>\<open>None\<close> when the parser has no object.
\<close>

definition remote_port ::
  "string \<Rightarrow> ports_in_object option \<Rightarrow> string \<Rightarrow> ports_error + u16 \<times> string"
where
  "remote_port proto allPorts remoteStr =
     (case parse_port remoteStr of
        Inl err \<Rightarrow>
          (case allPorts of
             None \<Rightarrow> Inl err
           | Some ap \<Rightarrow>
               (case Names ap remoteStr of
                  None \<Rightarrow> Inl (PortNameNotFound remoteStr)
                | Some port \<Rightarrow> Inr (pwp_Port port, if proto = [] then pwp_Protocol port else proto)))
      | Inr remotePort \<Rightarrow>
          (case allPorts of
             None \<Rightarrow> Inr (remotePort, proto)
           | Some ap \<Rightarrow>
               if proto \<noteq> [] then Inr (remotePort, proto)
               else (case Protocols ap remotePort of
                       None \<Rightarrow> Inr (remotePort, proto)
                     | Some protos \<Rightarrow>
                         if 1 < length protos then Inl (AmbiguousProtocol remotePort protos)
                         else Inr (remotePort, protos ! 0))))"

definition parse_arg :: "ports_in_object option \<Rightarrow> string \<Rightarrow> ports_error + port_pair" where
  "parse_arg allPorts arg0 =
     rbind (split_proto arg0) (\<lambda>(proto, arg).
     rbind (split_ports arg) (\<lambda>(localStr, remoteStr).
     rbind (remote_port proto allPorts remoteStr) (\<lambda>(remotePort, proto1).
       let proto2 = (if proto1 = [] then constProtocolTCP else proto1) in
       if localStr = [] then
         Inr \<lparr>LocalPort = remotePort, RemotePort = remotePort, Protocol = proto2\<rparr>
       else
         rbind (parse_port localStr) (\<lambda>l.
           Inr \<lparr>LocalPort = l, RemotePort = remotePort, Protocol = proto2\<rparr>))))"

definition parse_ports :: "string list \<Rightarrow> 'sel object option \<Rightarrow> ports_error + port_pair list" where
  "parse_ports args obj =
     (case obj of
        None \<Rightarrow> traverse (parse_arg None) args
      | Some ob \<Rightarrow> rbind (get_ports_from_object ob) (\<lambda>allPorts. traverse (parse_arg (Some allPorts)) args))"

section \<open>Lemmas about the parser\<close>

lemma parse_port_Inr [simp]: "parse_port s = Inr p \<longleftrightarrow> parse_uint16 s = Some p"
  by (auto simp: parse_port_def split: option.splits)

lemma parse_uint16_plain:
  assumes "parse_uint16 s = Some p"
  shows "s \<noteq> []" "CHR '':'' \<notin> set s" "CHR ''@'' \<notin> set s"
  using parse_uint16_Some_digits [OF assms] by auto

lemma const_protocols_plain [simp]:
  "constProtocolTCP \<noteq> []" "constProtocolUDP \<noteq> []"
  by (simp_all add: const_protocol_defs)

lemma split_proto_none [simp]: "CHR ''@'' \<notin> set a \<Longrightarrow> split_proto a = Inr ([], a)"
  using index_rune_None [of a "CHR ''@''"] by (simp add: split_proto_def)

lemma split_proto_at:
  assumes "CHR ''@'' \<notin> set a" and "a \<noteq> []"
  shows "split_proto (a @ CHR ''@'' # p) =
    (if p = [] then Inr ([], a)
     else if p = constProtocolTCP \<or> p = constProtocolUDP then Inr (p, a)
     else Inl (UnknownProtocol p))"
  using assms by (simp add: split_proto_def index_rune_append)

lemma split_ports_one [simp]: "CHR '':'' \<notin> set r \<Longrightarrow> split_ports r = Inr ([], r)"
  by (simp add: split_ports_def)

lemma split_ports_two [simp]:
  "CHR '':'' \<notin> set l \<Longrightarrow> CHR '':'' \<notin> set r \<Longrightarrow>
     split_ports (l @ CHR '':'' # r) = Inr (if l = [] then ''0'' else l, r)"
  by (simp add: split_ports_def)

lemma split_proto_Inr:
  assumes "split_proto arg = Inr (proto, a)"
  shows "proto = [] \<and> (arg = a \<or> arg = a @ ''@'')
    \<or> (proto = constProtocolTCP \<or> proto = constProtocolUDP) \<and> arg = a @ ''@'' @ proto"
proof (cases "index_rune arg (CHR ''@'')")
  case None
  with assms show ?thesis by (simp add: split_proto_def)
next
  case (Some i)
  then have i: "i < length arg" "arg ! i = CHR ''@''" by (simp_all add: index_rune_Some)
  then have arg: "arg = take i arg @ CHR ''@'' # drop (Suc i) arg"
    using id_take_nth_drop [of i arg] by simp
  show ?thesis
  proof (cases "0 < i \<and> i < length arg - 1")
    case True
    with assms Some have "proto = drop (Suc i) arg" "a = take i arg"
      "proto = constProtocolTCP \<or> proto = constProtocolUDP"
      by (auto simp: split_proto_def Let_def split: if_splits)
    then show ?thesis using arg by simp
  next
    case False
    then have "i = 0 \<or> drop (Suc i) arg = []" using i(1) by auto
    with False assms Some arg show ?thesis
      by (auto simp: split_proto_def split: if_splits)
  qed
qed

lemma split_ports_Inr:
  assumes "split_ports a = Inr (l, r)"
  shows "l = [] \<and> a = r \<or> l = ''0'' \<and> a = '':'' @ r \<or> l \<noteq> [] \<and> a = l @ '':'' @ r"
proof -
  obtain v vs where v: "split_on (CHR '':'') a = v # vs"
    using split_on_not_Nil by (metis neq_Nil_conv)
  with assms consider "vs = []" "l = []" "r = v" | w where "vs = [w]" "l = (if v = [] then ''0'' else v)" "r = w"
    by (auto simp: split_ports_def split: list.splits)
  then show ?thesis
  proof cases
    case 1
    with v show ?thesis by (auto dest: split_on_single)
  next
    case 2
    with v show ?thesis by (auto dest: split_on_pair)
  qed
qed

lemma remote_port_None:
  "remote_port proto None r =
     (case parse_uint16 r of None \<Rightarrow> Inl (InvalidPort r) | Some p \<Rightarrow> Inr (p, proto))"
  by (simp add: remote_port_def parse_port_def split: option.splits)

lemma parse_uint16_zero: "parse_uint16 ''0'' = Some 0"
  by (simp add: parse_uint16_def is_digit_def digit_val_def)

text \<open>A name or a number that is found belongs to a declared port.\<close>

lemma lookup_name_declared:
  assumes "lookup_name ds m = Some w"
  shows "\<exists>n po pr. (n, po, pr) \<in> set ds \<and> ucast po = pwp_Port w \<and> pwp_Protocol w = to_lower pr"
proof -
  let ?es = "filter (\<lambda>(k, _, _). k = m) ds"
  have "?es \<noteq> []" using assms by (auto simp: lookup_name_def Let_def split: if_splits)
  then have last: "last ?es \<in> set ds" using last_in_set [of ?es] by simp
  obtain n po pr where e: "last ?es = (n, po, pr)" by (metis prod_cases3)
  with \<open>?es \<noteq> []\<close> assms have "w = \<lparr>pwp_Port = ucast po, pwp_Protocol = to_lower pr\<rparr>"
    by (simp add: lookup_name_def Let_def)
  with last e show ?thesis by auto
qed

lemma lookup_port_declared:
  assumes "lookup_port ds q = Some protos"
  shows "\<exists>n po pr. (n, po, pr) \<in> set ds \<and> ucast po = q \<and> protos ! 0 = to_lower pr"
proof -
  obtain n po pr es where e: "filter (\<lambda>(_, po, _). ucast po = q) ds = (n, po, pr) # es"
    using assms by (auto simp: lookup_port_def split: list.splits)
  then have "(n, po, pr) \<in> set (filter (\<lambda>(_, po, _). ucast po = q) ds)" by simp
  moreover have "protos ! 0 = to_lower pr"
    using assms e by (auto simp: lookup_port_def)
  ultimately show ?thesis by auto
qed

text \<open>The ports an object offers, none without one.\<close>

fun object_declared :: "'sel object option \<Rightarrow> declared list" where
  "object_declared None = []"
| "object_declared (Some ob) = declared_ports ob"

lemma parse_ports_Inr:
  assumes "parse_ports args obj = Inr ps"
  obtains ap where "list_all2 (\<lambda>arg p. parse_arg ap arg = Inr p) args ps"
    and "\<And>a. ap = Some a \<Longrightarrow>
      Names a = lookup_name (object_declared obj) \<and> Protocols a = lookup_port (object_declared obj)"
proof (cases obj)
  case None
  with assms that [of None] show thesis by (simp add: parse_ports_def traverse_Inr_list_all2)
next
  case (Some ob)
  with assms obtain po where po: "get_ports_from_object ob = Inr po"
    "traverse (parse_arg (Some po)) args = Inr ps" by (auto simp: parse_ports_def rbind_Inr_iff)
  show thesis
    using that [of "Some po"] get_ports_lookup [OF po(1)] po(2) Some
    by (simp add: traverse_Inr_list_all2)
qed

lemma remote_port_proto:
  assumes "remote_port proto ap rs = Inr (rp, proto1)"
    and "\<And>a. ap = Some a \<Longrightarrow> Names a = lookup_name ds \<and> Protocols a = lookup_port ds"
  shows "proto1 = proto \<or> (\<exists>n po pr. (n, po, pr) \<in> set ds \<and> ucast po = rp \<and> proto1 = to_lower pr)"
proof (cases ap)
  case None
  with assms show ?thesis by (simp add: remote_port_None split: option.splits)
next
  case (Some a)
  with assms show ?thesis
    by (auto simp: remote_port_def split: sum.splits option.splits if_splits
        dest: lookup_name_declared lookup_port_declared)
qed

lemma parse_arg_protocol:
  assumes "parse_arg ap arg = Inr p"
    and "\<And>a. ap = Some a \<Longrightarrow> Names a = lookup_name ds \<and> Protocols a = lookup_port ds"
  shows "Protocol p \<noteq> [] \<and> (Protocol p = constProtocolTCP \<or> Protocol p = constProtocolUDP \<or>
      (\<exists>n po pr. (n, po, pr) \<in> set ds \<and> ucast po = RemotePort p \<and> Protocol p = to_lower pr))"
proof -
  obtain proto a rs proto1 where sp: "split_proto arg = Inr (proto, a)"
    and rem: "remote_port proto ap rs = Inr (RemotePort p, proto1)"
    and p: "Protocol p = (if proto1 = [] then constProtocolTCP else proto1)"
    using assms(1) by (auto simp: parse_arg_def rbind_Inr_iff Let_def split: if_splits)
  show ?thesis
    using remote_port_proto [OF rem assms(2)] split_proto_Inr [OF sp] p by auto
qed

section \<open>Properties\<close>

text \<open>
  C3: Without an object the parser accepts exactly the language \<open>[[LOCAL]:]REMOTE[@[tcp|udp]]\<close> of
  decimal 16-bit ports. The local port is the remote one when there is no colon and 0 (a random
  port) when the part before the colon is empty; the protocol is TCP when it is left out.
\<close>

theorem parse_arg_language:
  "parse_arg None arg = Inr \<lparr>LocalPort = lp, RemotePort = rp, Protocol = pr\<rparr> \<longleftrightarrow>
     (\<exists>ls rs suf. arg = ls @ rs @ suf \<and> parse_uint16 rs = Some rp \<and>
        (ls = [] \<and> lp = rp \<or> ls = '':'' \<and> lp = 0 \<or> (\<exists>l. ls = l @ '':'' \<and> parse_uint16 l = Some lp)) \<and>
        ((suf = [] \<or> suf = ''@'') \<and> pr = constProtocolTCP \<or>
         suf = ''@'' @ pr \<and> (pr = constProtocolTCP \<or> pr = constProtocolUDP)))"
  (is "?parses \<longleftrightarrow> ?language")
proof
  assume ?parses
  then obtain proto a l r where sp: "split_proto arg = Inr (proto, a)"
    and sq: "split_ports a = Inr (l, r)" and r: "parse_uint16 r = Some rp"
    and pr: "pr = (if proto = [] then constProtocolTCP else proto)"
    and l: "l = [] \<and> lp = rp \<or> l \<noteq> [] \<and> parse_uint16 l = Some lp"
    by (auto simp: parse_arg_def rbind_Inr_iff remote_port_None Let_def split: option.splits if_splits)
  obtain ls where ls: "a = ls @ r" "ls = [] \<and> lp = rp \<or> ls = '':'' \<and> lp = 0
      \<or> (\<exists>l. ls = l @ '':'' \<and> parse_uint16 l = Some lp)"
    using split_ports_Inr [OF sq] l parse_uint16_zero by force
  have "\<exists>suf. arg = a @ suf \<and> ((suf = [] \<or> suf = ''@'') \<and> pr = constProtocolTCP \<or>
         suf = ''@'' @ pr \<and> (pr = constProtocolTCP \<or> pr = constProtocolUDP))"
    using split_proto_Inr [OF sp] pr by (cases "proto = []") auto
  then obtain suf where suf: "arg = a @ suf" "(suf = [] \<or> suf = ''@'') \<and> pr = constProtocolTCP \<or>
         suf = ''@'' @ pr \<and> (pr = constProtocolTCP \<or> pr = constProtocolUDP)"
    by blast
  show ?language
    by (rule exI [of _ ls], rule exI [of _ r], rule exI [of _ suf]) (simp only: ls r suf append_assoc simp_thms)
next
  assume ?language
  then obtain ls rs suf where arg: "arg = ls @ rs @ suf" and rs: "parse_uint16 rs = Some rp"
    and ls: "ls = [] \<and> lp = rp \<or> ls = '':'' \<and> lp = 0 \<or> (\<exists>l. ls = l @ '':'' \<and> parse_uint16 l = Some lp)"
    and suf: "(suf = [] \<or> suf = ''@'') \<and> pr = constProtocolTCP \<or>
        suf = ''@'' @ pr \<and> (pr = constProtocolTCP \<or> pr = constProtocolUDP)"
    by blast
  note plain = parse_uint16_plain
  have at: "CHR ''@'' \<notin> set (ls @ rs)" "ls @ rs \<noteq> []"
    using ls plain [OF rs] plain(3) by auto
  obtain proto where sp: "split_proto arg = Inr (proto, ls @ rs)"
    and proto: "pr = (if proto = [] then constProtocolTCP else proto)"
    using suf at split_proto_at [OF at] unfolding arg append_assoc [symmetric]
    by (metis append_Nil2 append_Cons append_Nil const_protocols_plain split_proto_none)
  obtain l where sq: "split_ports (ls @ rs) = Inr (l, rs)"
    and l: "l = [] \<and> lp = rp \<or> l \<noteq> [] \<and> parse_uint16 l = Some lp"
    using ls plain [OF rs] plain(1,2) parse_uint16_zero
    by (auto simp: split_ports_two [of "[]", simplified])
  show ?parses
    using sp sq rs proto l by (auto simp: parse_arg_def remote_port_def parse_port_def)
qed

text \<open>The text of a pair with nothing left to find out.\<close>

definition show_pair :: "port_pair \<Rightarrow> string" where
  "show_pair p =
     itoa (unat (LocalPort p)) @ '':'' @ itoa (unat (RemotePort p)) @ ''@'' @ Protocol p"

lemma parse_arg_show_pair:
  assumes "Protocol p = constProtocolTCP \<or> Protocol p = constProtocolUDP"
  shows "parse_arg ap (show_pair p) = Inr p"
proof -
  let ?l = "itoa (unat (LocalPort p))" and ?r = "itoa (unat (RemotePort p))"
  have nc: "c \<notin> set ?l" "c \<notin> set ?r" if "\<not> is_digit c" for c
    using that by (simp_all add: not_digit_itoa)
  have "split_proto ((?l @ CHR '':'' # ?r) @ CHR ''@'' # Protocol p) = Inr (Protocol p, ?l @ CHR '':'' # ?r)"
    using assms nc by (subst split_proto_at) auto
  moreover have "split_ports (?l @ CHR '':'' # ?r) = Inr (?l, ?r)"
    using nc by simp
  ultimately show ?thesis
    using assms by (cases ap)
      (auto simp: parse_arg_def show_pair_def remote_port_def parse_port_def)
qed

text \<open>
  A list of arguments that give local port, remote port and protocol is parsed to exactly these
  pairs, whatever the object says about its ports.
\<close>

lemma parse_ports_show_pairs:
  assumes "\<forall>p \<in> set ps. Protocol p = constProtocolTCP \<or> Protocol p = constProtocolUDP"
    and "obj = None \<or> (\<exists>ob po. obj = Some ob \<and> get_ports_from_object ob = Inr po)"
  shows "parse_ports (map show_pair ps) obj = Inr ps"
proof -
  have "traverse (parse_arg ap) (map show_pair ps) = Inr ps" for ap
    using assms(1) by (induction ps) (simp_all add: parse_arg_show_pair)
  with assms(2) show ?thesis by (auto simp: parse_ports_def)
qed

text \<open>
  The maps the parser builds from an object are the declared ports of its containers (of a
  service: its own ports) and nothing else; init containers do not count. A name stands for the last
  port that carries it, a number for the protocols of all ports that have it, in their order and in
  lower case.
\<close>

lemma get_ports_from_object_maps:
  "get_ports_from_object obj =
     (case obj of
        OtherObject t \<Rightarrow> Inl (UnknownObject t)
      | _ \<Rightarrow> Inr \<lparr>Names = lookup_name (declared_ports obj), Protocols = lookup_port (declared_ports obj)\<rparr>)"
proof (cases "get_ports_from_object obj")
  case (Inl e)
  then show ?thesis by (cases obj) auto
next
  case (Inr po)
  then have "po = \<lparr>Names = lookup_name (declared_ports obj), Protocols = lookup_port (declared_ports obj)\<rparr>"
    using get_ports_lookup by (cases po) fastforce
  with Inr show ?thesis by (cases obj) auto
qed

text \<open>
  A remote port given by name: the object must declare the name, and then its port is the remote
  and the local port and its protocol is the protocol (TCP when the object leaves it empty).
\<close>

lemma parse_named_port:
  assumes "parse_uint16 name = None" and "CHR '':'' \<notin> set name" and "CHR ''@'' \<notin> set name"
    and "get_ports_from_object ob = Inr po"
  shows "parse_ports [name] (Some ob) =
    (case lookup_name (declared_ports ob) name of
       None \<Rightarrow> Inl (PortNameNotFound name)
     | Some p \<Rightarrow> Inr [\<lparr>LocalPort = pwp_Port p, RemotePort = pwp_Port p,
         Protocol = if pwp_Protocol p = [] then constProtocolTCP else pwp_Protocol p\<rparr>])"
proof -
  have "Names po = lookup_name (declared_ports ob)"
    using assms(4) by (rule get_ports_lookup)
  with assms show ?thesis
    by (simp add: parse_ports_def parse_arg_def remote_port_def parse_port_def split: option.splits)
qed

text \<open>
  A remote port given by its number alone: the object decides the protocol. It is TCP when no
  container or service port has the number (or its protocol is left empty), and an error when more
  than one port has it, even when they agree on the protocol.
\<close>

lemma parse_numeric_port:
  assumes "get_ports_from_object ob = Inr po"
  shows "parse_ports [itoa (unat q)] (Some ob) =
    (case lookup_port (declared_ports ob) q of
       None \<Rightarrow> Inr [\<lparr>LocalPort = q, RemotePort = q, Protocol = constProtocolTCP\<rparr>]
     | Some protos \<Rightarrow>
         if 1 < length protos then Inl (AmbiguousProtocol q protos)
         else Inr [\<lparr>LocalPort = q, RemotePort = q,
           Protocol = if protos ! 0 = [] then constProtocolTCP else protos ! 0\<rparr>])"
proof -
  have "Protocols po = lookup_port (declared_ports ob)"
    using assms by (rule get_ports_lookup)
  moreover have "CHR ''@'' \<notin> set (itoa (unat q))" "CHR '':'' \<notin> set (itoa (unat q))"
    by (simp_all add: not_digit_itoa)
  ultimately show ?thesis
    using assms
    by (simp add: parse_ports_def parse_arg_def remote_port_def parse_port_def split: option.splits)
qed

text \<open>
  When parsing succeeds there is one pair per argument, and every pair has a protocol: TCP, UDP,
  or one the object declares, in lower case, for just this remote port.
\<close>

lemma parse_ports_protocols:
  assumes "parse_ports args obj = Inr ps"
  shows "length ps = length args \<and>
    (\<forall>p \<in> set ps. Protocol p \<noteq> [] \<and>
       (Protocol p = constProtocolTCP \<or> Protocol p = constProtocolUDP \<or>
        (\<exists>ob n po pr. obj = Some ob \<and> (n, po, pr) \<in> set (declared_ports ob) \<and>
           ucast po = RemotePort p \<and> Protocol p = to_lower pr)))"
proof -
  obtain ap where all: "list_all2 (\<lambda>arg p. parse_arg ap arg = Inr p) args ps"
    and ap: "\<And>a. ap = Some a \<Longrightarrow>
      Names a = lookup_name (object_declared obj) \<and> Protocols a = lookup_port (object_declared obj)"
    using parse_ports_Inr [OF assms] by metis
  have "length ps = length args" and "\<forall>p \<in> set ps. \<exists>arg. parse_arg ap arg = Inr p"
    using all by (auto dest: list_all2_lengthD list_all2_image)
  then show ?thesis
    using parse_arg_protocol [OF _ ap] by (cases obj) fastforce+
qed

end
