(* ===== verification/Forwarder.thy ===== *)
theory Forwarder
  imports Client Remote_Addr Ports
begin

text \<open>
  The port forwarders of the client, \<open>cmd/client/forwarder.go\<close>, and the table of UDP clients,
  \<open>cmd/client/conntrack.go\<close>. The accept loop for TCP is a function of what \<open>Accept\<close> returns. For UDP the
  loop that reads packets, the handlers of the clients and the goroutine that cleans the table run
  concurrently and meet on unbuffered channels, so they are a step relation.
\<close>

section \<open>The table of clients\<close>

type_synonym conn_track = "string \<rightharpoonup> nat"

definition new_conn_track :: conn_track where "new_conn_track = Map.empty"
definition track_get :: "conn_track \<Rightarrow> string \<Rightarrow> nat option" where "track_get c key = c key"
definition track_set :: "conn_track \<Rightarrow> string \<Rightarrow> nat \<Rightarrow> conn_track" where "track_set c key item = c(key \<mapsto> item)"
definition track_delete :: "conn_track \<Rightarrow> string \<Rightarrow> conn_track" where "track_delete c key = c(key := None)"

text \<open>What the forwarder needs of the table.\<close>

locale client_table =
  fixes tget :: "'t \<Rightarrow> 'k \<Rightarrow> 'v option"
    and tset :: "'t \<Rightarrow> 'k \<Rightarrow> 'v \<Rightarrow> 't"
    and tdelete :: "'t \<Rightarrow> 'k \<Rightarrow> 't"
    and tnew :: 't
  assumes get_new: "tget tnew k = None"
    and get_set: "tget (tset t k v) k' = (if k' = k then Some v else tget t k')"
    and get_delete: "tget (tdelete t k) k' = (if k' = k then None else tget t k')"
begin

text \<open>Entries that point to something of their own key stay so under all three operations.\<close>

definition owned :: "('v \<Rightarrow> 'k option) \<Rightarrow> 't \<Rightarrow> bool" where
  "owned owner t \<longleftrightarrow> (\<forall>k v. tget t k = Some v \<longrightarrow> owner v = Some k)"

lemma owned_new: "owned owner tnew"
  by (simp add: owned_def get_new)

lemma owned_set: "owned owner t \<Longrightarrow> owner v = Some k \<Longrightarrow> owned owner (tset t k v)"
  by (simp add: owned_def get_set)

lemma owned_delete: "owned owner t \<Longrightarrow> owned owner (tdelete t k)"
  by (simp add: owned_def get_delete)

lemma owned_mono:
  "owned owner t \<Longrightarrow> (\<And>v k. owner v = Some k \<Longrightarrow> owner' v = Some k) \<Longrightarrow> owned owner' t"
  by (simp add: owned_def)

lemma owned_inj: "owned owner t \<Longrightarrow> tget t k = Some v \<Longrightarrow> tget t k' = Some v \<Longrightarrow> k = k'"
  by (metis option.inject owned_def)

end

interpretation track: client_table track_get track_set track_delete new_conn_track
  by unfold_locales (auto simp: track_get_def track_set_def track_delete_def new_conn_track_def)

section \<open>TCP\<close>

text \<open>
  What the loop finds: the stream connection closed, an error of \<open>Accept\<close>, or a connection, with the
  answer of the address getter at that moment.
\<close>

datatype 'c tcp_event =
    StreamClosed
  | AcceptFails
  | Client 'c "string + addr"

datatype 'c tcp_action =
    HandleTCP 'c addr_port
  | CloseClient 'c

fun run_tcp :: "u16 \<Rightarrow> 'c tcp_event list \<Rightarrow> 'c tcp_action list" where
  "run_tcp remotePort [] = []"
| "run_tcp remotePort (StreamClosed # evs) = []"
| "run_tcp remotePort (AcceptFails # evs) = []"
| "run_tcp remotePort (Client c (Inl err) # evs) = CloseClient c # run_tcp remotePort evs"
| "run_tcp remotePort (Client c (Inr a) # evs) =
     HandleTCP c (addr_port_from a remotePort) # run_tcp remotePort evs"

section \<open>UDP\<close>

text \<open>
  A handler, \<open>handleUDPConn\<close>: opening its stream; waiting on \<open>errorChan\<close> with its two goroutines
  running; at the send on \<open>finish\<close> of its deferred function; or returned. The goroutine that takes
  packets off \<open>dataCh\<close> is waiting for one, writing one, or not there: before the acknowledgement, after
  a failed write, or after the other one has closed \<open>upClosed\<close>. \<open>uh_taken\<close> are the packets it took.
\<close>

datatype udp_phase = NoHandler | Opening | WaitingErr | Finishing | HandlerReturned

datatype udp_writer = Ready | Writing "byte list" | NoWriter

record udp_handler =
  uh_key :: string
  uh_phase :: udp_phase
  uh_writer :: udp_writer
  uh_upClosed :: bool
  uh_taken :: "byte list list"

text \<open>
  The loop that reads packets: at \<open>ReadFrom\<close>, at the send of a packet to the channel of a handler, or
  returned. Channels are the positions of their handlers; a channel whose address could not be had
  never gets one. \<open>uf_deleting\<close> is the key the cleaning goroutine has received and not yet deleted.
  \<open>uf_log\<close>, for the statements only, lists the packets the loop set out to send: the client, the
  channel, the bytes.
\<close>

datatype udp_loop = Reading | Sending nat "byte list" | LoopReturned

record udp_forwarder =
  uf_track :: conn_track
  uf_loop :: udp_loop
  uf_handlers :: "udp_handler list"
  uf_deleting :: "string option"
  uf_log :: "(string \<times> nat \<times> byte list) list"

definition new_udp_handler :: "string \<Rightarrow> udp_phase \<Rightarrow> udp_handler" where
  "new_udp_handler key phase =
     \<lparr>uh_key = key, uh_phase = phase, uh_writer = NoWriter, uh_upClosed = False, uh_taken = []\<rparr>"

definition new_udp_forwarder :: udp_forwarder where
  "new_udp_forwarder =
     \<lparr>uf_track = new_conn_track, uf_loop = Reading, uf_handlers = [], uf_deleting = None, uf_log = []\<rparr>"

definition is_handler :: "udp_forwarder \<Rightarrow> nat \<Rightarrow> udp_handler \<Rightarrow> bool" where
  "is_handler f ch h \<longleftrightarrow> ch < length (uf_handlers f) \<and> uf_handlers f ! ch = h"

definition set_handler :: "nat \<Rightarrow> udp_handler \<Rightarrow> udp_forwarder \<Rightarrow> udp_forwarder" where
  "set_handler ch h f = f\<lparr>uf_handlers := (uf_handlers f)[ch := h]\<rparr>"

text \<open>The steps a handler makes on its own.\<close>

inductive handler_step :: "udp_handler \<Rightarrow> udp_handler \<Rightarrow> bool" where
  Opened: "uh_phase h = Opening \<Longrightarrow> handler_step h (h\<lparr>uh_phase := WaitingErr, uh_writer := Ready\<rparr>)"
| OpenFails: "uh_phase h = Opening \<Longrightarrow> handler_step h (h\<lparr>uh_phase := Finishing\<rparr>)"
| Wrote: "uh_writer h = Writing data \<Longrightarrow> handler_step h (h\<lparr>uh_writer := Ready\<rparr>)"
| WriteFails: "uh_writer h = Writing data \<Longrightarrow> handler_step h (h\<lparr>uh_writer := NoWriter\<rparr>)"
| UpCloses: "uh_phase h \<noteq> NoHandler \<Longrightarrow> uh_phase h \<noteq> Opening \<Longrightarrow> handler_step h (h\<lparr>uh_upClosed := True\<rparr>)"
| WriterLeaves: "uh_writer h = Ready \<Longrightarrow> uh_upClosed h \<Longrightarrow> handler_step h (h\<lparr>uh_writer := NoWriter\<rparr>)"
| StreamEnds: "uh_phase h = WaitingErr \<Longrightarrow> handler_step h (h\<lparr>uh_phase := Finishing\<rparr>)"

inductive_cases handler_stepE: "handler_step h h'"

lemma handler_step_keeps:
  "handler_step h h' \<Longrightarrow>
     uh_key h' = uh_key h \<and> uh_taken h' = uh_taken h \<and>
     (uh_phase h' = HandlerReturned \<longleftrightarrow> uh_phase h = HandlerReturned)"
  by (erule handler_stepE) auto

text \<open>A handler without a writer that is not opening its stream will not get one.\<close>

lemma handler_step_deaf:
  "handler_step h h' \<Longrightarrow> uh_writer h = NoWriter \<Longrightarrow> uh_phase h \<noteq> Opening \<Longrightarrow>
     uh_writer h' = NoWriter \<and> uh_phase h' \<noteq> Opening"
  by (erule handler_stepE) auto

text \<open>\<open>get ch\<close> is what the address getter answers when channel \<open>ch\<close> is made.\<close>

inductive udp_step :: "(nat \<Rightarrow> string + addr) \<Rightarrow> udp_forwarder \<Rightarrow> udp_forwarder \<Rightarrow> bool"
  for get :: "nat \<Rightarrow> string + addr"
where
  ReadKnown: "uf_loop f = Reading \<Longrightarrow> track_get (uf_track f) key = Some ch \<Longrightarrow>
    udp_step get f (f\<lparr>uf_loop := Sending ch data, uf_log := uf_log f @ [(key, ch, data)]\<rparr>)"
| ReadNew: "uf_loop f = Reading \<Longrightarrow> track_get (uf_track f) key = None \<Longrightarrow> ch = length (uf_handlers f) \<Longrightarrow>
    get ch = Inr a \<Longrightarrow>
    udp_step get f (f\<lparr>uf_track := track_set (uf_track f) key ch,
      uf_handlers := uf_handlers f @ [new_udp_handler key Opening],
      uf_loop := Sending ch data, uf_log := uf_log f @ [(key, ch, data)]\<rparr>)"
| ReadNoAddr: "uf_loop f = Reading \<Longrightarrow> track_get (uf_track f) key = None \<Longrightarrow> ch = length (uf_handlers f) \<Longrightarrow>
    get ch = Inl e \<Longrightarrow>
    udp_step get f (f\<lparr>uf_track := track_set (uf_track f) key ch,
      uf_handlers := uf_handlers f @ [new_udp_handler key NoHandler]\<rparr>)"
| ReadFails: "uf_loop f = Reading \<Longrightarrow> udp_step get f (f\<lparr>uf_loop := LoopReturned\<rparr>)"
| Send: "uf_loop f = Sending ch data \<Longrightarrow> is_handler f ch h \<Longrightarrow> uh_writer h = Ready \<Longrightarrow>
    udp_step get f ((set_handler ch (h\<lparr>uh_writer := Writing data, uh_taken := uh_taken h @ [data]\<rparr>) f)
      \<lparr>uf_loop := Reading\<rparr>)"
| HandlerStep: "is_handler f ch h \<Longrightarrow> handler_step h h' \<Longrightarrow> udp_step get f (set_handler ch h' f)"
| Finish: "is_handler f ch h \<Longrightarrow> uh_phase h = Finishing \<Longrightarrow> uf_deleting f = None \<Longrightarrow>
    udp_step get f ((set_handler ch (h\<lparr>uh_phase := HandlerReturned\<rparr>) f)\<lparr>uf_deleting := Some (uh_key h)\<rparr>)"
| Delete: "uf_deleting f = Some key \<Longrightarrow>
    udp_step get f (f\<lparr>uf_track := track_delete (uf_track f) key, uf_deleting := None\<rparr>)"

inductive_cases udp_stepE: "udp_step get f g"

definition udp_steps :: "(nat \<Rightarrow> string + addr) \<Rightarrow> udp_forwarder \<Rightarrow> udp_forwarder \<Rightarrow> bool" where
  "udp_steps get = (udp_step get)\<^sup>*\<^sup>*"

definition udp_reachable :: "(nat \<Rightarrow> string + addr) \<Rightarrow> udp_forwarder \<Rightarrow> bool" where
  "udp_reachable get f = udp_steps get new_udp_forwarder f"

section \<open>Invariants of the UDP forwarder\<close>

text \<open>The packets a channel was to be sent, those of them still in hand, and the client of a channel.\<close>

definition log_of :: "nat \<Rightarrow> (string \<times> nat \<times> byte list) list \<Rightarrow> byte list list" where
  "log_of ch log = map (\<lambda>(_, _, d). d) (filter (\<lambda>(_, c, _). c = ch) log)"

definition in_hand :: "nat \<Rightarrow> udp_loop \<Rightarrow> byte list list" where
  "in_hand ch loop = (case loop of Sending c d \<Rightarrow> if c = ch then [d] else [] | _ \<Rightarrow> [])"

definition owner :: "udp_handler list \<Rightarrow> nat \<Rightarrow> string option" where
  "owner hs ch = (if ch < length hs then Some (uh_key (hs ! ch)) else None)"

definition log_ok :: "udp_forwarder \<Rightarrow> bool" where
  "log_ok f \<longleftrightarrow> (\<forall>e \<in> set (uf_log f). owner (uf_handlers f) (fst (snd e)) = Some (fst e))"

definition taken_ok :: "udp_forwarder \<Rightarrow> bool" where
  "taken_ok f \<longleftrightarrow>
     (\<forall>ch < length (uf_handlers f).
        log_of ch (uf_log f) = uh_taken (uf_handlers f ! ch) @ in_hand ch (uf_loop f))"

definition order_ok :: "udp_forwarder \<Rightarrow> bool" where
  "order_ok f \<longleftrightarrow> track.owned (owner (uf_handlers f)) (uf_track f) \<and> log_ok f \<and> taken_ok f"

lemma in_hand_simps [simp]:
  "in_hand ch Reading = []" "in_hand ch LoopReturned = []"
  "in_hand ch (Sending c d) = (if c = ch then [d] else [])"
  by (simp_all add: in_hand_def)

lemma log_of_snoc [simp]:
  "log_of ch (log @ [(k, c, d)]) = log_of ch log @ (if c = ch then [d] else [])"
  by (simp add: log_of_def)

lemma owner_update: "uh_key h' = uh_key (hs ! ch) \<Longrightarrow> owner (hs[ch := h']) = owner hs"
  by (cases "ch < length hs") (auto simp: owner_def fun_eq_iff nth_list_update)

lemma owner_append: "owner hs ch = Some k \<Longrightarrow> owner (hs @ [h]) ch = Some k"
  by (auto simp: owner_def nth_append split: if_splits)

lemma owner_new: "owner (hs @ [h]) (length hs) = Some (uh_key h)"
  by (simp add: owner_def)

text \<open>A step that changes one handler, and neither what it took nor its key, keeps the order.\<close>

lemma order_set_handler:
  assumes "order_ok f" and "is_handler f ch h" and "uh_key h' = uh_key h" and "uh_taken h' = uh_taken h"
  shows "order_ok (set_handler ch h' f)"
proof -
  have "owner ((uf_handlers f)[ch := h']) = owner (uf_handlers f)"
    using assms(2,3) by (intro owner_update) (simp add: is_handler_def)
  with assms show ?thesis
    by (auto simp: order_ok_def log_ok_def taken_ok_def set_handler_def is_handler_def nth_list_update)
qed

lemma order_other_fields: "order_ok f \<Longrightarrow> order_ok (f\<lparr>uf_deleting := x\<rparr>)"
  by (simp add: order_ok_def log_ok_def taken_ok_def)

text \<open>A new channel, with the entry of its client in the table.\<close>

lemma order_new_channel:
  assumes "order_ok f" and "uf_loop f = Reading" and "ch = length (uf_handlers f)"
  shows "order_ok (f\<lparr>uf_track := track_set (uf_track f) key ch,
      uf_handlers := uf_handlers f @ [new_udp_handler key phase]\<rparr>)"
proof -
  let ?hs = "uf_handlers f @ [new_udp_handler key phase]"
  have "track.owned (owner ?hs) (uf_track f)"
    using assms(1) track.owned_mono [of "owner (uf_handlers f)" "uf_track f" "owner ?hs"] owner_append
    by (auto simp: order_ok_def)
  moreover have "owner ?hs ch = Some key"
    unfolding assms(3) by (simp only: owner_new) (simp add: new_udp_handler_def)
  ultimately have "track.owned (owner ?hs) (track_set (uf_track f) key ch)" by (rule track.owned_set)
  moreover have "log_of ch (uf_log f) = []"
    using assms(1,3) by (fastforce simp: order_ok_def log_ok_def log_of_def owner_def filter_empty_conv)
  moreover have "\<forall>e \<in> set (uf_log f). owner ?hs (fst (snd e)) = Some (fst e)"
    using assms(1) owner_append by (simp add: order_ok_def log_ok_def)
  ultimately show ?thesis
    using assms by (auto simp: order_ok_def log_ok_def taken_ok_def nth_append less_Suc_eq new_udp_handler_def)
qed

text \<open>Setting out to send to a channel of the packet's client.\<close>

lemma order_sending:
  assumes "order_ok f" and "uf_loop f = Reading" and "owner (uf_handlers f) ch = Some key"
  shows "order_ok (f\<lparr>uf_loop := Sending ch data, uf_log := uf_log f @ [(key, ch, data)]\<rparr>)"
  using assms by (auto simp: order_ok_def log_ok_def taken_ok_def)

lemma order_step:
  assumes "udp_step get f g" and "order_ok f"
  shows "order_ok g"
  using assms
proof (cases rule: udp_step.cases)
  case (ReadKnown key ch data)
  with assms(2) have "owner (uf_handlers f) ch = Some key" by (auto simp: order_ok_def track.owned_def)
  with ReadKnown assms(2) show ?thesis by (simp add: order_sending)
next
  case (ReadNew key ch a data)
  let ?f = "f\<lparr>uf_track := track_set (uf_track f) key ch, uf_handlers := uf_handlers f @ [new_udp_handler key Opening]\<rparr>"
  have "order_ok ?f" using assms(2) ReadNew by (simp add: order_new_channel)
  moreover have "owner (uf_handlers ?f) ch = Some key"
    using ReadNew(4) owner_new [of "uf_handlers f" "new_udp_handler key Opening"] by (simp add: new_udp_handler_def)
  ultimately have "order_ok (?f\<lparr>uf_loop := Sending ch data, uf_log := uf_log ?f @ [(key, ch, data)]\<rparr>)"
    using ReadNew(2) by (intro order_sending) simp_all
  with ReadNew(1) show ?thesis by simp
next
  case (ReadNoAddr key ch e)
  with assms(2) show ?thesis by (simp add: order_new_channel)
next
  case ReadFails
  with assms(2) show ?thesis by (simp add: order_ok_def log_ok_def taken_ok_def)
next
  case (Send ch data h)
  have "owner ((uf_handlers f)[ch := h\<lparr>uh_writer := Writing data, uh_taken := uh_taken h @ [data]\<rparr>]) =
      owner (uf_handlers f)"
    using Send(3) by (intro owner_update) (simp add: is_handler_def)
  with Send assms(2) show ?thesis
    by (auto simp: order_ok_def log_ok_def taken_ok_def set_handler_def is_handler_def nth_list_update)
next
  case (Delete key)
  with assms(2) show ?thesis
    by (simp add: order_ok_def log_ok_def taken_ok_def track.owned_delete)
next
  case (HandlerStep ch h h')
  with assms(2) handler_step_keeps [of h h'] show ?thesis by (auto intro: order_set_handler)
next
  case (Finish ch h)
  with assms(2) show ?thesis by (auto intro!: order_other_fields order_set_handler)
qed

lemma order_reachable: "udp_reachable get f \<Longrightarrow> order_ok f"
  unfolding udp_reachable_def udp_steps_def
proof (induction rule: rtranclp_induct)
  case base
  show ?case
    using track.owned_new by (simp add: order_ok_def log_ok_def taken_ok_def new_udp_forwarder_def)
qed (auto intro: order_step)

text \<open>
  The table lists exactly the clients whose handlers have not returned, and the one that has just
  returned and is about to be deleted.
\<close>

definition table_ok :: "udp_forwarder \<Rightarrow> bool" where
  "table_ok f \<longleftrightarrow>
     (\<forall>ch < length (uf_handlers f). uh_phase (uf_handlers f ! ch) \<noteq> HandlerReturned \<longrightarrow>
        track_get (uf_track f) (uh_key (uf_handlers f ! ch)) = Some ch) \<and>
     (\<forall>k ch. track_get (uf_track f) k = Some ch \<longrightarrow>
        ch < length (uf_handlers f) \<and> uh_key (uf_handlers f ! ch) = k \<and>
        (uh_phase (uf_handlers f ! ch) = HandlerReturned \<longleftrightarrow> uf_deleting f = Some k)) \<and>
     (\<forall>k. uf_deleting f = Some k \<longrightarrow> track_get (uf_track f) k \<noteq> None)"

lemma table_set_handler:
  assumes "table_ok f" and "is_handler f ch h" and "uh_key h' = uh_key h"
    and "uh_phase h' = HandlerReturned \<longleftrightarrow> uh_phase h = HandlerReturned"
  shows "table_ok (set_handler ch h' f)"
  using assms by (auto simp: table_ok_def set_handler_def is_handler_def nth_list_update)

lemma table_new_channel:
  assumes "table_ok f" and "track_get (uf_track f) key = None" and "ch = length (uf_handlers f)"
    and "phase \<noteq> HandlerReturned"
  shows "table_ok (f\<lparr>uf_track := track_set (uf_track f) key ch,
      uf_handlers := uf_handlers f @ [new_udp_handler key phase]\<rparr>)"
  unfolding table_ok_def
proof (intro conjI)
  show "\<forall>c < length (uf_handlers (f\<lparr>uf_track := track_set (uf_track f) key ch,
      uf_handlers := uf_handlers f @ [new_udp_handler key phase]\<rparr>)).
    uh_phase (uf_handlers (f\<lparr>uf_track := track_set (uf_track f) key ch,
      uf_handlers := uf_handlers f @ [new_udp_handler key phase]\<rparr>) ! c) \<noteq> HandlerReturned \<longrightarrow>
    track_get (uf_track (f\<lparr>uf_track := track_set (uf_track f) key ch,
      uf_handlers := uf_handlers f @ [new_udp_handler key phase]\<rparr>))
      (uh_key (uf_handlers (f\<lparr>uf_track := track_set (uf_track f) key ch,
      uf_handlers := uf_handlers f @ [new_udp_handler key phase]\<rparr>) ! c)) = Some c"
    using assms by (force simp: table_ok_def track.get_set nth_append less_Suc_eq new_udp_handler_def)
qed (use assms in \<open>auto simp: table_ok_def track.get_set nth_append new_udp_handler_def less_SucI\<close>)

lemma table_finish:
  assumes "table_ok f" and "is_handler f ch h" and "uh_phase h = Finishing" and "uf_deleting f = None"
  shows "table_ok ((set_handler ch (h\<lparr>uh_phase := HandlerReturned\<rparr>) f)\<lparr>uf_deleting := Some (uh_key h)\<rparr>)"
proof -
  have h: "ch < length (uf_handlers f)" "uf_handlers f ! ch = h" using assms(2) by (simp_all add: is_handler_def)
  then have own: "track_get (uf_track f) (uh_key h) = Some ch"
    using assms(1,3) by (auto simp: table_ok_def)
  have entry: "c < length (uf_handlers f) \<and> uh_key (uf_handlers f ! c) = k \<and> uh_phase (uf_handlers f ! c) \<noteq> HandlerReturned"
    if "track_get (uf_track f) k = Some c" for k c
    using assms(1,4) that by (auto simp: table_ok_def)
  show ?thesis
    using assms(1) h own entry
    by (auto simp: table_ok_def set_handler_def nth_list_update)
qed

lemma table_delete:
  assumes "table_ok f" and "uf_deleting f = Some key"
  shows "table_ok (f\<lparr>uf_track := track_delete (uf_track f) key, uf_deleting := None\<rparr>)"
proof -
  obtain ch where ch: "track_get (uf_track f) key = Some ch" "uh_phase (uf_handlers f ! ch) = HandlerReturned"
    using assms by (auto simp: table_ok_def)
  have "uh_key (uf_handlers f ! c) \<noteq> key"
    if "c < length (uf_handlers f)" "uh_phase (uf_handlers f ! c) \<noteq> HandlerReturned" for c
    using assms(1) ch that by (auto simp: table_ok_def)
  moreover have "uh_phase (uf_handlers f ! c) \<noteq> HandlerReturned" if "track_get (uf_track f) k = Some c" "k \<noteq> key" for k c
    using assms that by (auto simp: table_ok_def)
  ultimately show ?thesis
    using assms(1) by (simp add: table_ok_def track.get_delete)
qed

lemma table_step:
  assumes "udp_step get f g" and "table_ok f"
  shows "table_ok g"
  using assms
proof (cases rule: udp_step.cases)
  case (ReadKnown key ch data)
  with assms(2) show ?thesis by (simp add: table_ok_def)
next
  case (ReadNew key ch a data)
  then have "table_ok (f\<lparr>uf_track := track_set (uf_track f) key ch,
      uf_handlers := uf_handlers f @ [new_udp_handler key Opening]\<rparr>)"
    using assms(2) by (intro table_new_channel) simp_all
  with ReadNew(1) show ?thesis by (simp add: table_ok_def)
next
  case (ReadNoAddr key ch e)
  with assms(2) show ?thesis by (simp add: table_new_channel)
next
  case ReadFails
  with assms(2) show ?thesis by (simp add: table_ok_def)
next
  case (Send ch data h)
  then have "table_ok (set_handler ch (h\<lparr>uh_writer := Writing data, uh_taken := uh_taken h @ [data]\<rparr>) f)"
    using assms(2) by (intro table_set_handler) auto
  with Send(1) show ?thesis by (simp add: table_ok_def)
next
  case (Finish ch h)
  with assms(2) show ?thesis by (simp add: table_finish)
next
  case (Delete key)
  with assms(2) show ?thesis by (simp add: table_delete)
next
  case (HandlerStep ch h h')
  with assms(2) handler_step_keeps [of h h'] show ?thesis by (auto intro: table_set_handler)
qed

lemma table_reachable: "udp_reachable get f \<Longrightarrow> table_ok f"
  unfolding udp_reachable_def udp_steps_def
proof (induction rule: rtranclp_induct)
  case base
  show ?case using track.get_new by (simp add: table_ok_def new_udp_forwarder_def)
qed (auto intro: table_step)

section \<open>When the loop can go on\<close>

definition loop_ok :: "udp_forwarder \<Rightarrow> bool" where
  "loop_ok f \<longleftrightarrow> (case uf_loop f of Sending ch _ \<Rightarrow> ch < length (uf_handlers f) | _ \<Rightarrow> True)"

lemma loop_step:
  assumes "udp_step get f g" and "loop_ok f" and "table_ok f"
  shows "loop_ok g"
  using assms
  by (cases rule: udp_step.cases)
    (auto simp: loop_ok_def table_ok_def set_handler_def split: udp_loop.splits)

lemma loop_reachable: "udp_reachable get f \<Longrightarrow> loop_ok f \<and> table_ok f"
  unfolding udp_reachable_def udp_steps_def
proof (induction rule: rtranclp_induct)
  case base
  show ?case
    using track.get_new by (simp add: loop_ok_def table_ok_def new_udp_forwarder_def)
qed (blast intro: loop_step table_step)

text \<open>A channel nobody will ever receive from again.\<close>

definition deaf :: "udp_forwarder \<Rightarrow> nat \<Rightarrow> bool" where
  "deaf f ch \<longleftrightarrow>
     ch < length (uf_handlers f) \<and> uh_writer (uf_handlers f ! ch) = NoWriter \<and>
     uh_phase (uf_handlers f ! ch) \<noteq> Opening"

lemma deaf_step:
  assumes "udp_step get f g" and "deaf f ch" and "uf_loop f = Sending ch d"
  shows "deaf g ch \<and> uf_loop g = Sending ch d"
  using assms
proof (cases rule: udp_step.cases)
  case (HandlerStep c h h')
  then show ?thesis
    using assms(2,3) handler_step_deaf [of h h']
    by (auto simp: deaf_def set_handler_def is_handler_def nth_list_update)
qed (auto simp: deaf_def set_handler_def is_handler_def nth_list_update)

lemma deaf_steps:
  assumes "udp_steps get f g" and "deaf f ch" and "uf_loop f = Sending ch d"
  shows "deaf g ch \<and> uf_loop g = Sending ch d"
  using assms(1) unfolding udp_steps_def
  by (induction rule: rtranclp_induct) (use assms(2,3) deaf_step in blast)+

lemma ready_sends:
  assumes "uf_loop f = Sending ch d" and "is_handler f ch h" and "uh_writer h = Ready"
  shows "\<exists>g. udp_step get f g \<and> uf_loop g = Reading"
  using Send [OF assms] by force

lemma not_deaf_sends:
  assumes "uf_loop f = Sending ch d" and "ch < length (uf_handlers f)" and "\<not> deaf f ch"
  shows "\<exists>g. udp_steps get f g \<and> uf_loop g = Reading"
proof -
  obtain h where h: "is_handler f ch h" using assms(2) by (simp add: is_handler_def)
  have "\<exists>f1 h1. udp_steps get f f1 \<and> uf_loop f1 = Sending ch d \<and> is_handler f1 ch h1 \<and> uh_writer h1 = Ready"
  proof (cases "uh_writer h")
    case Ready
    then show ?thesis using h assms(1) by (force simp: udp_steps_def)
  next
    case (Writing x)
    let ?f = "set_handler ch (h\<lparr>uh_writer := Ready\<rparr>) f"
    have "udp_steps get f ?f" using HandlerStep [OF h Wrote [OF Writing], of get] by (auto simp: udp_steps_def)
    with h assms(1) show ?thesis by (intro exI [of _ ?f]) (auto simp: is_handler_def set_handler_def)
  next
    case NoWriter
    then have "uh_phase h = Opening" using assms(3) h by (auto simp: deaf_def is_handler_def)
    let ?f = "set_handler ch (h\<lparr>uh_phase := WaitingErr, uh_writer := Ready\<rparr>) f"
    have "udp_steps get f ?f"
      using HandlerStep [OF h Opened [OF \<open>uh_phase h = Opening\<close>], of get] by (auto simp: udp_steps_def)
    with h assms(1) show ?thesis by (intro exI [of _ ?f]) (auto simp: is_handler_def set_handler_def)
  qed
  then obtain f1 g where "udp_steps get f f1" "udp_step get f1 g" "uf_loop g = Reading"
    using ready_sends by blast
  then show ?thesis by (auto simp: udp_steps_def intro: rtranclp.rtrancl_into_rtrancl)
qed

section \<open>Properties\<close>

text \<open>
  C6: Packets reach the handler of their own client, in the order they were read, none twice and none
  left out: at every moment, what the handler of a channel has taken, followed by the packet the loop
  is about to send there, is what was read for that channel, and all of it came from its client.
\<close>

theorem udp_forwarder_order:
  assumes "udp_reachable get f" and "ch < length (uf_handlers f)"
  shows "map (\<lambda>(_, _, d). d) (filter (\<lambda>(_, c, _). c = ch) (uf_log f))
      = uh_taken (uf_handlers f ! ch) @
        (case uf_loop f of Sending c d \<Rightarrow> if c = ch then [d] else [] | _ \<Rightarrow> [])
    \<and> (\<forall>(k, c, d) \<in> set (uf_log f). c = ch \<longrightarrow> k = uh_key (uf_handlers f ! ch))"
  using order_reachable [OF assms(1)] assms(2)
  by (fastforce simp: order_ok_def taken_ok_def log_ok_def log_of_def in_hand_def owner_def)

text \<open>
  The table of clients is exact: every client has at most one handler that has not returned, its
  entry leads to it, and the entry of a handler that has returned is the one being deleted, so no
  entry stays behind and none of a living handler is lost.
\<close>

lemma udp_forwarder_table:
  assumes "udp_reachable get f" and "ch < length (uf_handlers f)"
  shows "(uh_phase (uf_handlers f ! ch) \<noteq> HandlerReturned \<longrightarrow>
       track_get (uf_track f) (uh_key (uf_handlers f ! ch)) = Some ch)
    \<and> (track_get (uf_track f) k = Some ch \<longrightarrow>
       k = uh_key (uf_handlers f ! ch) \<and>
       (uh_phase (uf_handlers f ! ch) = HandlerReturned \<longleftrightarrow> uf_deleting f = Some k))"
  using table_reachable [OF assms(1)] assms(2) by (auto simp: table_ok_def)

text \<open>
  C22: One client can stop the forwarder for all: the loop that holds a packet for a channel can get back
  to reading exactly if that channel's handler is still opening its stream or still takes packets. If
  the handler failed (for instance because the server could not connect), or its writer is gone, no
  step of any goroutine ever lets the loop go on.
\<close>

theorem udp_forwarder_stuck:
  assumes "udp_reachable get f" and "uf_loop f = Sending ch d"
  shows "(\<exists>g. udp_steps get f g \<and> uf_loop g = Reading) \<longleftrightarrow>
    uh_writer (uf_handlers f ! ch) \<noteq> NoWriter \<or> uh_phase (uf_handlers f ! ch) = Opening"
proof -
  have ch: "ch < length (uf_handlers f)"
    using loop_reachable [OF assms(1)] assms(2) by (simp add: loop_ok_def)
  have "\<not> (\<exists>g. udp_steps get f g \<and> uf_loop g = Reading)" if "deaf f ch"
    using deaf_steps [OF _ that assms(2)] by fastforce
  then show ?thesis
    using not_deaf_sends [OF assms(2) ch] ch by (auto simp: deaf_def)
qed

text \<open>A client whose first packet is in hand, before and after its handler has failed to open a stream.\<close>

definition example_udp :: "udp_phase \<Rightarrow> udp_forwarder" where
  "example_udp phase =
     \<lparr>uf_track = track_set new_conn_track ''10.0.0.9:4000'' 0, uf_loop = Sending 0 [0, 1, 65],
      uf_handlers = [new_udp_handler ''10.0.0.9:4000'' phase], uf_deleting = None,
      uf_log = [(''10.0.0.9:4000'', 0, [0, 1, 65])]\<rparr>"

lemma example_udp_reachable:
  "udp_reachable (\<lambda>_. Inr zero_addr) (example_udp Opening)"
  "udp_reachable (\<lambda>_. Inr zero_addr) (example_udp Finishing)"
proof -
  have 1: "udp_step (\<lambda>_. Inr zero_addr) new_udp_forwarder (example_udp Opening)"
    using ReadNew [of new_udp_forwarder "''10.0.0.9:4000''" 0 "\<lambda>_. Inr zero_addr" zero_addr "[0, 1, 65]"]
    by (simp add: new_udp_forwarder_def example_udp_def track.get_new)
  have 2: "udp_step (\<lambda>_. Inr zero_addr) (example_udp Opening) (example_udp Finishing)"
    using HandlerStep [of "example_udp Opening" 0 "new_udp_handler ''10.0.0.9:4000'' Opening"
        "new_udp_handler ''10.0.0.9:4000'' Finishing" "\<lambda>_. Inr zero_addr"]
      OpenFails [of "new_udp_handler ''10.0.0.9:4000'' Opening"]
    by (simp add: example_udp_def is_handler_def set_handler_def new_udp_handler_def)
  show "udp_reachable (\<lambda>_. Inr zero_addr) (example_udp Opening)"
    unfolding udp_reachable_def udp_steps_def using 1 by blast
  show "udp_reachable (\<lambda>_. Inr zero_addr) (example_udp Finishing)"
    unfolding udp_reachable_def udp_steps_def using 1 2 by (meson rtranclp.simps)
qed

theorem udp_forwarder_order_witness:
  "map (\<lambda>(_, _, d). d) (filter (\<lambda>(_, c, _). c = 0) (uf_log (example_udp Opening))) = [[0, 1, 65]]"
  using udp_forwarder_order [OF example_udp_reachable(1), of 0]
  by (simp add: example_udp_def new_udp_handler_def)

theorem udp_forwarder_stuck_witness:
  "\<not> (\<exists>g. udp_steps (\<lambda>_. Inr zero_addr) (example_udp Finishing) g \<and> uf_loop g = Reading)"
  using udp_forwarder_stuck [OF example_udp_reachable(2)]
  by (simp add: example_udp_def new_udp_handler_def)

text \<open>
  Every TCP connection that is accepted before the loop ends is handed to a handler for the address
  the getter has at that moment and the remote port: as no getter returns an error, none is closed.
\<close>

lemma tcp_forwards_all:
  "run_tcp p (map (\<lambda>(c, g). Client c (getter_get g)) cs @ AcceptFails # evs)
     = map (\<lambda>(c, g). HandleTCP c (addr_port_from (getter_addr g) p)) cs"
  by (induction cs) (auto simp: getter_get_addr)

end
