(* ===== verification/Udp_Request.thy ===== *)
theory Udp_Request
  imports Tcp_Request Forwarder
begin

text \<open>
  A UDP client of a forwarder, \<open>handleUDPConn\<close> in \<open>cmd/client/udp.go\<close> with the goroutine of
  \<open>createStream\<close>: the goroutine that takes packets off the channel and writes them to the data stream,
  the one that reads replies from it, and the function that waits for the error stream. \<open>Forwarder\<close> has
  what of it the forwarder can see; here it is in full, with the variable \<open>err\<close> that two of its
  goroutines share, and shown to refine that view.
\<close>

section \<open>The goroutines\<close>

text \<open>
  The function: before \<open>createStream\<close>; in the request, up to the acknowledgement; at the receive from
  \<open>errorChan\<close>; before the test of \<open>err\<close>; at the send on \<open>finish\<close> of its deferred function; or returned.
\<close>

datatype udp_request_main = UrCreating | UrRequesting | UrAwaiting | UrTesting | UrFinishing | UrReturned

text \<open>
  The goroutine for packets: not started; at its select; in \<open>WriteFull\<close>; before the test of \<open>err\<close>, with
  whether its write failed, for the statements only; or gone.
\<close>

datatype packet_writer = WrNone | WrSelecting | WrWriting "byte list" | WrTesting "byte list" bool | WrGone

text \<open>
  The goroutine for replies: not started; in \<open>io.ReadFull\<close> of a length or of a body, with the bytes it
  has; at \<open>WriteTo\<close>; at its deferred \<open>close(upClosed)\<close>; or gone.
\<close>

datatype reply_reader = RdNone | RdLength "byte list" | RdBody u16 "byte list" | RdWriting "byte list" | RdClosing | RdGone

text \<open>
  \<open>ur_in\<close> has arrived on the data stream and was not read; \<open>ur_out\<close> was written to it after the header.
  \<open>ur_err\<close> says that \<open>err\<close> is not nil. For the statements only: all that arrived, \<open>ur_sent\<close>; the packets
  taken off the channel, \<open>ur_taken\<close>; those sent to the client, \<open>ur_replies\<close>; whether the goroutine for
  packets has gone on after a failed write, \<open>ur_forgot\<close>.
\<close>

record udp_request =
  ur_in :: "byte list"
  ur_eof :: bool
  ur_out :: "byte list"
  ur_main :: udp_request_main
  ur_errors :: error_reader
  ur_errCh_closed :: bool
  ur_conn_closed :: bool
  ur_err :: bool
  ur_writer :: packet_writer
  ur_reader :: reply_reader
  ur_upClosed :: bool
  ur_sent :: "byte list"
  ur_taken :: "byte list list"
  ur_replies :: "byte list list"
  ur_forgot :: bool

definition new_udp_request :: udp_request where
  "new_udp_request =
     \<lparr>ur_in = [], ur_eof = False, ur_out = [], ur_main = UrCreating, ur_errors = NoErrorStream,
      ur_errCh_closed = False, ur_conn_closed = False, ur_err = False, ur_writer = WrNone, ur_reader = RdNone,
      ur_upClosed = False, ur_sent = [], ur_taken = [], ur_replies = [], ur_forgot = False\<rparr>"

fun reading_reply :: "reply_reader \<Rightarrow> bool" where
  "reading_reply (RdLength got) = True"
| "reading_reply (RdBody v got) = (length got < unat v)"
| "reading_reply _ = False"

text \<open>
  Who makes a step: the goroutines on their own; their environment, which is the peers, the network and
  the API server; the forwarder, which gives a packet; or its cleaning goroutine, which takes the key.
\<close>

datatype request_label = Own | Env | Takes "byte list" | Finishes

inductive udp_request_step :: "request_label \<Rightarrow> udp_request \<Rightarrow> udp_request \<Rightarrow> bool" where
  Arrive: "\<not> ur_eof r \<Longrightarrow> udp_request_step Env r (r\<lparr>ur_in := ur_in r @ bs, ur_sent := ur_sent r @ bs\<rparr>)"
| StreamEnds: "udp_request_step Env r (r\<lparr>ur_eof := True\<rparr>)"
| CreateFails: "ur_main r = UrCreating \<Longrightarrow> udp_request_step Env r (r\<lparr>ur_main := UrFinishing\<rparr>)"
| StreamsCreated: "ur_main r = UrCreating \<Longrightarrow>
    udp_request_step Env r (r\<lparr>ur_main := UrRequesting, ur_errors := ReadingErrors\<rparr>)"
| RequestFails: "ur_main r = UrRequesting \<Longrightarrow> udp_request_step Env r (r\<lparr>ur_main := UrFinishing\<rparr>)"
| RequestAccepted: "ur_main r = UrRequesting \<Longrightarrow>
    udp_request_step Env r (r\<lparr>ur_main := UrAwaiting, ur_writer := WrSelecting, ur_reader := RdLength []\<rparr>)"
| TakePacket: "ur_writer r = WrSelecting \<Longrightarrow>
    udp_request_step (Takes data) r (r\<lparr>ur_writer := WrWriting data, ur_taken := ur_taken r @ [data]\<rparr>)"
| WriterLeaves: "ur_writer r = WrSelecting \<Longrightarrow> ur_upClosed r \<Longrightarrow>
    udp_request_step Own r (r\<lparr>ur_writer := WrGone\<rparr>)"
| PacketWritten: "ur_writer r = WrWriting data \<Longrightarrow>
    udp_request_step Env r (r\<lparr>ur_out := ur_out r @ data, ur_writer := WrTesting data False, ur_err := False\<rparr>)"
| PacketFails: "ur_writer r = WrWriting data \<Longrightarrow>
    udp_request_step Env r (r\<lparr>ur_out := ur_out r @ take k data, ur_writer := WrTesting data True, ur_err := True\<rparr>)"
| WriterGoesOn: "ur_writer r = WrTesting data failed \<Longrightarrow> \<not> ur_err r \<Longrightarrow>
    udp_request_step Own r (r\<lparr>ur_writer := WrSelecting, ur_forgot := (ur_forgot r \<or> failed)\<rparr>)"
| WriterStops: "ur_writer r = WrTesting data failed \<Longrightarrow> ur_err r \<Longrightarrow>
    udp_request_step Own r (r\<lparr>ur_writer := WrGone\<rparr>)"
| ReadLength: "ur_reader r = RdLength got \<Longrightarrow> ur_in r = bs @ rest \<Longrightarrow> bs \<noteq> [] \<Longrightarrow> length (got @ bs) < 2 \<Longrightarrow>
    udp_request_step Own r (r\<lparr>ur_in := rest, ur_reader := RdLength (got @ bs)\<rparr>)"
| HasLength: "ur_reader r = RdLength got \<Longrightarrow> ur_in r = bs @ rest \<Longrightarrow> bs \<noteq> [] \<Longrightarrow> length (got @ bs) = 2 \<Longrightarrow>
    udp_request_step Own r (r\<lparr>ur_in := rest, ur_reader := RdBody (get_uint16 (got @ bs)) []\<rparr>)"
| ReadBody: "ur_reader r = RdBody v got \<Longrightarrow> ur_in r = bs @ rest \<Longrightarrow> bs \<noteq> [] \<Longrightarrow> length (got @ bs) \<le> unat v \<Longrightarrow>
    udp_request_step Own r (r\<lparr>ur_in := rest, ur_reader := RdBody v (got @ bs)\<rparr>)"
| HasReply: "ur_reader r = RdBody v got \<Longrightarrow> length got = unat v \<Longrightarrow>
    udp_request_step Own r (r\<lparr>ur_reader := RdWriting got\<rparr>)"
| ReplySent: "ur_reader r = RdWriting d \<Longrightarrow>
    udp_request_step Own r (r\<lparr>ur_replies := ur_replies r @ [d], ur_reader := RdLength []\<rparr>)"
| ReplyFails: "ur_reader r = RdWriting d \<Longrightarrow> udp_request_step Env r (r\<lparr>ur_reader := RdClosing\<rparr>)"
| ReadEnds: "reading_reply (ur_reader r) \<Longrightarrow> ur_in r = [] \<Longrightarrow> ur_eof r \<Longrightarrow>
    udp_request_step Own r (r\<lparr>ur_reader := RdClosing\<rparr>)"
| ReadFails: "reading_reply (ur_reader r) \<Longrightarrow> udp_request_step Env r (r\<lparr>ur_reader := RdClosing\<rparr>)"
| CloseUp: "ur_reader r = RdClosing \<Longrightarrow>
    udp_request_step Own r (r\<lparr>ur_reader := RdGone, ur_upClosed := True\<rparr>)"
| ErrorRead: "ur_errors r = ReadingErrors \<Longrightarrow> error_stream_result message err = ([e], closes) \<Longrightarrow>
    udp_request_step Env r (r\<lparr>ur_errors := SendingError e closes\<rparr>)"
| NoErrorRead: "ur_errors r = ReadingErrors \<Longrightarrow> error_stream_result message err = ([], closes) \<Longrightarrow>
    udp_request_step Env r (r\<lparr>ur_errors := ClosingErrCh closes\<rparr>)"
| CloseErrCh: "ur_errors r = ClosingErrCh closes \<Longrightarrow>
    udp_request_step Own r (r\<lparr>ur_errors := CheckingMessage closes, ur_errCh_closed := True\<rparr>)"
| CheckMessage: "ur_errors r = CheckingMessage closes \<Longrightarrow>
    udp_request_step Own r (r\<lparr>ur_errors := ErrorsDone, ur_conn_closed := (ur_conn_closed r \<or> closes)\<rparr>)"
| ReceiveError: "ur_main r = UrAwaiting \<Longrightarrow> ur_errors r = SendingError e closes \<Longrightarrow>
    udp_request_step Own r (r\<lparr>ur_main := UrTesting, ur_errors := ClosingErrCh closes, ur_err := True\<rparr>)"
| ReceiveClosed: "ur_main r = UrAwaiting \<Longrightarrow> ur_errCh_closed r \<Longrightarrow>
    udp_request_step Own r (r\<lparr>ur_main := UrTesting, ur_err := False\<rparr>)"
| TestErr: "ur_main r = UrTesting \<Longrightarrow> udp_request_step Own r (r\<lparr>ur_main := UrFinishing\<rparr>)"
| Finish: "ur_main r = UrFinishing \<Longrightarrow> udp_request_step Finishes r (r\<lparr>ur_main := UrReturned\<rparr>)"

inductive_cases udp_request_stepE: "udp_request_step l r r'"

definition udp_request_any :: "udp_request \<Rightarrow> udp_request \<Rightarrow> bool" where
  "udp_request_any r r' \<longleftrightarrow> (\<exists>l. udp_request_step l r r')"

definition udp_request_reachable :: "udp_request \<Rightarrow> bool" where
  "udp_request_reachable = udp_request_any\<^sup>*\<^sup>* new_udp_request"

lemma udp_request_any_step:
  "udp_request_reachable r \<Longrightarrow> udp_request_step l r r' \<Longrightarrow> udp_request_reachable r'"
  unfolding udp_request_reachable_def by (rule rtranclp.rtrancl_into_rtrancl) (auto simp: udp_request_any_def)

lemma udp_request_new: "udp_request_reachable new_udp_request"
  by (simp add: udp_request_reachable_def)

section \<open>Invariants\<close>

text \<open>The goroutines are started with the acknowledgement, and the error stream is there from \<open>createStream\<close> on.\<close>

definition in_request :: "udp_request_main \<Rightarrow> bool" where
  "in_request m \<longleftrightarrow> m = UrCreating \<or> m = UrRequesting"

definition udp_goroutines_ok :: "udp_request \<Rightarrow> bool" where
  "udp_goroutines_ok r \<longleftrightarrow>
     (ur_reader r = RdNone \<longleftrightarrow> ur_writer r = WrNone) \<and>
     (in_request (ur_main r) \<longrightarrow> ur_reader r = RdNone) \<and>
     (ur_main r = UrAwaiting \<or> ur_main r = UrTesting \<longrightarrow> ur_reader r \<noteq> RdNone) \<and>
     (ur_upClosed r \<longleftrightarrow> ur_reader r = RdGone)"

definition udp_errors_ok :: "udp_request \<Rightarrow> bool" where
  "udp_errors_ok r \<longleftrightarrow>
     (ur_main r = UrCreating \<longrightarrow> ur_errors r = NoErrorStream) \<and>
     (ur_errors r = NoErrorStream \<longrightarrow> ur_main r = UrCreating \<or> ur_main r = UrFinishing \<or> ur_main r = UrReturned) \<and>
     (ur_errCh_closed r \<longleftrightarrow> (\<exists>c. ur_errors r = CheckingMessage c) \<or> ur_errors r = ErrorsDone)"

text \<open>Past the receive, the error stream has ended and its error was handed over; before it no error of a write is forgotten.\<close>

definition udp_received_ok :: "udp_request \<Rightarrow> bool" where
  "udp_received_ok r \<longleftrightarrow>
     (ur_reader r \<noteq> RdNone \<and> ur_main r \<noteq> UrAwaiting \<longrightarrow> errors_over (ur_errors r)) \<and>
     (in_request (ur_main r) \<or> ur_main r = UrAwaiting \<longrightarrow>
        \<not> ur_forgot r \<and> (\<forall>d. ur_writer r = WrTesting d True \<longrightarrow> ur_err r))"

definition udp_started_ok :: "udp_request \<Rightarrow> bool" where
  "udp_started_ok r \<longleftrightarrow> udp_goroutines_ok r \<and> udp_errors_ok r"

fun writer_hand :: "packet_writer \<Rightarrow> byte list \<Rightarrow> bool" where
  "writer_hand (WrWriting data) hand = (hand = data)"
| "writer_hand (WrTesting data failed) hand = (failed \<or> hand = [])"
| "writer_hand WrGone hand = True"
| "writer_hand _ hand = (hand = [])"

definition udp_packets_ok :: "udp_request \<Rightarrow> bool" where
  "udp_packets_ok r \<longleftrightarrow>
     ur_forgot r \<or> (\<exists>hand. concat (ur_taken r) = ur_out r @ hand \<and> writer_hand (ur_writer r) hand)"

fun reply_part :: "reply_reader \<Rightarrow> byte list" where
  "reply_part (RdLength got) = got"
| "reply_part (RdBody v got) = put_uint16 v @ got"
| "reply_part (RdWriting d) = udp_frame d"
| "reply_part _ = []"

fun reply_bounds :: "reply_reader \<Rightarrow> bool" where
  "reply_bounds (RdLength got) = (length got < 2)"
| "reply_bounds (RdBody v got) = (length got \<le> unat v)"
| "reply_bounds _ = True"

definition udp_replies_ok :: "udp_request \<Rightarrow> bool" where
  "udp_replies_ok r \<longleftrightarrow>
     reply_bounds (ur_reader r) \<and>
     (\<exists>part. ur_sent r = concat (map udp_frame (ur_replies r)) @ part @ ur_in r \<and>
        (ur_reader r = RdClosing \<or> ur_reader r = RdGone \<or> part = reply_part (ur_reader r)))"

definition udp_request_ok :: "udp_request \<Rightarrow> bool" where
  "udp_request_ok r \<longleftrightarrow> udp_started_ok r \<and> udp_received_ok r \<and> udp_packets_ok r \<and> udp_replies_ok r"

lemma reading_reply_started:
  "reading_reply x \<Longrightarrow> x \<noteq> RdNone \<and> x \<noteq> RdClosing \<and> x \<noteq> RdGone"
  by (cases x) auto

lemma udp_goroutines_step:
  assumes "udp_request_step l r r'" and "udp_goroutines_ok r"
  shows "udp_goroutines_ok r'"
  using assms
proof (cases rule: udp_request_step.cases)
  case ReadEnds
  with assms(2) reading_reply_started [of "ur_reader r"] show ?thesis by (simp add: udp_goroutines_ok_def)
next
  case ReadFails
  with assms(2) reading_reply_started [of "ur_reader r"] show ?thesis by (simp add: udp_goroutines_ok_def)
qed (use assms(2) in \<open>auto simp: udp_goroutines_ok_def in_request_def\<close>)

lemma udp_errors_step: "udp_request_step l r r' \<Longrightarrow> udp_errors_ok r \<Longrightarrow> udp_errors_ok r'"
  by (erule udp_request_stepE) (auto simp: udp_errors_ok_def)

lemma udp_started_step: "udp_request_step l r r' \<Longrightarrow> udp_started_ok r \<Longrightarrow> udp_started_ok r'"
  unfolding udp_started_ok_def using udp_goroutines_step udp_errors_step by blast

lemma udp_received_step:
  assumes "udp_request_step l r r'" and "udp_received_ok r" and "udp_started_ok r"
  shows "udp_received_ok r'"
proof -
  have g: "udp_goroutines_ok r" and e: "udp_errors_ok r" using assms(3) by (simp_all add: udp_started_ok_def)
  from assms(1) show ?thesis
  proof (cases rule: udp_request_step.cases)
    case RequestFails
    with assms(2) g show ?thesis by (auto simp: udp_received_ok_def udp_goroutines_ok_def in_request_def)
  next
    case CreateFails
    with assms(2) g show ?thesis by (auto simp: udp_received_ok_def udp_goroutines_ok_def in_request_def)
  next
    case RequestAccepted
    with assms(2) g show ?thesis by (auto simp: udp_received_ok_def udp_goroutines_ok_def in_request_def)
  next
    case StreamsCreated
    with assms(2) g show ?thesis by (auto simp: udp_received_ok_def udp_goroutines_ok_def in_request_def)
  next
    case ReceiveClosed
    with assms(2) e show ?thesis by (auto simp: udp_received_ok_def udp_errors_ok_def in_request_def)
  next
    case ReadEnds
    with assms(2) reading_reply_started [of "ur_reader r"] show ?thesis by (simp add: udp_received_ok_def)
  next
    case ReadFails
    with assms(2) reading_reply_started [of "ur_reader r"] show ?thesis by (simp add: udp_received_ok_def)
  qed (use assms(2) in \<open>auto simp: udp_received_ok_def in_request_def\<close>)
qed

lemma udp_packets_step:
  assumes "udp_request_step l r r'" and "udp_packets_ok r" and "udp_started_ok r"
  shows "udp_packets_ok r'"
  using assms(1)
proof (cases rule: udp_request_step.cases)
  case RequestAccepted
  with assms(2,3) show ?thesis by (auto simp: udp_packets_ok_def udp_started_ok_def udp_goroutines_ok_def in_request_def)
next
  case (PacketFails data k)
  with assms(2) show ?thesis by (auto simp: udp_packets_ok_def intro: exI [of _ "drop k data"])
qed (use assms(2) in \<open>auto simp: udp_packets_ok_def\<close>)

lemma udp_frame_body: "length got = unat (v :: u16) \<Longrightarrow> udp_frame got = put_uint16 v @ got"
  by (simp add: udp_frame_def)

lemma udp_replies_step:
  assumes "udp_request_step l r r'" and "udp_replies_ok r" and "udp_started_ok r"
  shows "udp_replies_ok r'"
  using assms(1)
proof (cases rule: udp_request_step.cases)
  case RequestAccepted
  with assms(2,3) show ?thesis by (auto simp: udp_replies_ok_def udp_started_ok_def udp_goroutines_ok_def in_request_def)
next
  case (HasLength got bs rest)
  with assms(2) show ?thesis by (auto simp: udp_replies_ok_def put_get_uint16)
next
  case (HasReply v got)
  with assms(2) udp_frame_body [of got v] show ?thesis by (auto simp: udp_replies_ok_def)
qed (use assms(2) in \<open>auto simp: udp_replies_ok_def\<close>)

lemma udp_request_ok_step: "udp_request_step l r r' \<Longrightarrow> udp_request_ok r \<Longrightarrow> udp_request_ok r'"
  unfolding udp_request_ok_def using udp_started_step udp_received_step udp_packets_step udp_replies_step by blast

lemma udp_request_invariant:
  assumes "udp_request_reachable r"
  shows "udp_request_ok r"
proof (rule steps_invariant [OF assms [unfolded udp_request_reachable_def], where I = udp_request_ok])
  show "udp_request_ok new_udp_request"
    by (simp add: udp_request_ok_def udp_started_ok_def udp_goroutines_ok_def udp_errors_ok_def udp_received_ok_def udp_packets_ok_def udp_replies_ok_def new_udp_request_def)
qed (auto simp: udp_request_any_def intro: udp_request_ok_step)

section \<open>What the forwarder sees\<close>

fun phase_of :: "udp_request_main \<Rightarrow> udp_phase" where
  "phase_of UrCreating = Opening"
| "phase_of UrRequesting = Opening"
| "phase_of UrAwaiting = WaitingErr"
| "phase_of UrTesting = WaitingErr"
| "phase_of UrFinishing = Finishing"
| "phase_of UrReturned = HandlerReturned"

fun writer_of :: "packet_writer \<Rightarrow> udp_writer" where
  "writer_of WrNone = NoWriter"
| "writer_of WrSelecting = Ready"
| "writer_of (WrWriting data) = Writing data"
| "writer_of (WrTesting data failed) = Writing data"
| "writer_of WrGone = NoWriter"

definition handler_of :: "string \<Rightarrow> udp_request \<Rightarrow> udp_handler" where
  "handler_of key r =
     \<lparr>uh_key = key, uh_phase = phase_of (ur_main r), uh_writer = writer_of (ur_writer r),
      uh_upClosed = ur_upClosed r, uh_taken = ur_taken r\<rparr>"

text \<open>Every step is one of the handler, a packet taken, the end of the handler, or cannot be seen.\<close>

lemma handler_of_step:
  assumes "udp_request_step l r r'" and "udp_started_ok r"
  shows "case l of
      Takes data \<Rightarrow> uh_writer (handler_of key r) = Ready \<and>
        handler_of key r' = (handler_of key r)\<lparr>uh_writer := Writing data, uh_taken := uh_taken (handler_of key r) @ [data]\<rparr>
    | Finishes \<Rightarrow> uh_phase (handler_of key r) = Finishing \<and>
        handler_of key r' = (handler_of key r)\<lparr>uh_phase := HandlerReturned\<rparr>
    | _ \<Rightarrow> handler_of key r' = handler_of key r \<or> handler_step (handler_of key r) (handler_of key r')"
  using assms(1)
proof (cases rule: udp_request_step.cases)
  case CreateFails
  then have "handler_step (handler_of key r) ((handler_of key r)\<lparr>uh_phase := Finishing\<rparr>)"
    by (intro handler_step.OpenFails) (simp add: handler_of_def)
  with CreateFails show ?thesis by (simp add: handler_of_def)
next
  case RequestFails
  then have "handler_step (handler_of key r) ((handler_of key r)\<lparr>uh_phase := Finishing\<rparr>)"
    by (intro handler_step.OpenFails) (simp add: handler_of_def)
  with RequestFails show ?thesis by (simp add: handler_of_def)
next
  case RequestAccepted
  then have "handler_step (handler_of key r) ((handler_of key r)\<lparr>uh_phase := WaitingErr, uh_writer := Ready\<rparr>)"
    by (intro handler_step.Opened) (simp add: handler_of_def)
  with RequestAccepted show ?thesis by (simp add: handler_of_def)
next
  case WriterLeaves
  then have "handler_step (handler_of key r) ((handler_of key r)\<lparr>uh_writer := NoWriter\<rparr>)"
    by (intro handler_step.WriterLeaves) (simp_all add: handler_of_def)
  with WriterLeaves show ?thesis by (simp add: handler_of_def)
next
  case (WriterGoesOn data failed)
  then have "handler_step (handler_of key r) ((handler_of key r)\<lparr>uh_writer := Ready\<rparr>)"
    by (intro handler_step.Wrote) (simp add: handler_of_def)
  with WriterGoesOn show ?thesis by (simp add: handler_of_def)
next
  case (WriterStops data failed)
  then have "handler_step (handler_of key r) ((handler_of key r)\<lparr>uh_writer := NoWriter\<rparr>)"
    by (intro handler_step.WriteFails) (simp add: handler_of_def)
  with WriterStops show ?thesis by (simp add: handler_of_def)
next
  case CloseUp
  then have "\<not> in_request (ur_main r)" using assms(2) by (auto simp: udp_started_ok_def udp_goroutines_ok_def)
  then have "handler_step (handler_of key r) ((handler_of key r)\<lparr>uh_upClosed := True\<rparr>)"
    by (intro handler_step.UpCloses; cases "ur_main r") (simp_all add: handler_of_def in_request_def)
  with CloseUp show ?thesis by (simp add: handler_of_def)
next
  case TestErr
  then have "handler_step (handler_of key r) ((handler_of key r)\<lparr>uh_phase := Finishing\<rparr>)"
    by (intro handler_step.StreamEnds) (simp add: handler_of_def)
  with TestErr show ?thesis by (simp add: handler_of_def)
qed (simp_all add: handler_of_def)

section \<open>Coming to an end\<close>

text \<open>What the goroutines still have to do on their own.\<close>

fun reader_rank :: "reply_reader \<Rightarrow> nat" where
  "reader_rank (RdBody v got) = 4"
| "reader_rank (RdWriting d) = 3"
| "reader_rank (RdLength got) = 2"
| "reader_rank RdClosing = 1"
| "reader_rank _ = 0"

fun writer_rank :: "packet_writer \<Rightarrow> nat" where
  "writer_rank (WrWriting data) = 3"
| "writer_rank (WrTesting data failed) = 2"
| "writer_rank WrSelecting = 1"
| "writer_rank _ = 0"

fun udp_request_main_rank :: "udp_request_main \<Rightarrow> nat" where
  "udp_request_main_rank UrAwaiting = 2"
| "udp_request_main_rank UrTesting = 1"
| "udp_request_main_rank _ = 0"

definition udp_request_rank :: "udp_request \<Rightarrow> nat" where
  "udp_request_rank r =
     4 * length (ur_in r) + reader_rank (ur_reader r) + writer_rank (ur_writer r) + errors_rank (ur_errors r) +
     udp_request_main_rank (ur_main r)"

lemma reading_reply_rank: "reading_reply x \<Longrightarrow> 2 \<le> reader_rank x"
  by (cases x) auto

lemma udp_request_rank_step:
  assumes "udp_request_step Own r q"
  shows "udp_request_rank q < udp_request_rank r"
  using assms
proof (cases rule: udp_request_step.cases)
  case ReadEnds
  with reading_reply_rank [of "ur_reader r"] show ?thesis by (simp add: udp_request_rank_def)
qed (auto simp: udp_request_rank_def neq_Nil_conv)

text \<open>
  A write to the stream takes as long as the stream lets it take. Its outcome is a step of the environment,
  which the runs here include or leave out.
\<close>

definition packet_outcome :: "udp_request \<Rightarrow> udp_request \<Rightarrow> bool" where
  "packet_outcome r q \<longleftrightarrow> (\<exists>data. ur_writer r = WrWriting data) \<and> udp_request_step Env r q \<and> ur_writer q \<noteq> ur_writer r"

definition udp_request_runs :: "bool \<Rightarrow> udp_request \<Rightarrow> udp_request \<Rightarrow> bool" where
  "udp_request_runs outcomes r q \<longleftrightarrow> udp_request_step Own r q \<or> outcomes \<and> packet_outcome r q"

lemma packet_outcome_cases:
  assumes "packet_outcome r q" and "udp_goroutines_ok r"
  obtains data k failed where "ur_writer r = WrWriting data"
    and "q = r\<lparr>ur_out := ur_out r @ take k data, ur_writer := WrTesting data failed, ur_err := failed\<rparr>"
proof -
  from assms(1) obtain data where w: "ur_writer r = WrWriting data" and st: "udp_request_step Env r q"
    and d: "ur_writer q \<noteq> ur_writer r"
    by (auto simp: packet_outcome_def)
  from st show thesis
  proof (cases rule: udp_request_step.cases)
    case RequestAccepted
    with w assms(2) show thesis by (auto simp: udp_goroutines_ok_def in_request_def)
  next
    case (PacketWritten data')
    with w show thesis by (intro that [of data False "length data"]) simp_all
  next
    case (PacketFails data' k)
    with w show thesis by (intro that [of data True k]) simp_all
  qed (use d in simp_all)
qed

lemma packet_outcome_write: "ur_writer r = WrWriting data \<Longrightarrow> \<exists>q. packet_outcome r q"
  using PacketWritten [of r data] by (auto simp: packet_outcome_def)

text \<open>The error stream has ended.\<close>

definition udp_request_ending :: "udp_request \<Rightarrow> bool" where
  "udp_request_ending r \<longleftrightarrow> udp_request_ok r \<and> ur_reader r \<noteq> RdNone \<and> ur_errors r \<noteq> ReadingErrors"

lemma udp_request_ending_step:
  "udp_request_step Own r q \<Longrightarrow> udp_request_ending r \<Longrightarrow> udp_request_ending q"
  unfolding udp_request_ending_def
  by (rule conjI, blast intro: udp_request_ok_step, erule udp_request_stepE) auto

lemma packet_outcome_ending:
  assumes "packet_outcome r q" and "udp_request_ending r"
  shows "udp_request_ending q \<and> udp_request_rank q < udp_request_rank r \<and> ur_reader q = ur_reader r \<and>
    ur_eof q = ur_eof r \<and> ur_sent q = ur_sent r \<and> ur_replies q = ur_replies r"
proof -
  have "udp_request_ok q" using assms udp_request_ok_step by (auto simp: packet_outcome_def udp_request_ending_def)
  moreover have "udp_goroutines_ok r"
    using assms(2) by (simp add: udp_request_ending_def udp_request_ok_def udp_started_ok_def)
  from packet_outcome_cases [OF assms(1) this] obtain data k failed where "ur_writer r = WrWriting data"
    "q = r\<lparr>ur_out := ur_out r @ take k data, ur_writer := WrTesting data failed, ur_err := failed\<rparr>" .
  ultimately show ?thesis using assms(2) by (simp add: udp_request_ending_def udp_request_rank_def)
qed

definition udp_main_over :: "udp_request \<Rightarrow> bool" where
  "udp_main_over r \<longleftrightarrow> (ur_main r = UrFinishing \<or> ur_main r = UrReturned) \<and> ur_errors r = ErrorsDone"

lemma udp_errors_go_on:
  "errors_over (ur_errors r) \<Longrightarrow> ur_errors r \<noteq> ErrorsDone \<Longrightarrow> \<exists>q. udp_request_step Own r q"
  by (cases "ur_errors r") (auto dest: CloseErrCh CheckMessage)

lemma udp_receive_goes_on:
  assumes "udp_request_ending r" and "ur_main r = UrAwaiting"
  shows "\<exists>q. udp_request_step Own r q"
proof (cases "ur_errors r")
  case (SendingError e closes)
  from ReceiveError [OF assms(2) this] show ?thesis by blast
next
  case ErrorsDone
  with assms have "ur_errCh_closed r"
    by (simp add: udp_request_ending_def udp_request_ok_def udp_started_ok_def udp_errors_ok_def)
  from ReceiveClosed [OF assms(2) this] show ?thesis by blast
qed (use assms udp_errors_go_on [of r] in
    \<open>auto simp: udp_request_ending_def udp_request_ok_def udp_started_ok_def udp_errors_ok_def\<close>)

lemma udp_main_goes_on:
  assumes "udp_request_ending r" and "\<not> udp_main_over r"
  shows "\<exists>q. udp_request_step Own r q"
proof (cases "ur_main r = UrAwaiting")
  case True
  with assms(1) show ?thesis by (rule udp_receive_goes_on)
next
  case False
  have "errors_over (ur_errors r)" "\<not> in_request (ur_main r)"
    using assms(1) False
    by (auto simp: udp_request_ending_def udp_request_ok_def udp_started_ok_def udp_received_ok_def udp_goroutines_ok_def)
  then show ?thesis
    using False assms(2) udp_errors_go_on [of r] TestErr [of r]
    by (cases "ur_main r") (auto simp: udp_main_over_def in_request_def)
qed

text \<open>The reader on a stream that has ended: it sends the replies that are whole, and leaves.\<close>

lemma reading_goes_on:
  assumes "reading_reply (ur_reader r)" and "reply_bounds (ur_reader r)" and "ur_eof r"
  shows "\<exists>q. udp_request_step Own r q"
proof (cases "ur_in r")
  case Nil
  from ReadEnds [OF assms(1) this assms(3)] show ?thesis by blast
next
  case (Cons b bs)
  then have inp: "ur_in r = [b] @ bs" by simp
  from assms(1) show ?thesis
  proof (cases "ur_reader r")
    case (RdLength got)
    with assms(2) have "length (got @ [b]) < 2 \<or> length (got @ [b]) = 2" by (simp add: less_2_cases_iff)
    then show ?thesis using ReadLength [OF RdLength inp] HasLength [OF RdLength inp] by blast
  next
    case (RdBody v got)
    with assms(1) have "length (got @ [b]) \<le> unat v" by simp
    from ReadBody [OF RdBody inp _ this] show ?thesis by blast
  qed (use assms(1) in simp_all)
qed

lemma reader_goes_on:
  assumes "udp_request_ok r" and "ur_reader r \<noteq> RdNone" and "ur_eof r" and "ur_reader r \<noteq> RdGone"
  shows "\<exists>q. udp_request_step Own r q"
proof (cases "reading_reply (ur_reader r)")
  case True
  then show ?thesis using assms(1,3) by (intro reading_goes_on) (simp_all add: udp_request_ok_def udp_replies_ok_def)
next
  case False
  with assms show ?thesis
    by (cases "ur_reader r")
      (auto simp: udp_request_ok_def udp_replies_ok_def dest: HasReply [of r] ReplySent CloseUp)
qed

lemma writer_goes_on:
  assumes "ur_upClosed r" and "ur_writer r \<noteq> WrNone" and "\<nexists>d. ur_writer r = WrWriting d" and "ur_writer r \<noteq> WrGone"
  shows "\<exists>q. udp_request_step Own r q"
  using assms WriterLeaves [of r] WriterGoesOn [of r] WriterStops [of r] by (cases "ur_writer r") auto

text \<open>What is left of the stream after the last whole frame.\<close>

definition incomplete_frame :: "byte list \<Rightarrow> bool" where
  "incomplete_frame part \<longleftrightarrow> length part < 2 \<or> length part < 2 + unat (get_uint16 (take 2 part))"

definition replies_drained :: "udp_request \<Rightarrow> bool" where
  "replies_drained r \<longleftrightarrow>
     (ur_reader r = RdClosing \<or> ur_reader r = RdGone \<longrightarrow>
        (\<exists>part. ur_sent r = concat (map udp_frame (ur_replies r)) @ part \<and> incomplete_frame part))"

lemma reading_incomplete: "reading_reply x \<Longrightarrow> reply_bounds x \<Longrightarrow> incomplete_frame (reply_part x)"
  by (cases x) (auto simp: incomplete_frame_def)

lemma replies_drained_step:
  assumes "udp_request_step Own r q" and "udp_request_ok r" and "replies_drained r"
  shows "replies_drained q"
  using assms(1)
proof (cases rule: udp_request_step.cases)
  case ReadEnds
  have "reply_bounds (ur_reader r)" using assms(2) by (simp add: udp_request_ok_def udp_replies_ok_def)
  from reading_incomplete [OF ReadEnds(2) this] show ?thesis
    using ReadEnds assms(2) reading_reply_started [of "ur_reader r"]
    by (auto simp: replies_drained_def udp_request_ok_def udp_replies_ok_def)
qed (use assms(3) in \<open>auto simp: replies_drained_def\<close>)

text \<open>What the runs keep of the state they start in, and where they can go on.\<close>

definition udp_ending_from :: "bool \<Rightarrow> udp_request \<Rightarrow> udp_request \<Rightarrow> bool" where
  "udp_ending_from outcomes r q \<longleftrightarrow> udp_request_ending q \<and> ur_eof q = ur_eof r \<and> ur_sent q = ur_sent r \<and>
     (outcomes \<or> (\<exists>d. ur_writer r = WrWriting d) \<or> (\<nexists>d. ur_writer q = WrWriting d)) \<and>
     (ur_reader r = RdClosing \<or> ur_reader r = RdGone \<or> replies_drained q)"

definition udp_all_gone :: "bool \<Rightarrow> udp_request \<Rightarrow> udp_request \<Rightarrow> bool" where
  "udp_all_gone outcomes r q \<longleftrightarrow> udp_main_over q \<and> (ur_eof r \<longrightarrow> ur_reader q = RdGone \<and>
     (outcomes \<or> (\<nexists>d. ur_writer r = WrWriting d) \<longrightarrow> ur_writer q = WrGone))"

lemma udp_ending_from_step:
  assumes "udp_request_runs outcomes q s" and "udp_ending_from outcomes r q"
  shows "udp_ending_from outcomes r s \<and> udp_request_rank s < udp_request_rank q"
proof (cases "udp_request_step Own q s")
  case True
  have "udp_request_ok q" using assms(2) by (simp add: udp_ending_from_def udp_request_ending_def)
  moreover have "ur_eof s = ur_eof q" "ur_sent s = ur_sent q" "(\<nexists>d. ur_writer q = WrWriting d) \<longrightarrow> (\<nexists>d. ur_writer s = WrWriting d)"
    using True by (cases rule: udp_request_step.cases; simp)+
  ultimately show ?thesis
    using True assms(2) udp_request_ending_step replies_drained_step udp_request_rank_step
    unfolding udp_ending_from_def by metis
next
  case False
  with assms(1) have "packet_outcome q s" and o: outcomes by (simp_all add: udp_request_runs_def)
  moreover have "udp_request_ending q" using assms(2) by (simp add: udp_ending_from_def)
  ultimately have s: "udp_request_ending s" "udp_request_rank s < udp_request_rank q" "ur_eof s = ur_eof q"
      "ur_sent s = ur_sent q" "ur_reader s = ur_reader q" "ur_replies s = ur_replies q"
    using packet_outcome_ending [of q s] by simp_all
  then have "replies_drained s \<longleftrightarrow> replies_drained q" by (simp add: replies_drained_def)
  with s assms(2) o show ?thesis by (simp add: udp_ending_from_def)
qed

lemma udp_ending_goes_on:
  assumes "udp_ending_from outcomes r q" and "\<not> udp_all_gone outcomes r q"
  shows "\<exists>s. udp_request_runs outcomes q s"
proof -
  have q: "udp_request_ending q" "ur_eof q = ur_eof r" using assms(1) by (simp_all add: udp_ending_from_def)
  then have ok: "udp_goroutines_ok q" "udp_request_ok q" "ur_reader q \<noteq> RdNone"
    by (simp_all add: udp_request_ending_def udp_request_ok_def udp_started_ok_def)
  consider "\<not> udp_main_over q" | "ur_eof q" "ur_reader q \<noteq> RdGone"
    | "ur_reader q = RdGone" "outcomes \<or> (\<nexists>d. ur_writer q = WrWriting d)" "ur_writer q \<noteq> WrGone"
    using assms q(2) unfolding udp_all_gone_def udp_ending_from_def by blast
  then show ?thesis
  proof cases
    case 1
    then show ?thesis using udp_main_goes_on [OF q(1)] unfolding udp_request_runs_def by blast
  next
    case 2
    then show ?thesis using reader_goes_on [OF ok(2,3)] unfolding udp_request_runs_def by blast
  next
    case 3
    then have "ur_upClosed q" "ur_writer q \<noteq> WrNone" using ok by (auto simp: udp_goroutines_ok_def)
    with writer_goes_on [of q] packet_outcome_write [of q] 3 show ?thesis
      unfolding udp_request_runs_def by blast
  qed
qed

text \<open>Both directions are pipes, the one for packets as long as no failed write is forgotten.\<close>

lemma udp_request_out:
  assumes "udp_request_reachable r" and "\<not> ur_forgot r"
  shows "prefix (ur_out r) (concat (ur_taken r))"
  using udp_request_invariant [OF assms(1)] assms(2) by (auto simp: udp_request_ok_def udp_packets_ok_def)

lemma udp_request_back:
  assumes "udp_request_reachable r"
  shows "prefix (concat (map udp_frame (ur_replies r))) (ur_sent r)"
  using udp_request_invariant [OF assms] by (auto simp: udp_request_ok_def udp_replies_ok_def)

interpretation packets_pipe: pipe "\<lambda>r. udp_request_reachable r \<and> \<not> ur_forgot r" "\<lambda>r. concat (ur_taken r)" ur_out
    "\<lambda>r. drop (length (ur_out r)) (concat (ur_taken r))"
  by unfold_locales (blast intro: prefix_rest udp_request_out)

interpretation replies_pipe: pipe udp_request_reachable ur_sent "\<lambda>r. concat (map udp_frame (ur_replies r))"
    "\<lambda>r. drop (length (concat (map udp_frame (ur_replies r)))) (ur_sent r)"
  by unfold_locales (blast intro: prefix_rest udp_request_back)

section \<open>Examples\<close>

text \<open>A request that was accepted; one whose error stream has ended without an error.\<close>

definition accepted_request :: udp_request where
  "accepted_request = new_udp_request\<lparr>ur_main := UrAwaiting, ur_errors := ReadingErrors, ur_writer := WrSelecting,
     ur_reader := RdLength []\<rparr>"

definition error_free_request :: udp_request where
  "error_free_request = accepted_request\<lparr>ur_errors := CheckingMessage False, ur_errCh_closed := True\<rparr>"

lemmas example_udp_request_defs = error_free_request_def accepted_request_def new_udp_request_def

lemma accepted_request_reachable: "udp_request_reachable accepted_request"
proof -
  let ?r1 = "new_udp_request\<lparr>ur_main := UrRequesting, ur_errors := ReadingErrors\<rparr>"
  have "udp_request_step Env new_udp_request ?r1" by (rule StreamsCreated) (simp add: new_udp_request_def)
  note 1 = udp_request_any_step [OF udp_request_new this]
  have "udp_request_step Env ?r1 (?r1\<lparr>ur_main := UrAwaiting, ur_writer := WrSelecting, ur_reader := RdLength []\<rparr>)"
    by (rule RequestAccepted) simp
  from udp_request_any_step [OF 1 this] show ?thesis by (simp add: accepted_request_def new_udp_request_def)
qed

lemma error_free_request_reachable: "udp_request_reachable error_free_request"
proof -
  let ?r1 = "accepted_request\<lparr>ur_errors := ClosingErrCh False\<rparr>"
  have "error_stream_result [] None = ([], False)" by code_simp
  then have "udp_request_step Env accepted_request ?r1"
    by (rule NoErrorRead [rotated]) (simp add: accepted_request_def)
  note 1 = udp_request_any_step [OF accepted_request_reachable this]
  have "udp_request_step Own ?r1 (?r1\<lparr>ur_errors := CheckingMessage False, ur_errCh_closed := True\<rparr>)"
    by (rule CloseErrCh) simp
  from udp_request_any_step [OF 1 this] show ?thesis by (simp add: error_free_request_def accepted_request_def)
qed

text \<open>A write that fails after one byte while the function receives the end of the error stream.\<close>

definition corrupted_request :: udp_request where
  "corrupted_request = error_free_request\<lparr>ur_main := UrTesting, ur_out := [0, 0, 1, 66], ur_forgot := True,
     ur_writer := WrTesting [0, 1, 66] False, ur_taken := [[0, 1, 65], [0, 1, 66]]\<rparr>"

lemma corrupted_request_reachable: "udp_request_reachable corrupted_request"
proof -
  let ?r1 = "error_free_request\<lparr>ur_writer := WrWriting [0, 1, 65], ur_taken := [[0, 1, 65]]\<rparr>"
  let ?r2 = "?r1\<lparr>ur_out := [0], ur_writer := WrTesting [0, 1, 65] True, ur_err := True\<rparr>"
  let ?r3 = "?r2\<lparr>ur_main := UrTesting, ur_err := False\<rparr>"
  let ?r4 = "?r3\<lparr>ur_writer := WrSelecting, ur_forgot := True\<rparr>"
  let ?r5 = "?r4\<lparr>ur_writer := WrWriting [0, 1, 66], ur_taken := [[0, 1, 65], [0, 1, 66]]\<rparr>"
  have "udp_request_step (Takes [0, 1, 65]) error_free_request ?r1"
    using TakePacket [of error_free_request "[0, 1, 65]"] by (simp add: example_udp_request_defs)
  note 1 = udp_request_any_step [OF error_free_request_reachable this]
  have "udp_request_step Env ?r1 ?r2"
    using PacketFails [of ?r1 "[0, 1, 65]" 1] by (simp add: example_udp_request_defs)
  note 2 = udp_request_any_step [OF 1 this]
  have "udp_request_step Own ?r2 ?r3" using ReceiveClosed [of ?r2] by (simp add: example_udp_request_defs)
  note 3 = udp_request_any_step [OF 2 this]
  have "udp_request_step Own ?r3 ?r4" using WriterGoesOn [of ?r3] by simp
  note 4 = udp_request_any_step [OF 3 this]
  have "udp_request_step (Takes [0, 1, 66]) ?r4 ?r5" using TakePacket [of ?r4 "[0, 1, 66]"] by simp
  note 5 = udp_request_any_step [OF 4 this]
  have "udp_request_step Env ?r5 (?r5\<lparr>ur_out := [0, 0, 1, 66], ur_writer := WrTesting [0, 1, 66] False, ur_err := False\<rparr>)"
    using PacketWritten [of ?r5 "[0, 1, 66]"] by simp
  from udp_request_any_step [OF 5 this] show ?thesis by (simp add: corrupted_request_def example_udp_request_defs)
qed

section \<open>Properties\<close>

text \<open>
  C19: The forwarder's view of its clients is right: a new \<open>handleUDPConn\<close> looks like a handler that opens
  its stream, and whatever it does in full, the forwarder can do one step, or none, after which its
  handler looks the same; a packet is taken just when the loop gives one, and the key when the
  cleaning goroutine is free. So what is proved of the forwarder holds with its clients in full.
\<close>

theorem udp_request_refines:
  assumes "udp_request_reachable r" and "udp_request_step l r r'" and "is_handler f ch (handler_of key r)"
    and "case l of Takes data \<Rightarrow> uf_loop f = Sending ch data | Finishes \<Rightarrow> uf_deleting f = None | _ \<Rightarrow> True"
  shows "handler_of key new_udp_request = new_udp_handler key Opening \<and>
    (\<exists>g. (udp_step get)\<^sup>=\<^sup>= f g \<and> is_handler g ch (handler_of key r'))"
proof -
  have started: "udp_started_ok r" using udp_request_invariant [OF assms(1)] by (simp add: udp_request_ok_def)
  note view = handler_of_step [OF assms(2) started, of key]
  have ch: "ch < length (uf_handlers f)" and h: "uf_handlers f ! ch = handler_of key r"
    using assms(3) by (simp_all add: is_handler_def)
  have set: "is_handler (set_handler ch h' f) ch h'" for h'
    using ch by (simp add: is_handler_def set_handler_def)
  have own: "\<exists>g. (udp_step get)\<^sup>=\<^sup>= f g \<and> is_handler g ch (handler_of key r')"
    if "handler_of key r' = handler_of key r \<or> handler_step (handler_of key r) (handler_of key r')"
    using that set [of "handler_of key r'"] udp_step.HandlerStep [OF assms(3)] assms(3) by auto
  have "\<exists>g. (udp_step get)\<^sup>=\<^sup>= f g \<and> is_handler g ch (handler_of key r')"
  proof (cases l)
    case (Takes data)
    from udp_step.Send [of f ch data "handler_of key r" get] assms(3,4) view Takes
    have "udp_step get f ((set_handler ch (handler_of key r') f)\<lparr>uf_loop := Reading\<rparr>)" by simp
    moreover have "is_handler ((set_handler ch (handler_of key r') f)\<lparr>uf_loop := Reading\<rparr>) ch (handler_of key r')"
      using set by (simp add: is_handler_def)
    ultimately show ?thesis by blast
  next
    case Finishes
    from udp_step.Finish [of f ch "handler_of key r" get] assms(3,4) view Finishes
    have "udp_step get f ((set_handler ch (handler_of key r') f)\<lparr>uf_deleting := Some (uh_key (handler_of key r))\<rparr>)" by simp
    moreover have "is_handler ((set_handler ch (handler_of key r') f)\<lparr>uf_deleting := Some (uh_key (handler_of key r))\<rparr>) ch
        (handler_of key r')"
      using set by (simp add: is_handler_def)
    ultimately show ?thesis by blast
  qed (use view own in simp_all)
  then show ?thesis by (simp add: handler_of_def new_udp_request_def new_udp_handler_def)
qed

text \<open>
  C30: \<open>handleUDPConn\<close> comes to its end once the error stream has ended: whichever of its own steps it
  takes, it comes to the send of its key, with the goroutine that reads the error stream gone, and does
  not stop before. When the data stream has ended too, the goroutine for replies is gone then; if it was
  not on its way out already, because a read or a write of it had failed, it has sent every reply that
  had arrived whole. And the one for packets is gone, if it was not in the middle of a write or the
  write comes to an outcome, with or without an error.
\<close>

theorem udp_request_returns:
  assumes "udp_request_reachable r" and "ur_reader r \<noteq> RdNone" and "ur_errors r \<noteq> ReadingErrors"
  shows "comes_to (udp_request_runs outcomes)
    (\<lambda>q. (ur_main q = UrFinishing \<or> ur_main q = UrReturned) \<and> ur_errors q = ErrorsDone \<and>
       (ur_eof r \<longrightarrow> ur_reader q = RdGone \<and>
          (ur_reader r \<noteq> RdClosing \<and> ur_reader r \<noteq> RdGone \<longrightarrow>
             (\<exists>part. ur_sent r = concat (map udp_frame (ur_replies q)) @ part \<and> incomplete_frame part)) \<and>
          (outcomes \<or> (\<nexists>d. ur_writer r = WrWriting d) \<longrightarrow> ur_writer q = WrGone))) r"
proof -
  have "comes_to (udp_request_runs outcomes) (\<lambda>q. udp_all_gone outcomes r q \<and> udp_ending_from outcomes r q) r"
  proof (rule comes_to_measure [where I = "udp_ending_from outcomes r" and measure = udp_request_rank])
    show "udp_ending_from outcomes r r"
      using assms udp_request_invariant by (auto simp: udp_ending_from_def udp_request_ending_def replies_drained_def)
  qed (use udp_ending_from_step udp_ending_goes_on in blast)+
  then show ?thesis
    by (rule comes_to_weaken) (unfold udp_all_gone_def udp_ending_from_def udp_main_over_def replies_drained_def, metis)
qed

theorem udp_request_refines_witness:
  "\<exists>g. (udp_step (\<lambda>_. Inl []))\<^sup>=\<^sup>=
      \<lparr>uf_track = new_conn_track, uf_loop = Sending 0 [0, 1, 65], uf_handlers = [handler_of ''c'' accepted_request],
       uf_deleting = None, uf_log = []\<rparr> g \<and>
    is_handler g 0 (handler_of ''c'' (accepted_request\<lparr>ur_writer := WrWriting [0, 1, 65], ur_taken := [[0, 1, 65]]\<rparr>))"
proof -
  have "udp_request_step (Takes [0, 1, 65]) accepted_request
      (accepted_request\<lparr>ur_writer := WrWriting [0, 1, 65], ur_taken := [[0, 1, 65]]\<rparr>)"
    using TakePacket [of accepted_request "[0, 1, 65]"] by (simp add: example_udp_request_defs)
  from udp_request_refines [OF accepted_request_reachable this,
      of "\<lparr>uf_track = new_conn_track, uf_loop = Sending 0 [0, 1, 65], uf_handlers = [handler_of ''c'' accepted_request],
       uf_deleting = None, uf_log = []\<rparr>" 0 "''c''" "\<lambda>_. Inl []"]
  show ?thesis by (simp add: is_handler_def)
qed

theorem udp_request_returns_witness:
  "comes_to (udp_request_runs True) (\<lambda>q. ur_errors q = ErrorsDone \<and> ur_reader q = RdGone \<and> ur_writer q = WrGone)
     (error_free_request\<lparr>ur_eof := True, ur_writer := WrWriting [0, 1, 65], ur_taken := [[0, 1, 65]]\<rparr>)"
proof -
  let ?r = "error_free_request\<lparr>ur_eof := True\<rparr>"
  have 1: "udp_request_reachable ?r"
    by (rule udp_request_any_step [OF error_free_request_reachable StreamEnds])
  have "udp_request_step (Takes [0, 1, 65]) ?r (?r\<lparr>ur_writer := WrWriting [0, 1, 65], ur_taken := [[0, 1, 65]]\<rparr>)"
    using TakePacket [of ?r "[0, 1, 65]"] by (simp add: example_udp_request_defs)
  from udp_request_returns [OF udp_request_any_step [OF 1 this], of True] show ?thesis
    by (simp add: example_udp_request_defs) (erule comes_to_weaken, simp)
qed

text \<open>
  C38: Packets of a client are written to its stream whole and in order, until the function has received
  from the error channel. After that a failed write can be forgotten: the function stores nil in the
  variable in which the goroutine has left its error and not yet looked, the goroutine goes on, and
  the next packet comes after a broken frame.
\<close>

theorem udp_write_errors:
  assumes "udp_request_reachable r" and "in_request (ur_main r) \<or> ur_main r = UrAwaiting"
  shows "prefix (ur_out r) (concat (ur_taken r)) \<and>
    (\<exists>q. udp_request_reachable q \<and> ur_main q = UrTesting \<and> \<not> prefix (ur_out q) (concat (ur_taken q)))"
proof -
  have "\<not> ur_forgot r"
    using udp_request_invariant [OF assms(1)] assms(2) by (auto simp: udp_request_ok_def udp_received_ok_def)
  moreover have "\<not> prefix (ur_out corrupted_request) (concat (ur_taken corrupted_request))"
    by (simp add: corrupted_request_def)
  moreover have "ur_main corrupted_request = UrTesting" by (simp add: corrupted_request_def)
  ultimately show ?thesis using packets_pipe.in_order corrupted_request_reachable assms(1) by blast
qed

theorem udp_write_errors_witness:
  "prefix (ur_out accepted_request) (concat (ur_taken accepted_request)) \<and> ur_main accepted_request = UrAwaiting"
  using udp_write_errors [OF accepted_request_reachable] by (simp add: example_udp_request_defs)

end
