(* ===== verification/Alarm.thy ===== *)
theory Alarm
  imports Pipes
begin

text \<open>
  The idle alarm of \<open>ProxyUDP\<close>, \<open>pkg/alarm/alarm.go\<close>, as a step relation: the goroutine of \<open>Start\<close>, its
  timer, the goroutines that are inside \<open>Reset\<close>, and the clock, which may advance between any two steps.
  The timer is that of Go 1.23 and later (\<open>go.mod\<close> asks for 1.26): its channel has no buffer, a receive
  is possible once the deadline has passed, and \<open>Stop\<close> answers whether it took a pending expiry away.
\<close>

section \<open>The timer\<close>

datatype timer = Armed nat | Inactive

definition timer_stop :: "timer \<Rightarrow> bool \<times> timer" where
  "timer_stop t = (case t of Armed _ \<Rightarrow> (True, Inactive) | Inactive \<Rightarrow> (False, Inactive))"

definition timer_ready :: "timer \<Rightarrow> nat \<Rightarrow> bool" where
  "timer_ready t clock = (case t of Armed deadline \<Rightarrow> deadline \<le> clock | Inactive \<Rightarrow> False)"

section \<open>The alarm\<close>

text \<open>
  Where the goroutine of \<open>Start\<close> is. \<open>Draining\<close> is inside \<open>stopTimer\<close>, at the receive that follows a
  \<open>Stop\<close> which answered false; its flag says where \<open>stopTimer\<close> was called from.
\<close>

datatype alarm_pc =
    NotStarted
  | Selecting
  | ClosingDone
  | StoppingTimer bool
  | Draining bool
  | Rearming
  | Returned
  | Panicked

text \<open>
  \<open>al_resetters\<close> counts the goroutines inside \<open>Reset\<close>. The last two fields are for the statements
  only: when the alarm was started or last accepted a reset, and how many resets it accepted.
\<close>

record alarm =
  al_d :: nat
  al_done :: bool
  al_timer :: timer
  al_pc :: alarm_pc
  al_resetters :: nat
  al_clock :: nat
  al_last :: nat
  al_accepted :: nat

definition new_alarm :: "nat \<Rightarrow> alarm" where
  "new_alarm d =
     \<lparr>al_d = d, al_done = False, al_timer = Inactive, al_pc = NotStarted, al_resetters = 0, al_clock = 0,
      al_last = 0, al_accepted = 0\<rparr>"

text \<open>\<open>Done\<close>.\<close>

definition alarm_done :: "alarm \<Rightarrow> bool" where
  "alarm_done a = al_done a"

inductive alarm_step :: "alarm \<Rightarrow> alarm \<Rightarrow> bool" where
  Tick: "alarm_step a (a\<lparr>al_clock := Suc (al_clock a)\<rparr>)"
| Start: "al_pc a = NotStarted \<Longrightarrow>
    alarm_step a (a\<lparr>al_pc := Selecting, al_timer := Armed (al_clock a + al_d a), al_last := al_clock a\<rparr>)"
| Expire: "al_pc a = Selecting \<Longrightarrow> timer_ready (al_timer a) (al_clock a) \<Longrightarrow>
    alarm_step a (a\<lparr>al_pc := ClosingDone, al_timer := Inactive\<rparr>)"
| CloseDone: "al_pc a = ClosingDone \<Longrightarrow>
    alarm_step a (if al_done a then a\<lparr>al_pc := Panicked\<rparr>
                  else a\<lparr>al_done := True, al_pc := StoppingTimer True\<rparr>)"
| StopTimer: "al_pc a = StoppingTimer exiting \<Longrightarrow> timer_stop (al_timer a) = (stopped, t) \<Longrightarrow>
    alarm_step a (a\<lparr>al_timer := t,
      al_pc := (if stopped then (if exiting then Returned else Rearming) else Draining exiting)\<rparr>)"
| Drain: "al_pc a = Draining exiting \<Longrightarrow> timer_ready (al_timer a) (al_clock a) \<Longrightarrow>
    alarm_step a (a\<lparr>al_timer := Inactive, al_pc := (if exiting then Returned else Rearming)\<rparr>)"
| Rearm: "al_pc a = Rearming \<Longrightarrow>
    alarm_step a (a\<lparr>al_timer := Armed (al_clock a + al_d a), al_pc := Selecting\<rparr>)"
| EnterReset: "alarm_step a (a\<lparr>al_resetters := Suc (al_resetters a)\<rparr>)"
| ResetAccepted: "al_pc a = Selecting \<Longrightarrow> al_resetters a = Suc n \<Longrightarrow>
    alarm_step a (a\<lparr>al_resetters := n, al_pc := StoppingTimer False, al_last := al_clock a,
      al_accepted := Suc (al_accepted a)\<rparr>)"
| ResetAfterDone: "al_done a \<Longrightarrow> al_resetters a = Suc n \<Longrightarrow> alarm_step a (a\<lparr>al_resetters := n\<rparr>)"

inductive_cases alarm_stepE: "alarm_step a b"

definition alarm_steps :: "alarm \<Rightarrow> alarm \<Rightarrow> bool" where
  "alarm_steps = alarm_step\<^sup>*\<^sup>*"

definition alarm_reachable :: "nat \<Rightarrow> alarm \<Rightarrow> bool" where
  "alarm_reachable d a = alarm_steps (new_alarm d) a"

section \<open>The invariant\<close>

definition alarm_inv :: "nat \<Rightarrow> alarm \<Rightarrow> bool" where
  "alarm_inv d a \<longleftrightarrow>
     al_d a = d \<and> al_last a \<le> al_clock a \<and>
     (case al_pc a of
        NotStarted \<Rightarrow> \<not> al_done a \<and> al_timer a = Inactive
      | Selecting \<Rightarrow> \<not> al_done a \<and> (\<exists>t. al_timer a = Armed t \<and> al_last a + d \<le> t)
      | ClosingDone \<Rightarrow> \<not> al_done a \<and> al_timer a = Inactive \<and> al_last a + d \<le> al_clock a
      | StoppingTimer exiting \<Rightarrow>
          if exiting then al_done a \<and> al_timer a = Inactive \<and> al_last a + d \<le> al_clock a
          else \<not> al_done a \<and> al_timer a \<noteq> Inactive
      | Draining exiting \<Rightarrow> exiting \<and> al_done a \<and> al_timer a = Inactive \<and> al_last a + d \<le> al_clock a
      | Rearming \<Rightarrow> \<not> al_done a
      | Returned \<Rightarrow> False
      | Panicked \<Rightarrow> False)"

lemma alarm_inv_init: "alarm_inv d (new_alarm d)"
  by (simp add: alarm_inv_def new_alarm_def)

lemma alarm_inv_step: "alarm_step a b \<Longrightarrow> alarm_inv d a \<Longrightarrow> alarm_inv d b"
  by (erule alarm_stepE)
    (auto simp: alarm_inv_def timer_ready_def timer_stop_def split: alarm_pc.splits timer.splits if_splits)

lemma alarm_inv_reachable: "alarm_reachable d a \<Longrightarrow> alarm_inv d a"
  unfolding alarm_reachable_def alarm_steps_def
  by (induction rule: rtranclp_induct) (auto intro: alarm_inv_init alarm_inv_step)

lemma alarm_done_step: "alarm_step a b \<Longrightarrow> al_done a \<Longrightarrow> al_done b"
  by (erule alarm_stepE) (auto split: if_splits)

lemma alarm_steps_refl [simp]: "alarm_steps a a"
  by (simp add: alarm_steps_def)

lemma alarm_steps_step: "alarm_step a b \<Longrightarrow> alarm_steps b c \<Longrightarrow> alarm_steps a c"
  by (simp add: alarm_steps_def converse_rtranclp_into_rtranclp)

text \<open>The steps of the alarm's goroutine: the clock does not advance, and no one enters or leaves \<open>Reset\<close>.\<close>

definition alarm_quiet :: "alarm \<Rightarrow> alarm \<Rightarrow> bool" where
  "alarm_quiet a b \<longleftrightarrow> alarm_step a b \<and> al_clock b = al_clock a \<and> al_resetters b = al_resetters a"

lemma alarm_quiet_steps: "alarm_quiet\<^sup>*\<^sup>* a b \<Longrightarrow> alarm_steps a b"
  unfolding alarm_steps_def by (erule rtranclp_mono [THEN predicate2D, rotated]) (auto simp: alarm_quiet_def)

lemma alarm_quiet_keeps:
  "alarm_quiet\<^sup>*\<^sup>* a b \<Longrightarrow> al_clock b = al_clock a \<and> al_resetters b = al_resetters a"
  by (induction rule: rtranclp_induct) (auto simp: alarm_quiet_def)

text \<open>It has finitely many of them between two resets.\<close>

fun alarm_pc_rank :: "alarm_pc \<Rightarrow> nat" where
  "alarm_pc_rank NotStarted = 4"
| "alarm_pc_rank (StoppingTimer exiting) = (if exiting then 1 else 5)"
| "alarm_pc_rank Rearming = 4"
| "alarm_pc_rank Selecting = 3"
| "alarm_pc_rank ClosingDone = 2"
| "alarm_pc_rank _ = 0"

lemma alarm_quiet_rank:
  assumes "alarm_quiet a b" and "alarm_inv d a"
  shows "alarm_pc_rank (al_pc b) < alarm_pc_rank (al_pc a)"
proof -
  from assms(1) have "alarm_step a b" and q: "al_clock b = al_clock a" "al_resetters b = al_resetters a"
    by (auto simp: alarm_quiet_def)
  from this(1) show ?thesis
    by (cases rule: alarm_step.cases)
      (use q assms(2) in \<open>auto simp: alarm_inv_def timer_ready_def timer_stop_def split: timer.splits if_splits\<close>)
qed

text \<open>A reset that is accepted starts them again.\<close>

lemma alarm_reset_rank:
  "alarm_step a b \<Longrightarrow> al_resetters a = Suc (al_resetters b) \<Longrightarrow> alarm_pc_rank (al_pc b) \<le> alarm_pc_rank (al_pc a) + 2"
  by (erule alarm_stepE) (auto split: if_splits)

text \<open>The goroutine gets back to its select, or is done, without waiting for the clock.\<close>

lemma alarm_quiet_goes_on:
  assumes "alarm_inv d a" and "\<not> (al_done a \<or> al_pc a = Selecting)"
  shows "\<exists>b. alarm_quiet a b"
proof (cases "al_pc a")
  case NotStarted
  from alarm_step.Start [OF this] show ?thesis by (force simp: alarm_quiet_def)
next
  case ClosingDone
  from CloseDone [OF this] assms(2) have "alarm_quiet a (a\<lparr>al_done := True, al_pc := StoppingTimer True\<rparr>)"
    by (simp add: alarm_quiet_def)
  then show ?thesis by blast
next
  case (StoppingTimer exiting)
  obtain stopped t where "timer_stop (al_timer a) = (stopped, t)" by fastforce
  from StopTimer [OF StoppingTimer this] show ?thesis by (force simp: alarm_quiet_def)
next
  case Rearming
  from Rearm [OF this] show ?thesis by (force simp: alarm_quiet_def)
qed (use assms in \<open>auto simp: alarm_inv_def\<close>)

lemma alarm_settles:
  assumes "alarm_inv d a"
  shows "comes_to alarm_quiet (\<lambda>b. al_done b \<or> al_pc b = Selecting) a"
  by (rule comes_to_measure [where I = "alarm_inv d" and measure = "\<lambda>a. alarm_pc_rank (al_pc a)"])
    (use assms alarm_quiet_rank alarm_quiet_goes_on in \<open>auto simp: alarm_quiet_def intro: alarm_inv_step\<close>)

text \<open>Then a goroutine inside \<open>Reset\<close> can leave it.\<close>

lemma alarm_reset_leaves:
  assumes "al_done a \<or> al_pc a = Selecting" and "al_resetters a = Suc n"
  shows "\<exists>b. alarm_step a b \<and> al_resetters b = n \<and> al_clock b = al_clock a \<and> al_done b = al_done a"
  using ResetAfterDone [of a n] ResetAccepted [of a n] assms by force

text \<open>A done alarm accepts no reset.\<close>

lemma alarm_done_accepted_step:
  "alarm_step a b \<Longrightarrow> al_done a \<Longrightarrow> alarm_inv d a \<Longrightarrow> al_accepted b = al_accepted a"
  by (erule alarm_stepE) (auto simp: alarm_inv_def)

lemma alarm_done_accepted:
  "alarm_steps a b \<Longrightarrow> alarm_inv d a \<Longrightarrow> al_done a \<Longrightarrow>
     al_done b \<and> al_accepted b = al_accepted a \<and> alarm_inv d b"
  unfolding alarm_steps_def
proof (induction rule: rtranclp_induct)
  case (step b c)
  then have "al_done b" "alarm_inv d b" "al_accepted b = al_accepted a" by simp_all
  with step(2) show ?case
    using alarm_done_accepted_step [of b c d] alarm_done_step [of b c] alarm_inv_step [of b c d] by simp
qed simp

lemma alarm_inv_done:
  assumes "alarm_inv d a"
  shows "al_done a \<Longrightarrow> al_last a + d \<le> al_clock a" and "al_pc a \<noteq> Panicked" and "al_pc a \<noteq> Returned"
    and "al_done a \<Longrightarrow> al_pc a = StoppingTimer True \<or> al_pc a = Draining True \<and> al_timer a = Inactive"
  using assms by (cases "al_pc a"; simp add: alarm_inv_def split: if_splits)+

text \<open>An alarm of two ticks that goes off.\<close>

definition example_armed :: "nat \<Rightarrow> alarm" where
  "example_armed clock =
     \<lparr>al_d = 2, al_done = False, al_timer = Armed 2, al_pc = Selecting, al_resetters = 0, al_clock = clock,
      al_last = 0, al_accepted = 0\<rparr>"

definition example_expired :: alarm where
  "example_expired = (example_armed 2)\<lparr>al_timer := Inactive, al_done := True, al_pc := StoppingTimer True\<rparr>"

lemma example_alarm_reachable: "alarm_reachable 2 (example_armed 0)" "alarm_reachable 2 example_expired"
proof -
  let ?u = "(example_armed 2)\<lparr>al_pc := ClosingDone, al_timer := Inactive\<rparr>"
  have 1: "alarm_step (new_alarm 2) (example_armed 0)"
    using Start [of "new_alarm 2"] by (simp add: new_alarm_def example_armed_def numeral_2_eq_2)
  have 2: "alarm_step (example_armed n) (example_armed (Suc n))" for n
    using Tick [of "example_armed n"] by (simp add: example_armed_def)
  have 3: "alarm_step (example_armed 2) ?u"
    using Expire [of "example_armed 2"] by (simp add: example_armed_def timer_ready_def)
  have 4: "alarm_step ?u example_expired"
    using CloseDone [of ?u] by (simp add: example_armed_def example_expired_def)
  show "alarm_reachable 2 (example_armed 0)"
    unfolding alarm_reachable_def by (rule alarm_steps_step [OF 1 alarm_steps_refl])
  show "alarm_reachable 2 example_expired"
    unfolding alarm_reachable_def
    using alarm_steps_step [OF 1 alarm_steps_step [OF 2 alarm_steps_step [OF 2 [of "Suc 0"]
      alarm_steps_step [OF 3 [unfolded numeral_2_eq_2] alarm_steps_step [OF 4 [unfolded numeral_2_eq_2] alarm_steps_refl]]]]]
    by (simp only: numeral_2_eq_2)
qed

section \<open>Properties\<close>

text \<open>
  The alarm goes off only after the time it was made for has passed without a reset: whenever \<open>Done\<close>
  is true, that long ago the alarm was started or accepted its last reset. It stays done, and the
  channel is not closed twice.
\<close>

lemma alarm_not_early:
  assumes "alarm_reachable d a"
  shows "(alarm_done a \<longrightarrow> al_last a + d \<le> al_clock a) \<and> al_pc a \<noteq> Panicked
    \<and> (\<forall>b. alarm_done a \<and> alarm_steps a b \<longrightarrow> alarm_done b \<and> al_accepted b = al_accepted a)"
proof -
  have inv: "alarm_inv d a" by (rule alarm_inv_reachable [OF assms])
  then have "al_done a \<longrightarrow> al_last a + d \<le> al_clock a" and "al_pc a \<noteq> Panicked"
    using alarm_inv_done(1,2) [OF inv] by blast+
  moreover have "al_done b \<and> al_accepted b = al_accepted a" if "al_done a" "alarm_steps a b" for b
    using alarm_done_accepted [OF that(2) inv that(1)] by simp
  ultimately show ?thesis unfolding alarm_done_def by blast
qed

text \<open>
  \<open>Reset\<close> does not block on a started alarm: whatever the other goroutines do, the alarm can take the
  reset, or is done, before the clock advances.
\<close>

lemma alarm_reset_returns:
  assumes "alarm_reachable d a" and "al_pc a \<noteq> NotStarted" and "al_resetters a = Suc n"
  shows "\<exists>b. alarm_steps a b \<and> al_resetters b = n \<and> al_clock b = al_clock a"
proof -
  obtain b where b: "alarm_quiet\<^sup>*\<^sup>* a b" "al_done b \<or> al_pc b = Selecting"
    using comes_to_leads [OF alarm_settles [OF alarm_inv_reachable [OF assms(1)]]] by (auto simp: leads_def)
  with alarm_quiet_keeps [OF b(1)] assms(3) obtain c where
    "alarm_step b c" "al_resetters c = n" "al_clock c = al_clock a"
    using alarm_reset_leaves [OF b(2), of n] by auto
  then show ?thesis
    using alarm_quiet_steps [OF b(1)] by (auto simp: alarm_steps_def intro: rtranclp.rtrancl_into_rtrancl)
qed

text \<open>
  The goroutine of an alarm that has gone off never returns: \<open>stopTimer\<close> stops a timer whose expiry
  was received already, \<open>Stop\<close> answers false, and the receive that follows waits forever.
\<close>

lemma alarm_goroutine_leaks:
  assumes "alarm_reachable d a"
  shows "al_pc a \<noteq> Returned \<and>
    (alarm_done a \<longrightarrow> al_pc a = StoppingTimer True \<or> al_pc a = Draining True \<and> al_timer a = Inactive)"
  using alarm_inv_done [OF alarm_inv_reachable [OF assms]] by (simp add: alarm_done_def)

end
