(* ===== verification/Udp_Proxy.thy ===== *)
theory Udp_Proxy
  imports Udp Alarm
begin

text \<open>
  \<open>ProxyUDP\<close>, \<open>pkg/xnet/udp.go\<close>, as a whole: its two goroutines with their read deadlines, the idle alarm
  of \<open>Alarm\<close> that both of them reset and ask, and the select that closes one side after the other. The
  clock is the alarm's; the peers send, close and fail at any time. \<open>Udp\<close> models the two loops alone, as
  functions of what their connections deliver.
\<close>

section \<open>Connections with deadlines\<close>

text \<open>Times are nanoseconds.\<close>

definition seconds :: "nat \<Rightarrow> nat" where "seconds n = n * 1000000000"

definition idleTimeout :: nat where "idleTimeout = seconds 110"

definition readTimeout :: nat where "readTimeout = seconds 5"

text \<open>
  \<open>setReadDeadline\<close>, for the deadline a connection has: none where it was never set. Reads fail with a
  timeout once it has passed.
\<close>

definition set_read_deadline :: "nat \<Rightarrow> nat \<Rightarrow> nat option \<Rightarrow> nat option" where
  "set_read_deadline clock timeout deadline = (if 0 < timeout then Some (clock + timeout) else deadline)"

text \<open>
  The deadlines under which \<open>readFullWithTimeout\<close> and \<open>readConnWithTimeout\<close> read: the former sets one only
  when its reader is a \<open>net.Conn\<close>.
\<close>

definition read_full_with_timeout :: "bool \<Rightarrow> nat \<Rightarrow> nat \<Rightarrow> nat option \<Rightarrow> nat option" where
  "read_full_with_timeout isConn clock timeout deadline =
     (if isConn then set_read_deadline clock timeout deadline else deadline)"

definition read_conn_with_timeout :: "nat \<Rightarrow> nat \<Rightarrow> nat option \<Rightarrow> nat option" where
  "read_conn_with_timeout clock timeout deadline = set_read_deadline clock timeout deadline"

lemmas read_deadline_defs = read_full_with_timeout_def read_conn_with_timeout_def set_read_deadline_def

definition deadline_passed :: "nat \<Rightarrow> nat option \<Rightarrow> bool" where
  "deadline_passed clock deadline \<longleftrightarrow> (case deadline of None \<Rightarrow> False | Some t \<Rightarrow> t \<le> clock)"

text \<open>
  The client's stream: the bytes that have arrived and were not read; whether its peer has closed;
  whether \<open>CloseRead\<close> was called; the read deadline; the bytes written to it. And the upstream socket:
  the datagrams that have arrived; whether it was closed; the deadline; the packets written. All that
  has arrived, \<open>dc_sent\<close> and \<open>uc_sent\<close>, is for the statements only.
\<close>

record client_stream =
  dc_in :: "byte list"
  dc_eof :: bool
  dc_readShut :: bool
  dc_deadline :: "nat option"
  dc_out :: "byte list"
  dc_sent :: "byte list"

record udp_socket =
  uc_in :: "byte list list"
  uc_closed :: bool
  uc_deadline :: "nat option"
  uc_out :: "byte list list"
  uc_sent :: "byte list list"

section \<open>The goroutines\<close>

text \<open>
  The loop from the client to the socket: at its top; in \<open>io.ReadFull\<close> of the two bytes of a length,
  with those it has; in that of a body, with the length and the bytes it has; writing a datagram; inside
  \<open>Reset\<close>; past a read that timed out; or ended, with its channel closed.
\<close>

datatype down_loop =
    DownTop
  | DownLength "byte list"
  | DownBody u16 "byte list"
  | DownWrite "byte list"
  | DownReset
  | DownTimedOut
  | DownEnded

text \<open>The loop from the socket to the client.\<close>

datatype up_loop =
    UpTop
  | UpRead
  | UpWrite "byte list"
  | UpReset
  | UpTimedOut
  | UpEnded

text \<open>The function: at its select; waiting for the channel of a loop; or returned.\<close>

datatype udp_main = UdpSelecting | WaitUpClosed | WaitDownClosed | UdpReturned

text \<open>
  The last four fields are for the statements only: whether a read or a write has failed or the client
  has closed; the datagrams read from the client; whether a deadline passed inside a frame; and the
  datagrams read from the socket.
\<close>

record udp_proxy =
  up_client :: client_stream
  up_socket :: udp_socket
  up_alarm :: alarm
  up_down :: down_loop
  up_up :: up_loop
  up_main :: udp_main
  up_failed :: bool
  up_frames :: "byte list list"
  up_partLost :: bool
  up_read :: "byte list list"

definition new_udp_proxy :: udp_proxy where
  "new_udp_proxy =
     \<lparr>up_client = \<lparr>dc_in = [], dc_eof = False, dc_readShut = False, dc_deadline = None, dc_out = [], dc_sent = []\<rparr>,
      up_socket = \<lparr>uc_in = [], uc_closed = False, uc_deadline = None, uc_out = [], uc_sent = []\<rparr>,
      up_alarm = new_alarm idleTimeout, up_down = DownTop, up_up = UpTop, up_main = UdpSelecting,
      up_failed = False, up_frames = [], up_partLost = False, up_read = []\<rparr>"

definition upd_client :: "(client_stream \<Rightarrow> client_stream) \<Rightarrow> udp_proxy \<Rightarrow> udp_proxy" where
  "upd_client f p = p\<lparr>up_client := f (up_client p)\<rparr>"

definition upd_socket :: "(udp_socket \<Rightarrow> udp_socket) \<Rightarrow> udp_proxy \<Rightarrow> udp_proxy" where
  "upd_socket f p = p\<lparr>up_socket := f (up_socket p)\<rparr>"

definition upd_alarm :: "(alarm \<Rightarrow> alarm) \<Rightarrow> udp_proxy \<Rightarrow> udp_proxy" where
  "upd_alarm f p = p\<lparr>up_alarm := f (up_alarm p)\<rparr>"

abbreviation up_clock :: "udp_proxy \<Rightarrow> nat" where
  "up_clock p \<equiv> al_clock (up_alarm p)"

lemma upd_udp_simps [simp]:
  "up_client (upd_client f p) = f (up_client p)" "up_socket (upd_client f p) = up_socket p"
  "up_alarm (upd_client f p) = up_alarm p" "up_down (upd_client f p) = up_down p"
  "up_up (upd_client f p) = up_up p" "up_main (upd_client f p) = up_main p"
  "up_failed (upd_client f p) = up_failed p" "up_frames (upd_client f p) = up_frames p"
  "up_partLost (upd_client f p) = up_partLost p" "up_read (upd_client f p) = up_read p"
  "up_client (upd_socket g p) = up_client p" "up_socket (upd_socket g p) = g (up_socket p)"
  "up_alarm (upd_socket g p) = up_alarm p" "up_down (upd_socket g p) = up_down p"
  "up_up (upd_socket g p) = up_up p" "up_main (upd_socket g p) = up_main p"
  "up_failed (upd_socket g p) = up_failed p" "up_frames (upd_socket g p) = up_frames p"
  "up_partLost (upd_socket g p) = up_partLost p" "up_read (upd_socket g p) = up_read p"
  "up_client (upd_alarm h p) = up_client p" "up_socket (upd_alarm h p) = up_socket p"
  "up_alarm (upd_alarm h p) = h (up_alarm p)" "up_down (upd_alarm h p) = up_down p"
  "up_up (upd_alarm h p) = up_up p" "up_main (upd_alarm h p) = up_main p"
  "up_failed (upd_alarm h p) = up_failed p" "up_frames (upd_alarm h p) = up_frames p"
  "up_partLost (upd_alarm h p) = up_partLost p" "up_read (upd_alarm h p) = up_read p"
  by (simp_all add: upd_client_def upd_socket_def upd_alarm_def)

definition enter_reset :: "udp_proxy \<Rightarrow> udp_proxy" where
  "enter_reset = upd_alarm (\<lambda>a. a\<lparr>al_resetters := Suc (al_resetters a)\<rparr>)"

lemma enter_reset_simps [simp]:
  "up_client (enter_reset p) = up_client p" "up_socket (enter_reset p) = up_socket p"
  "up_alarm (enter_reset p) = (up_alarm p)\<lparr>al_resetters := Suc (al_resetters (up_alarm p))\<rparr>"
  "up_down (enter_reset p) = up_down p" "up_up (enter_reset p) = up_up p" "up_main (enter_reset p) = up_main p"
  "up_failed (enter_reset p) = up_failed p" "up_frames (enter_reset p) = up_frames p"
  "up_partLost (enter_reset p) = up_partLost p" "up_read (enter_reset p) = up_read p"
  by (simp_all add: enter_reset_def)

text \<open>The bytes of a frame the loop has read of its current one, and whether it is still reading.\<close>

fun frame_part :: "down_loop \<Rightarrow> byte list" where
  "frame_part (DownLength got) = got"
| "frame_part (DownBody v got) = put_uint16 v @ got"
| "frame_part _ = []"

fun reading_frame :: "down_loop \<Rightarrow> bool" where
  "reading_frame (DownLength got) = True"
| "reading_frame (DownBody v got) = (length got < unat v)"
| "reading_frame _ = False"

text \<open>
  The flag of a step says that it is the program's own; the others are the clock's, the peers' and the
  network's. A write to the client may block as long as the client does not read, so that it goes
  through is a step of the network; a packet that is sent does not wait. A shut reading side gives the end
  of the stream. UDP itself bounds a datagram by 16 bits.
\<close>

inductive udp_proxy_step :: "bool \<Rightarrow> udp_proxy \<Rightarrow> udp_proxy \<Rightarrow> bool" where
  Tick: "udp_proxy_step False p (upd_alarm (\<lambda>a. a\<lparr>al_clock := Suc (al_clock a)\<rparr>) p)"
| AlarmRuns: "alarm_quiet (up_alarm p) a \<Longrightarrow> udp_proxy_step True p (p\<lparr>up_alarm := a\<rparr>)"
| ClientSends: "\<not> dc_eof (up_client p) \<Longrightarrow>
    udp_proxy_step False p (upd_client (\<lambda>c. c\<lparr>dc_in := dc_in c @ bs, dc_sent := dc_sent c @ bs\<rparr>) p)"
| ClientCloses: "udp_proxy_step False p (upd_client (\<lambda>c. c\<lparr>dc_eof := True\<rparr>) p)"
| DatagramArrives: "length d < 65536 \<Longrightarrow>
    udp_proxy_step False p (upd_socket (\<lambda>c. c\<lparr>uc_in := uc_in c @ [d], uc_sent := uc_sent c @ [d]\<rparr>) p)"
| DownStart: "up_down p = DownTop \<Longrightarrow>
    udp_proxy_step True p ((upd_client (\<lambda>c. c\<lparr>dc_deadline := read_full_with_timeout True (up_clock p) readTimeout (dc_deadline c)\<rparr>) p)
      \<lparr>up_down := DownLength []\<rparr>)"
| DownReadLength: "up_down p = DownLength got \<Longrightarrow> dc_in (up_client p) = bs @ rest \<Longrightarrow> bs \<noteq> [] \<Longrightarrow>
    length (got @ bs) < 2 \<Longrightarrow>
    udp_proxy_step True p ((upd_client (\<lambda>c. c\<lparr>dc_in := rest\<rparr>) p)\<lparr>up_down := DownLength (got @ bs)\<rparr>)"
| DownHasLength: "up_down p = DownLength got \<Longrightarrow> dc_in (up_client p) = bs @ rest \<Longrightarrow> bs \<noteq> [] \<Longrightarrow>
    length (got @ bs) = 2 \<Longrightarrow>
    udp_proxy_step True p ((upd_client (\<lambda>c. c\<lparr>dc_in := rest,
        dc_deadline := read_full_with_timeout True (up_clock p) readTimeout (dc_deadline c)\<rparr>) p)
      \<lparr>up_down := DownBody (get_uint16 (got @ bs)) []\<rparr>)"
| DownReadBody: "up_down p = DownBody v got \<Longrightarrow> dc_in (up_client p) = bs @ rest \<Longrightarrow> bs \<noteq> [] \<Longrightarrow>
    length (got @ bs) \<le> unat v \<Longrightarrow>
    udp_proxy_step True p ((upd_client (\<lambda>c. c\<lparr>dc_in := rest\<rparr>) p)\<lparr>up_down := DownBody v (got @ bs)\<rparr>)"
| DownHasFrame: "up_down p = DownBody v got \<Longrightarrow> length got = unat v \<Longrightarrow>
    udp_proxy_step True p (p\<lparr>up_down := DownWrite got, up_frames := up_frames p @ [got]\<rparr>)"
| DownTimesOut: "reading_frame (up_down p) \<Longrightarrow> deadline_passed (up_clock p) (dc_deadline (up_client p)) \<Longrightarrow>
    udp_proxy_step True p (p\<lparr>up_down := DownTimedOut,
      up_partLost := (up_partLost p \<or> frame_part (up_down p) \<noteq> [])\<rparr>)"
| DownEOF: "reading_frame (up_down p) \<Longrightarrow> dc_in (up_client p) = [] \<Longrightarrow> dc_eof (up_client p) \<Longrightarrow>
    udp_proxy_step True p (p\<lparr>up_down := DownEnded, up_failed := True\<rparr>)"
| DownShut: "reading_frame (up_down p) \<Longrightarrow> dc_readShut (up_client p) \<Longrightarrow>
    udp_proxy_step True p (p\<lparr>up_down := DownEnded\<rparr>)"
| DownReadFails: "reading_frame (up_down p) \<Longrightarrow>
    udp_proxy_step False p (p\<lparr>up_down := DownEnded, up_failed := True\<rparr>)"
| DownAsksAlarm: "up_down p = DownTimedOut \<Longrightarrow>
    udp_proxy_step True p (p\<lparr>up_down := (if alarm_done (up_alarm p) then DownEnded else DownTop)\<rparr>)"
| DownWritesNothing: "up_down p = DownWrite [] \<Longrightarrow>
    udp_proxy_step True p (enter_reset (p\<lparr>up_down := DownReset\<rparr>))"
| DownWrites: "up_down p = DownWrite d \<Longrightarrow> d \<noteq> [] \<Longrightarrow> \<not> uc_closed (up_socket p) \<Longrightarrow>
    udp_proxy_step True p (enter_reset ((upd_socket (\<lambda>c. c\<lparr>uc_out := uc_out c @ [d]\<rparr>) p)\<lparr>up_down := DownReset\<rparr>))"
| DownWriteClosed: "up_down p = DownWrite d \<Longrightarrow> d \<noteq> [] \<Longrightarrow> uc_closed (up_socket p) \<Longrightarrow>
    udp_proxy_step True p (p\<lparr>up_down := DownEnded\<rparr>)"
| DownWriteFails: "up_down p = DownWrite d \<Longrightarrow> d \<noteq> [] \<Longrightarrow>
    udp_proxy_step False p (p\<lparr>up_down := DownEnded, up_failed := True\<rparr>)"
| DownLeavesReset: "up_down p = DownReset \<Longrightarrow> alarm_step (up_alarm p) a \<Longrightarrow>
    al_resetters (up_alarm p) = Suc (al_resetters a) \<Longrightarrow>
    udp_proxy_step True p (p\<lparr>up_alarm := a, up_down := DownTop\<rparr>)"
| UpStart: "up_up p = UpTop \<Longrightarrow>
    udp_proxy_step True p ((upd_socket (\<lambda>c. c\<lparr>uc_deadline := read_conn_with_timeout (up_clock p) readTimeout (uc_deadline c)\<rparr>) p)
      \<lparr>up_up := UpRead\<rparr>)"
| UpReads: "up_up p = UpRead \<Longrightarrow> uc_in (up_socket p) = d # ds \<Longrightarrow> \<not> uc_closed (up_socket p) \<Longrightarrow>
    length buf = UDPBufferSize \<Longrightarrow> udp_conn_read buf d None = (buf', n, None) \<Longrightarrow>
    udp_proxy_step True p ((upd_socket (\<lambda>c. c\<lparr>uc_in := ds\<rparr>) p)
      \<lparr>up_up := UpWrite (take n buf'), up_read := up_read p @ [d]\<rparr>)"
| UpTimesOut: "up_up p = UpRead \<Longrightarrow> deadline_passed (up_clock p) (uc_deadline (up_socket p)) \<Longrightarrow>
    udp_proxy_step True p (p\<lparr>up_up := UpTimedOut\<rparr>)"
| UpReadClosed: "up_up p = UpRead \<Longrightarrow> uc_closed (up_socket p) \<Longrightarrow>
    udp_proxy_step True p (p\<lparr>up_up := UpEnded\<rparr>)"
| UpReadFails: "up_up p = UpRead \<Longrightarrow> udp_proxy_step False p (p\<lparr>up_up := UpEnded, up_failed := True\<rparr>)"
| UpAsksAlarm: "up_up p = UpTimedOut \<Longrightarrow>
    udp_proxy_step True p (p\<lparr>up_up := (if alarm_done (up_alarm p) then UpEnded else UpTop)\<rparr>)"
| UpWrites: "up_up p = UpWrite bs \<Longrightarrow>
    udp_proxy_step False p (enter_reset ((upd_client (\<lambda>c. c\<lparr>dc_out := dc_out c @ bs\<rparr>) p)\<lparr>up_up := UpReset\<rparr>))"
| UpWriteFails: "up_up p = UpWrite bs \<Longrightarrow>
    udp_proxy_step False p ((upd_client (\<lambda>c. c\<lparr>dc_out := dc_out c @ take k bs\<rparr>) p)\<lparr>up_up := UpEnded, up_failed := True\<rparr>)"
| UpLeavesReset: "up_up p = UpReset \<Longrightarrow> alarm_step (up_alarm p) a \<Longrightarrow>
    al_resetters (up_alarm p) = Suc (al_resetters a) \<Longrightarrow>
    udp_proxy_step True p (p\<lparr>up_alarm := a, up_up := UpTop\<rparr>)"
| SelectDown: "up_main p = UdpSelecting \<Longrightarrow> up_down p = DownEnded \<Longrightarrow>
    udp_proxy_step True p ((upd_socket (\<lambda>c. c\<lparr>uc_closed := True\<rparr>) p)\<lparr>up_main := WaitUpClosed\<rparr>)"
| SelectUp: "up_main p = UdpSelecting \<Longrightarrow> up_up p = UpEnded \<Longrightarrow>
    udp_proxy_step True p ((upd_client (\<lambda>c. c\<lparr>dc_readShut := True\<rparr>) p)\<lparr>up_main := WaitDownClosed\<rparr>)"
| ReturnUp: "up_main p = WaitUpClosed \<Longrightarrow> up_up p = UpEnded \<Longrightarrow>
    udp_proxy_step True p (p\<lparr>up_main := UdpReturned\<rparr>)"
| ReturnDown: "up_main p = WaitDownClosed \<Longrightarrow> up_down p = DownEnded \<Longrightarrow>
    udp_proxy_step True p (p\<lparr>up_main := UdpReturned\<rparr>)"

inductive_cases udp_proxy_stepE: "udp_proxy_step own p q"

definition udp_proxy_any :: "udp_proxy \<Rightarrow> udp_proxy \<Rightarrow> bool" where
  "udp_proxy_any p q \<longleftrightarrow> (\<exists>own. udp_proxy_step own p q)"

definition udp_proxy_reachable :: "udp_proxy \<Rightarrow> bool" where
  "udp_proxy_reachable = udp_proxy_any\<^sup>*\<^sup>* new_udp_proxy"

section \<open>Invariants\<close>

text \<open>The goroutines inside \<open>Reset\<close> are loops of this function, and the alarm runs as it does alone.\<close>

definition resetting :: "udp_proxy \<Rightarrow> nat" where
  "resetting p = (if up_down p = DownReset then 1 else 0) + (if up_up p = UpReset then 1 else 0)"

definition udp_alarm_ok :: "udp_proxy \<Rightarrow> bool" where
  "udp_alarm_ok p \<longleftrightarrow> alarm_reachable idleTimeout (up_alarm p) \<and> al_resetters (up_alarm p) = resetting p"

lemma alarm_reachable_step: "alarm_reachable d a \<Longrightarrow> alarm_step a b \<Longrightarrow> alarm_reachable d b"
  by (auto simp: alarm_reachable_def alarm_steps_def intro: rtranclp.rtrancl_into_rtrancl)

lemma udp_alarm_step:
  assumes "udp_proxy_step own p q"
  shows "up_alarm q = up_alarm p \<or> alarm_step (up_alarm p) (up_alarm q)"
  using assms
  by (cases rule: udp_proxy_step.cases)
    (auto simp: alarm_quiet_def upd_alarm_def intro: alarm_step.Tick alarm_step.EnterReset)

lemma udp_alarm_ok_step:
  assumes "udp_proxy_step own p q" and "udp_alarm_ok p"
  shows "udp_alarm_ok q"
proof -
  have "al_resetters (up_alarm q) = resetting q"
    using assms
    by (cases rule: udp_proxy_step.cases)
      (auto simp: udp_alarm_ok_def resetting_def alarm_quiet_def split: if_splits elim: reading_frame.elims)
  then show ?thesis
    using udp_alarm_step [OF assms(1)] assms(2) alarm_reachable_step by (auto simp: udp_alarm_ok_def)
qed

lemma udp_done_step: "udp_proxy_step own p q \<Longrightarrow> al_done (up_alarm p) \<Longrightarrow> al_done (up_alarm q)"
  using udp_alarm_step alarm_done_step by metis

definition udp_main_ok :: "udp_proxy \<Rightarrow> bool" where
  "udp_main_ok p \<longleftrightarrow>
     (case up_main p of
        UdpSelecting \<Rightarrow> \<not> uc_closed (up_socket p) \<and> \<not> dc_readShut (up_client p)
      | WaitUpClosed \<Rightarrow> uc_closed (up_socket p) \<and> \<not> dc_readShut (up_client p) \<and> up_down p = DownEnded
      | WaitDownClosed \<Rightarrow> \<not> uc_closed (up_socket p) \<and> dc_readShut (up_client p) \<and> up_up p = UpEnded
      | UdpReturned \<Rightarrow> uc_closed (up_socket p) \<noteq> dc_readShut (up_client p) \<and> up_down p = DownEnded \<and>
          up_up p = UpEnded)"

text \<open>Nothing ends without a failure before the alarm has gone off.\<close>

definition udp_ends_ok :: "udp_proxy \<Rightarrow> bool" where
  "udp_ends_ok p \<longleftrightarrow>
     (up_down p = DownEnded \<or> up_up p = UpEnded \<longrightarrow> up_failed p \<or> al_done (up_alarm p))"

lemma udp_main_step: "udp_proxy_step own p q \<Longrightarrow> udp_main_ok p \<Longrightarrow> udp_main_ok q"
  by (erule udp_proxy_stepE)
    (auto simp: udp_main_ok_def split: udp_main.splits)

lemma udp_ends_step:
  assumes "udp_proxy_step own p q" and "udp_ends_ok p" and "udp_main_ok p"
  shows "udp_ends_ok q"
proof -
  have "up_failed p \<longrightarrow> up_failed q" using assms(1) by (cases rule: udp_proxy_step.cases) auto
  moreover have "up_down q = DownEnded \<or> up_up q = UpEnded \<Longrightarrow>
      up_down p = DownEnded \<or> up_up p = UpEnded \<or> up_failed q \<or> al_done (up_alarm q)"
    using assms(1,3)
    by (cases rule: udp_proxy_step.cases)
      (auto simp: udp_main_ok_def alarm_done_def split: udp_main.splits if_splits)
  ultimately show ?thesis
    using assms(2) udp_done_step [OF assms(1)] by (auto simp: udp_ends_ok_def)
qed

text \<open>Datagrams in hand: read from one side and not yet written to the other.\<close>

fun down_hand :: "down_loop \<Rightarrow> byte list list \<Rightarrow> bool" where
  "down_hand (DownWrite d) hand = (hand = (if d = [] then [] else [d]))"
| "down_hand DownEnded hand = True"
| "down_hand _ hand = (hand = [])"

fun up_hand :: "up_loop \<Rightarrow> byte list \<Rightarrow> bool" where
  "up_hand (UpWrite bs) hand = (hand = bs)"
| "up_hand UpEnded hand = True"
| "up_hand _ hand = (hand = [])"

fun frame_bounds :: "down_loop \<Rightarrow> bool" where
  "frame_bounds (DownLength got) = (length got < 2)"
| "frame_bounds (DownBody v got) = (length got \<le> unat v)"
| "frame_bounds _ = True"

definition udp_down_ok :: "udp_proxy \<Rightarrow> bool" where
  "udp_down_ok p \<longleftrightarrow>
     frame_bounds (up_down p) \<and>
     (\<exists>hand. filter (\<lambda>d. d \<noteq> []) (up_frames p) = uc_out (up_socket p) @ hand \<and> down_hand (up_down p) hand) \<and>
     (up_partLost p \<or>
      (\<exists>part. dc_sent (up_client p) = concat (map udp_frame (up_frames p)) @ part @ dc_in (up_client p) \<and>
         (up_down p = DownEnded \<or> part = frame_part (up_down p))))"

definition udp_up_ok :: "udp_proxy \<Rightarrow> bool" where
  "udp_up_ok p \<longleftrightarrow>
     uc_sent (up_socket p) = up_read p @ uc_in (up_socket p) \<and>
     (\<forall>d \<in> set (uc_sent (up_socket p)). length d < 65536) \<and>
     (\<exists>hand. concat (map udp_frame (up_read p)) = dc_out (up_client p) @ hand \<and> up_hand (up_up p) hand)"

lemma frame_of_body: "length got = unat (v :: u16) \<Longrightarrow> udp_frame got = put_uint16 v @ got"
  by (simp add: udp_frame_def)

lemma udp_down_step:
  assumes "udp_proxy_step own p q" and "udp_down_ok p"
  shows "udp_down_ok q"
  using assms
proof (cases rule: udp_proxy_step.cases)
  case (DownHasLength got bs rest)
  with assms(2) show ?thesis
    by (auto simp: udp_down_ok_def put_get_uint16)
next
  case (DownHasFrame v got)
  with assms(2) frame_of_body [of got v] show ?thesis by (auto simp: udp_down_ok_def)
qed (use assms(2) in \<open>auto simp: udp_down_ok_def elim: reading_frame.elims\<close>)

lemma udp_up_step:
  assumes "udp_proxy_step own p q" and "udp_up_ok p"
  shows "udp_up_ok q"
  using assms
proof (cases rule: udp_proxy_step.cases)
  case (UpReads d ds buf buf' n)
  from UpReads assms(2) have "length d < 65536" by (simp add: udp_up_ok_def)
  then have "take n buf' = udp_frame d"
    using udp_conn_read_frame [of d buf None] UpReads by (simp add: UDPBufferSize_def)
  with UpReads assms(2) show ?thesis by (auto simp: udp_up_ok_def)
next
  case (UpWriteFails bs k)
  with assms(2) show ?thesis
    by (auto simp: udp_up_ok_def intro: exI [of _ "drop k bs"])
qed (use assms(2) in \<open>auto simp: udp_up_ok_def\<close>)

definition udp_proxy_ok :: "udp_proxy \<Rightarrow> bool" where
  "udp_proxy_ok p \<longleftrightarrow> udp_alarm_ok p \<and> udp_main_ok p \<and> udp_ends_ok p \<and> udp_down_ok p \<and> udp_up_ok p"

lemma udp_proxy_ok_step: "udp_proxy_step own p q \<Longrightarrow> udp_proxy_ok p \<Longrightarrow> udp_proxy_ok q"
  unfolding udp_proxy_ok_def
  using udp_alarm_ok_step udp_main_step udp_ends_step udp_down_step udp_up_step by blast

lemma udp_proxy_ok_new: "udp_proxy_ok new_udp_proxy"
  by (simp add: udp_proxy_ok_def udp_alarm_ok_def udp_main_ok_def udp_ends_ok_def udp_down_ok_def udp_up_ok_def
      resetting_def new_udp_proxy_def new_alarm_def alarm_reachable_def)

lemma udp_proxy_invariant:
  assumes "udp_proxy_reachable p"
  shows "udp_proxy_ok p"
  by (rule steps_invariant [OF assms [unfolded udp_proxy_reachable_def], where I = udp_proxy_ok])
    (auto simp: udp_proxy_any_def intro: udp_proxy_ok_step udp_proxy_ok_new)

section \<open>Coming to an end\<close>

text \<open>
  The steps of the program, with those that take its writes to the client: the client takes what is
  written, or the write fails.
\<close>

inductive udp_runs :: "udp_proxy \<Rightarrow> udp_proxy \<Rightarrow> bool" where
  RunsOwn: "udp_proxy_step True p q \<Longrightarrow> udp_runs p q"
| RunsWrite: "up_up p = UpWrite bs \<Longrightarrow> udp_proxy_step False p q \<Longrightarrow> up_up q \<noteq> UpWrite bs \<Longrightarrow> udp_runs p q"

text \<open>What is left to do: bytes, datagrams, and the steps of the goroutines, which may pass through one more read.\<close>

definition down_loop_rank :: "udp_proxy \<Rightarrow> nat" where
  "down_loop_rank p =
     (case up_down p of
        DownTop \<Rightarrow> 2
      | DownLength got \<Rightarrow> if deadline_passed (up_clock p) (dc_deadline (up_client p)) then 4 else 1
      | DownBody v got \<Rightarrow> 5
      | DownWrite d \<Rightarrow> 4
      | DownReset \<Rightarrow> 3
      | DownTimedOut \<Rightarrow> 3
      | DownEnded \<Rightarrow> 0)"

definition up_loop_rank :: "udp_proxy \<Rightarrow> nat" where
  "up_loop_rank p =
     (case up_up p of
        UpTop \<Rightarrow> 2
      | UpRead \<Rightarrow> if deadline_passed (up_clock p) (uc_deadline (up_socket p)) then 4 else 1
      | UpWrite bs \<Rightarrow> 4
      | UpReset \<Rightarrow> 3
      | UpTimedOut \<Rightarrow> 3
      | UpEnded \<Rightarrow> 0)"

fun udp_main_rank :: "udp_main \<Rightarrow> nat" where
  "udp_main_rank UdpSelecting = 2"
| "udp_main_rank UdpReturned = 0"
| "udp_main_rank _ = 1"

definition udp_proxy_rank :: "udp_proxy \<Rightarrow> nat" where
  "udp_proxy_rank p =
     3 * (5 * length (dc_in (up_client p)) + down_loop_rank p + 5 * length (uc_in (up_socket p)) + up_loop_rank p) +
     alarm_pc_rank (al_pc (up_alarm p)) + udp_main_rank (up_main p)"

lemmas udp_rank_defs = udp_proxy_rank_def down_loop_rank_def up_loop_rank_def

lemma fresh_deadline [simp]:
  "\<not> deadline_passed clock (read_full_with_timeout True clock readTimeout deadline)"
  "\<not> deadline_passed clock (read_conn_with_timeout clock readTimeout deadline)"
  by (simp_all add: read_deadline_defs deadline_passed_def readTimeout_def seconds_def)

lemma enter_reset_al [simp]: "al_clock (up_alarm (enter_reset p)) = up_clock p" "al_pc (up_alarm (enter_reset p)) = al_pc (up_alarm p)"
  by simp_all

lemma reset_clock: "alarm_step a b \<Longrightarrow> al_resetters a = Suc (al_resetters b) \<Longrightarrow> al_clock b = al_clock a"
  by (erule alarm_stepE) (auto split: if_splits)

lemma udp_proxy_rank_own:
  assumes "udp_proxy_step True p q" and "udp_alarm_ok p"
  shows "udp_proxy_rank q < udp_proxy_rank p"
  using assms(1)
proof (cases rule: udp_proxy_step.cases)
  case (AlarmRuns a)
  have "alarm_pc_rank (al_pc a) < alarm_pc_rank (al_pc (up_alarm p))"
    using alarm_quiet_rank [OF AlarmRuns(2)] alarm_inv_reachable assms(2) by (auto simp: udp_alarm_ok_def)
  with AlarmRuns show ?thesis by (simp add: udp_rank_defs alarm_quiet_def)
next
  case (DownLeavesReset a)
  with alarm_reset_rank [OF DownLeavesReset(3,4)] reset_clock [OF DownLeavesReset(3,4)]
  show ?thesis by (simp add: udp_rank_defs)
next
  case (UpLeavesReset a)
  with alarm_reset_rank [OF UpLeavesReset(3,4)] reset_clock [OF UpLeavesReset(3,4)]
  show ?thesis by (simp add: udp_rank_defs)
qed (auto simp: udp_rank_defs neq_Nil_conv split: down_loop.splits)

lemma udp_proxy_rank_write:
  assumes "udp_proxy_step False p q" and "up_up p = UpWrite bs" and "up_up q \<noteq> UpWrite bs"
  shows "udp_proxy_rank q < udp_proxy_rank p"
  using assms by (cases rule: udp_proxy_step.cases) (auto simp: udp_rank_defs)

lemma udp_proxy_rank_step: "udp_runs p q \<Longrightarrow> udp_proxy_ok p \<Longrightarrow> udp_proxy_rank q < udp_proxy_rank p"
  by (erule udp_runs.cases) (auto simp: udp_proxy_ok_def intro: udp_proxy_rank_own udp_proxy_rank_write)

text \<open>A loop that is inside \<open>Reset\<close> gets on: the alarm runs until it takes the reset, or is done.\<close>

lemma resetting_goes_on:
  assumes "udp_alarm_ok p" and "up_down p = DownReset \<or> up_up p = UpReset"
  shows "\<exists>q. udp_proxy_step True p q"
proof (cases "al_done (up_alarm p) \<or> al_pc (up_alarm p) = Selecting")
  case True
  obtain n where "al_resetters (up_alarm p) = Suc n"
    using assms by (cases "al_resetters (up_alarm p)") (auto simp: udp_alarm_ok_def resetting_def)
  then obtain a where "alarm_step (up_alarm p) a" "al_resetters (up_alarm p) = Suc (al_resetters a)"
    using alarm_reset_leaves [OF True] by auto
  then show ?thesis using DownLeavesReset [of p a] UpLeavesReset [of p a] assms(2) by blast
next
  case False
  have "alarm_inv idleTimeout (up_alarm p)" using assms(1) by (simp add: udp_alarm_ok_def alarm_inv_reachable)
  from alarm_quiet_goes_on [OF this False] AlarmRuns show ?thesis by blast
qed

lemma udp_down_goes_on:
  assumes "udp_proxy_ok p" and "dc_readShut (up_client p)" and "up_down p \<noteq> DownEnded"
  shows "\<exists>q. udp_proxy_step True p q"
proof (cases "reading_frame (up_down p)")
  case True
  from DownShut [OF this assms(2)] show ?thesis by blast
next
  case False
  show ?thesis
  proof (cases "up_down p")
    case (DownBody v got)
    with False assms(1) have "length got = unat v" by (simp add: udp_proxy_ok_def udp_down_ok_def)
    from DownHasFrame [OF DownBody this] show ?thesis by blast
  next
    case (DownWrite d)
    then show ?thesis using DownWritesNothing DownWrites DownWriteClosed by (cases "d = []") blast+
  next
    case DownReset
    with assms(1) show ?thesis by (intro resetting_goes_on) (simp_all add: udp_proxy_ok_def)
  qed (use False assms(3) in \<open>auto dest: DownStart DownAsksAlarm\<close>)
qed

lemma up_goes_on_to_end:
  assumes "udp_proxy_ok p" and "uc_closed (up_socket p)" and "up_up p \<noteq> UpEnded" and "\<nexists>bs. up_up p = UpWrite bs"
  shows "\<exists>q. udp_proxy_step True p q"
proof (cases "up_up p")
  case UpReset
  with assms(1) show ?thesis by (intro resetting_goes_on) (simp_all add: udp_proxy_ok_def)
next
  case UpRead
  from UpReadClosed [OF this assms(2)] show ?thesis by blast
qed (use assms(3,4) in \<open>auto dest: UpStart UpAsksAlarm\<close>)

text \<open>
  A read past its deadline, with nothing to read and the alarm done; its loop has nothing else to do
  than to see that and to end.
\<close>

definition overdue :: "udp_proxy \<Rightarrow> bool" where
  "overdue p \<longleftrightarrow> alarm_done (up_alarm p) \<and>
     (reading_frame (up_down p) \<and> dc_in (up_client p) = [] \<and> deadline_passed (up_clock p) (dc_deadline (up_client p)) \<or>
      up_up p = UpRead \<and> uc_in (up_socket p) = [] \<and> deadline_passed (up_clock p) (uc_deadline (up_socket p)))"

definition udp_ending :: "udp_proxy \<Rightarrow> bool" where
  "udp_ending p \<longleftrightarrow> up_down p = DownEnded \<or> up_up p = UpEnded \<or> overdue p \<or>
     alarm_done (up_alarm p) \<and> (up_down p = DownTimedOut \<or> up_up p = UpTimedOut)"

definition udp_returned :: "udp_proxy \<Rightarrow> bool" where
  "udp_returned p \<longleftrightarrow> up_main p = UdpReturned \<and> up_down p = DownEnded \<and> up_up p = UpEnded"

lemma udp_ending_own:
  assumes "udp_proxy_step True p q" and "udp_ending p"
  shows "udp_ending q"
  using assms(1)
proof (cases rule: udp_proxy_step.cases)
  case (AlarmRuns a)
  with assms(2) alarm_done_step [of "up_alarm p" a] show ?thesis
    by (auto simp: udp_ending_def overdue_def alarm_quiet_def alarm_done_def)
next
  case (DownLeavesReset a)
  with assms(2) alarm_done_step [OF DownLeavesReset(3)] reset_clock [OF DownLeavesReset(3,4)] show ?thesis
    by (auto simp: udp_ending_def overdue_def alarm_done_def)
next
  case (UpLeavesReset a)
  with assms(2) alarm_done_step [OF UpLeavesReset(3)] reset_clock [OF UpLeavesReset(3,4)] show ?thesis
    by (auto simp: udp_ending_def overdue_def alarm_done_def)
qed (use assms(2) in \<open>auto simp: udp_ending_def overdue_def alarm_done_def\<close>)

lemma udp_ending_write:
  assumes "udp_proxy_step False p q" and "up_up p = UpWrite bs" and "up_up q \<noteq> UpWrite bs" and "udp_ending p"
  shows "udp_ending q"
  using assms by (cases rule: udp_proxy_step.cases) (auto simp: udp_ending_def overdue_def alarm_done_def)

lemma udp_goes_on:
  assumes "udp_proxy_ok p" and "udp_ending p" and "\<not> udp_returned p" and "\<nexists>bs. up_up p = UpWrite bs"
  shows "\<exists>q. udp_proxy_step True p q"
proof (cases "up_main p")
  case UdpSelecting
  then show ?thesis
    using assms(2) SelectDown SelectUp DownTimesOut UpTimesOut DownAsksAlarm UpAsksAlarm
    unfolding udp_ending_def overdue_def by blast
next
  case WaitUpClosed
  with assms(1) have "uc_closed (up_socket p)" by (simp add: udp_proxy_ok_def udp_main_ok_def)
  then show ?thesis using up_goes_on_to_end [OF assms(1)] ReturnUp [OF WaitUpClosed] assms(4) by blast
next
  case WaitDownClosed
  with assms(1) have "dc_readShut (up_client p)" by (simp add: udp_proxy_ok_def udp_main_ok_def)
  then show ?thesis using udp_down_goes_on [OF assms(1)] ReturnDown [OF WaitDownClosed] by blast
next
  case UdpReturned
  with assms(1,3) show ?thesis by (simp add: udp_proxy_ok_def udp_main_ok_def udp_returned_def)
qed

lemma udp_runs_keep:
  assumes "udp_runs p q" and "udp_proxy_ok p \<and> udp_ending p"
  shows "udp_proxy_ok q \<and> udp_ending q"
  using assms by (cases rule: udp_runs.cases) (auto intro: udp_proxy_ok_step udp_ending_own udp_ending_write)

lemma udp_runs_go_on:
  assumes "udp_proxy_ok p \<and> udp_ending p" and "\<not> udp_returned p"
  shows "\<exists>q. udp_runs p q"
proof (cases "\<exists>bs. up_up p = UpWrite bs")
  case True
  then obtain bs where w: "up_up p = UpWrite bs" by blast
  from RunsWrite [OF w UpWrites [OF w]] show ?thesis by auto
next
  case False
  with assms udp_goes_on show ?thesis by (blast intro: RunsOwn)
qed

text \<open>What passes through, in the two directions.\<close>

lemma udp_frames_in:
  assumes "udp_proxy_reachable p" and "\<not> up_partLost p"
  shows "prefix (concat (map udp_frame (up_frames p))) (dc_sent (up_client p))"
  using udp_proxy_invariant [OF assms(1)] assms(2) by (auto simp: udp_proxy_ok_def udp_down_ok_def)

lemma udp_packets_out:
  assumes "udp_proxy_reachable p"
  shows "prefix (uc_out (up_socket p)) (filter (\<lambda>d. d \<noteq> []) (up_frames p))"
  using udp_proxy_invariant [OF assms] by (auto simp: udp_proxy_ok_def udp_down_ok_def)

lemma udp_answers_out:
  assumes "udp_proxy_reachable p"
  shows "prefix (dc_out (up_client p)) (concat (map udp_frame (uc_sent (up_socket p))))"
proof -
  have u: "udp_up_ok p" using udp_proxy_invariant [OF assms] by (simp add: udp_proxy_ok_def)
  then have "concat (map udp_frame (uc_sent (up_socket p))) =
      concat (map udp_frame (up_read p)) @ concat (map udp_frame (uc_in (up_socket p)))"
    by (simp add: udp_up_ok_def)
  then show ?thesis using u by (auto simp: udp_up_ok_def)
qed

interpretation frames_pipe: pipe "\<lambda>p. udp_proxy_reachable p \<and> \<not> up_partLost p" "\<lambda>p. dc_sent (up_client p)"
    "\<lambda>p. concat (map udp_frame (up_frames p))" "\<lambda>p. drop (length (concat (map udp_frame (up_frames p)))) (dc_sent (up_client p))"
  by unfold_locales (blast intro: prefix_rest udp_frames_in)

interpretation answers_pipe: pipe udp_proxy_reachable "\<lambda>p. concat (map udp_frame (uc_sent (up_socket p)))"
    "\<lambda>p. dc_out (up_client p)" "\<lambda>p. drop (length (dc_out (up_client p))) (concat (map udp_frame (uc_sent (up_socket p))))"
  by unfold_locales (blast intro: prefix_rest udp_answers_out)

section \<open>Properties\<close>

text \<open>
  C21: \<open>ProxyUDP\<close> does not give up on its own before its time: as long as no read or write has failed and
  the client has not closed its stream, a loop that has ended, and a return, mean that 110 seconds had
  passed in which the alarm accepted no reset.
\<close>

theorem proxy_udp_not_early:
  assumes "udp_proxy_reachable p" and "\<not> up_failed p"
    and "up_down p = DownEnded \<or> up_up p = UpEnded \<or> up_main p \<noteq> UdpSelecting"
  shows "alarm_done (up_alarm p) \<and> al_last (up_alarm p) + idleTimeout \<le> up_clock p"
proof -
  have ok: "udp_proxy_ok p" by (rule udp_proxy_invariant [OF assms(1)])
  have "up_down p = DownEnded \<or> up_up p = UpEnded"
    using ok assms(3) by (cases "up_main p") (auto simp: udp_proxy_ok_def udp_main_ok_def)
  then have "al_done (up_alarm p)" using ok assms(2) by (auto simp: udp_proxy_ok_def udp_ends_ok_def)
  moreover have "alarm_inv idleTimeout (up_alarm p)"
    using ok alarm_inv_reachable by (auto simp: udp_proxy_ok_def udp_alarm_ok_def)
  ultimately show ?thesis using alarm_inv_done(1) by (simp add: alarm_done_def)
qed

text \<open>
  C13: \<open>ProxyUDP\<close> comes to its end: as soon as one loop has ended, or the alarm is done and a read with
  nothing to read is past its deadline, whichever steps the program takes, without the clock or the
  peers doing anything, it comes to its return with both loops ended, provided the client takes what
  is written to it or those writes fail; without that it comes to its return, or to such a write.
\<close>

theorem proxy_udp_returns:
  assumes "udp_proxy_reachable p"
    and "up_down p = DownEnded \<or> up_up p = UpEnded \<or> overdue p"
  shows "comes_to udp_runs udp_returned p
    \<and> comes_to (udp_proxy_step True) (\<lambda>q. udp_returned q \<or> (\<exists>bs. up_up q = UpWrite bs)) p"
proof
  have ok: "udp_proxy_ok p \<and> udp_ending p"
    using udp_proxy_invariant [OF assms(1)] assms(2) by (auto simp: udp_ending_def)
  show "comes_to udp_runs udp_returned p"
    by (rule comes_to_measure [where I = "\<lambda>p. udp_proxy_ok p \<and> udp_ending p" and measure = udp_proxy_rank, OF ok])
      (use udp_runs_keep udp_proxy_rank_step udp_runs_go_on in blast)+
  show "comes_to (udp_proxy_step True) (\<lambda>q. udp_returned q \<or> (\<exists>bs. up_up q = UpWrite bs)) p"
    by (rule comes_to_measure [where I = "\<lambda>p. udp_proxy_ok p \<and> udp_ending p" and measure = udp_proxy_rank, OF ok])
      (use udp_runs_keep udp_proxy_rank_step udp_goes_on in \<open>blast intro: RunsOwn\<close>)+
qed

text \<open>
  Which side \<open>ProxyUDP\<close> closes depends on which loop it finds ended first: the upstream socket is closed
  by it just if that was the loop from the client, and otherwise only the client's reading side was shut
  and the socket is open when it returns.
\<close>

lemma proxy_udp_closes_one_side:
  assumes "udp_proxy_reachable p"
  shows "(up_main p = UdpReturned \<longrightarrow> uc_closed (up_socket p) \<noteq> dc_readShut (up_client p))
    \<and> (uc_closed (up_socket p) \<longrightarrow> up_down p = DownEnded) \<and> (dc_readShut (up_client p) \<longrightarrow> up_up p = UpEnded)"
  using udp_proxy_invariant [OF assms]
  by (cases "up_main p") (auto simp: udp_proxy_ok_def udp_main_ok_def)

text \<open>
  C20: The proxy carries datagrams, whatever the portions the bytes come in and however its goroutines
  interleave: towards the client, what was written is the front of the frames of the datagrams the
  socket received, in order; towards the destination, the packets are the front of the non-empty
  datagrams read from the client, and as long as no deadline has passed inside a frame, those are
  what the client sent.
\<close>

theorem proxy_udp_datagrams:
  assumes "udp_proxy_reachable p"
  shows "prefix (dc_out (up_client p)) (concat (map udp_frame (uc_sent (up_socket p))))
    \<and> prefix (uc_out (up_socket p)) (filter (\<lambda>d. d \<noteq> []) (up_frames p))
    \<and> (up_partLost p \<or> prefix (concat (map udp_frame (up_frames p))) (dc_sent (up_client p)))
    \<and> (up_down p = DownTop \<and> up_up p = UpTop \<longrightarrow>
       dc_out (up_client p) = concat (map udp_frame (up_read p)) \<and>
       uc_out (up_socket p) = filter (\<lambda>d. d \<noteq> []) (up_frames p))"
proof -
  have d: "udp_down_ok p" and u: "udp_up_ok p"
    using udp_proxy_invariant [OF assms] by (simp_all add: udp_proxy_ok_def)
  have "up_down p = DownTop \<and> up_up p = UpTop \<longrightarrow>
      dc_out (up_client p) = concat (map udp_frame (up_read p)) \<and>
      uc_out (up_socket p) = filter (\<lambda>d. d \<noteq> []) (up_frames p)"
    using d u by (auto simp: udp_down_ok_def udp_up_ok_def)
  then show ?thesis
    using udp_answers_out [OF assms] udp_packets_out [OF assms] udp_frames_in [OF assms] by blast
qed

section \<open>Examples\<close>

lemma udp_any: "udp_proxy_reachable p \<Longrightarrow> udp_proxy_step own p q \<Longrightarrow> udp_proxy_reachable q"
  unfolding udp_proxy_reachable_def udp_proxy_any_def by (auto intro: rtranclp.rtrancl_into_rtrancl)

lemma udp_new_reachable: "udp_proxy_reachable new_udp_proxy"
  by (simp add: udp_proxy_reachable_def)

text \<open>An idle proxy: its alarm and its first read have been waiting since time zero.\<close>

definition waiting_alarm :: "nat \<Rightarrow> alarm" where
  "waiting_alarm clock =
     \<lparr>al_d = idleTimeout, al_done = False, al_timer = Armed idleTimeout, al_pc = Selecting, al_resetters = 0,
      al_clock = clock, al_last = 0, al_accepted = 0\<rparr>"

definition rung_alarm :: alarm where
  "rung_alarm = (waiting_alarm idleTimeout)\<lparr>al_timer := Inactive, al_done := True, al_pc := StoppingTimer True\<rparr>"

definition idle_proxy :: "alarm \<Rightarrow> down_loop \<Rightarrow> udp_proxy" where
  "idle_proxy a d = new_udp_proxy\<lparr>up_alarm := a, up_down := d,
     up_client := (up_client new_udp_proxy)\<lparr>dc_deadline := Some readTimeout\<rparr>\<rparr>"

lemma idle_proxy_simps [simp]:
  "(idle_proxy a d)\<lparr>up_alarm := b\<rparr> = idle_proxy b d" "(idle_proxy a d)\<lparr>up_down := e\<rparr> = idle_proxy a e"
  "(idle_proxy a d)\<lparr>up_partLost := False\<rparr> = idle_proxy a d"
  "up_alarm (idle_proxy a d) = a" "up_down (idle_proxy a d) = d"
  "upd_alarm f (idle_proxy a d) = idle_proxy (f a) d"
  by (simp_all add: idle_proxy_def upd_alarm_def new_udp_proxy_def)

lemma timeouts: "0 < readTimeout" "readTimeout \<le> idleTimeout"
  by (simp_all add: readTimeout_def idleTimeout_def seconds_def)

lemma idle_proxy_waits: "udp_proxy_reachable (idle_proxy (waiting_alarm clock) (DownLength []))"
proof (induction clock)
  case 0
  have "udp_proxy_step True new_udp_proxy (new_udp_proxy\<lparr>up_alarm := waiting_alarm 0\<rparr>)"
    using AlarmRuns [of new_udp_proxy "waiting_alarm 0"] alarm_step.Start [of "new_alarm idleTimeout"]
    by (simp add: alarm_quiet_def new_udp_proxy_def new_alarm_def waiting_alarm_def)
  note 1 = udp_any [OF udp_new_reachable this]
  have "udp_proxy_step True (new_udp_proxy\<lparr>up_alarm := waiting_alarm 0\<rparr>) (idle_proxy (waiting_alarm 0) (DownLength []))"
    using DownStart [of "new_udp_proxy\<lparr>up_alarm := waiting_alarm 0\<rparr>"] timeouts(1)
    by (simp add: idle_proxy_def upd_client_def new_udp_proxy_def read_deadline_defs waiting_alarm_def)
  with 1 show ?case by (rule udp_any)
next
  case (Suc clock)
  have "udp_proxy_step False (idle_proxy (waiting_alarm clock) (DownLength [])) (idle_proxy (waiting_alarm (Suc clock)) (DownLength []))"
    using udp_proxy_step.Tick [of "idle_proxy (waiting_alarm clock) (DownLength [])"]
    by (simp add: waiting_alarm_def)
  with Suc show ?case by (rule udp_any)
qed

lemma idle_proxy_overdue: "udp_proxy_reachable (idle_proxy rung_alarm (DownLength []))"
proof -
  let ?a = "(waiting_alarm idleTimeout)\<lparr>al_pc := ClosingDone, al_timer := Inactive\<rparr>"
  have "alarm_step (waiting_alarm idleTimeout) ?a"
    by (rule alarm_step.Expire) (simp_all add: waiting_alarm_def timer_ready_def)
  then have "udp_proxy_step True (idle_proxy (waiting_alarm idleTimeout) (DownLength [])) (idle_proxy ?a (DownLength []))"
    using AlarmRuns [of "idle_proxy (waiting_alarm idleTimeout) (DownLength [])" ?a]
    by (simp add: alarm_quiet_def)
  note 1 = udp_any [OF idle_proxy_waits this]
  have "alarm_step ?a rung_alarm"
    using alarm_step.CloseDone [of ?a] by (simp add: waiting_alarm_def rung_alarm_def)
  then have "udp_proxy_step True (idle_proxy ?a (DownLength [])) (idle_proxy rung_alarm (DownLength []))"
    using AlarmRuns [of "idle_proxy ?a (DownLength [])" rung_alarm]
    by (simp add: alarm_quiet_def rung_alarm_def)
  with 1 show ?thesis by (rule udp_any)
qed

lemma idle_proxy_is_overdue: "overdue (idle_proxy rung_alarm (DownLength []))"
  using timeouts
  by (simp add: overdue_def idle_proxy_def alarm_done_def rung_alarm_def waiting_alarm_def deadline_passed_def new_udp_proxy_def)

lemma idle_proxy_ended: "udp_proxy_reachable (idle_proxy rung_alarm DownEnded)"
proof -
  have "udp_proxy_step True (idle_proxy rung_alarm (DownLength [])) (idle_proxy rung_alarm DownTimedOut)"
    using DownTimesOut [of "idle_proxy rung_alarm (DownLength [])"] timeouts(2)
    by (simp add: deadline_passed_def) (simp add: idle_proxy_def rung_alarm_def waiting_alarm_def new_udp_proxy_def)
  note 1 = udp_any [OF idle_proxy_overdue this]
  have "udp_proxy_step True (idle_proxy rung_alarm DownTimedOut) (idle_proxy rung_alarm DownEnded)"
    using DownAsksAlarm [of "idle_proxy rung_alarm DownTimedOut"]
    by (simp add: alarm_done_def rung_alarm_def)
  with 1 show ?thesis by (rule udp_any)
qed

theorem proxy_udp_not_early_witness:
  "alarm_done (up_alarm (idle_proxy rung_alarm DownEnded)) \<and>
   idleTimeout \<le> up_clock (idle_proxy rung_alarm DownEnded)"
  using proxy_udp_not_early [OF idle_proxy_ended]
  by (simp add: idle_proxy_def new_udp_proxy_def rung_alarm_def waiting_alarm_def)

theorem proxy_udp_returns_witness:
  "comes_to udp_runs udp_returned (idle_proxy rung_alarm (DownLength []))"
  using proxy_udp_returns [OF idle_proxy_overdue] idle_proxy_is_overdue by blast

text \<open>A proxy whose socket fails: it returns, and the socket is still open.\<close>

definition leaking_proxy :: udp_proxy where
  "leaking_proxy = new_udp_proxy\<lparr>up_down := DownEnded, up_up := UpEnded, up_main := UdpReturned, up_failed := True,
     up_client := (up_client new_udp_proxy)\<lparr>dc_readShut := True, dc_deadline := Some readTimeout\<rparr>,
     up_socket := (up_socket new_udp_proxy)\<lparr>uc_deadline := Some readTimeout\<rparr>\<rparr>"

lemma leaking_proxy_reachable: "udp_proxy_reachable leaking_proxy"
proof -
  let ?p1 = "(upd_socket (\<lambda>c. c\<lparr>uc_deadline := Some readTimeout\<rparr>) new_udp_proxy)\<lparr>up_up := UpRead\<rparr>"
  let ?p2 = "?p1\<lparr>up_up := UpEnded, up_failed := True\<rparr>"
  let ?p3 = "(upd_client (\<lambda>c. c\<lparr>dc_readShut := True\<rparr>) ?p2)\<lparr>up_main := WaitDownClosed\<rparr>"
  let ?p4 = "(upd_client (\<lambda>c. c\<lparr>dc_deadline := Some readTimeout\<rparr>) ?p3)\<lparr>up_down := DownLength []\<rparr>"
  let ?p5 = "?p4\<lparr>up_down := DownEnded\<rparr>"
  have "udp_proxy_step True new_udp_proxy ?p1"
    using UpStart [of new_udp_proxy] timeouts(1)
    by (simp add: upd_socket_def new_udp_proxy_def read_deadline_defs new_alarm_def)
  note 1 = udp_any [OF udp_new_reachable this]
  have "udp_proxy_step False ?p1 ?p2" by (rule UpReadFails) simp
  note 2 = udp_any [OF 1 this]
  have "udp_proxy_step True ?p2 ?p3" by (rule SelectUp) (simp_all add: new_udp_proxy_def)
  note 3 = udp_any [OF 2 this]
  have "udp_proxy_step True ?p3 ?p4"
    using DownStart [of ?p3] timeouts(1)
    by (simp add: upd_client_def upd_socket_def new_udp_proxy_def read_deadline_defs new_alarm_def)
  note 4 = udp_any [OF 3 this]
  have "udp_proxy_step True ?p4 ?p5" by (rule DownShut) simp_all
  note 5 = udp_any [OF 4 this]
  have "udp_proxy_step True ?p5 (?p5\<lparr>up_main := UdpReturned\<rparr>)" by (rule ReturnDown) simp_all
  note 6 = udp_any [OF 5 this]
  have "?p5\<lparr>up_main := UdpReturned\<rparr> = leaking_proxy"
    by (simp add: leaking_proxy_def upd_client_def upd_socket_def new_udp_proxy_def)
  with 6 show ?thesis by simp
qed

text \<open>A proxy that has passed one datagram to the client.\<close>

definition answered_proxy :: udp_proxy where
  "answered_proxy = enter_reset (new_udp_proxy\<lparr>up_up := UpReset, up_read := [[65]],
     up_client := (up_client new_udp_proxy)\<lparr>dc_out := [0, 1, 65]\<rparr>,
     up_socket := (up_socket new_udp_proxy)\<lparr>uc_deadline := Some readTimeout, uc_sent := [[65]]\<rparr>\<rparr>)"

lemma answered_proxy_reachable: "udp_proxy_reachable answered_proxy"
proof -
  let ?p1 = "upd_socket (\<lambda>c. c\<lparr>uc_in := uc_in c @ [[65]], uc_sent := uc_sent c @ [[65]]\<rparr>) new_udp_proxy"
  let ?p2 = "(upd_socket (\<lambda>c. c\<lparr>uc_deadline := Some readTimeout\<rparr>) ?p1)\<lparr>up_up := UpRead\<rparr>"
  let ?p3 = "(upd_socket (\<lambda>c. c\<lparr>uc_in := []\<rparr>) ?p2)\<lparr>up_up := UpWrite [0, 1, 65], up_read := [[65]]\<rparr>"
  have "udp_proxy_step False new_udp_proxy ?p1" by (rule DatagramArrives) simp
  note 1 = udp_any [OF udp_new_reachable this]
  have "udp_proxy_step True ?p1 ?p2"
    using UpStart [of ?p1] timeouts(1)
    by (simp add: upd_socket_def new_udp_proxy_def read_deadline_defs new_alarm_def)
  note 2 = udp_any [OF 1 this]
  obtain buf' n where r: "udp_conn_read (replicate UDPBufferSize 0) [65] None = (buf', n, None)"
    by (simp add: udp_conn_read_def Let_def)
  then have "take n buf' = [0, 1, 65]"
    using udp_conn_read_frame [of "[65]" "replicate UDPBufferSize 0" None]
    by (simp add: UDPBufferSize_def udp_frame_def put_uint16_def)
  then have "udp_proxy_step True ?p2 ?p3"
    using UpReads [of ?p2 "[65]" "[]", OF _ _ _ _ r] by (simp add: new_udp_proxy_def upd_socket_def)
  note 3 = udp_any [OF 2 this]
  have "udp_proxy_step False ?p3 answered_proxy"
    using UpWrites [of ?p3 "[0, 1, 65]"]
    by (simp add: answered_proxy_def new_udp_proxy_def upd_socket_def upd_client_def)
  with 3 show ?thesis by (rule udp_any)
qed

theorem proxy_udp_datagrams_witness:
  "dc_out (up_client answered_proxy) = [0, 1, 65] \<and>
   prefix (dc_out (up_client answered_proxy)) (concat (map udp_frame (uc_sent (up_socket answered_proxy))))"
  using proxy_udp_datagrams [OF answered_proxy_reachable]
  by (simp add: answered_proxy_def new_udp_proxy_def)

end
