(* ===== verification/Udp_Tunnel.thy ===== *)
theory Udp_Tunnel
  imports Udp_Request Udp_Proxy
begin

text \<open>
  A whole UDP tunnel: the client's \<open>handleUDPConn\<close> of \<open>Udp_Request\<close>, the server's \<open>ProxyUDP\<close> of
  \<open>Udp_Proxy\<close>, and the stream between them, which delivers what was written to one end in order and in
  any portions to the other, and may end at either side at any time. The packets the client takes are
  what the \<open>ReadFrom\<close> of the forwarder's socket makes of datagrams.
\<close>

record udp_tunnel =
  ut_client :: udp_request
  ut_server :: udp_proxy
  ut_datagrams :: "byte list list"

definition new_udp_tunnel :: udp_tunnel where
  "new_udp_tunnel = \<lparr>ut_client = new_udp_request, ut_server = new_udp_proxy, ut_datagrams = []\<rparr>"

abbreviation at_client :: "udp_tunnel \<Rightarrow> byte list" where
  "at_client t \<equiv> ur_sent (ut_client t)"

abbreviation from_client :: "udp_tunnel \<Rightarrow> byte list" where
  "from_client t \<equiv> ur_out (ut_client t)"

abbreviation at_server :: "udp_tunnel \<Rightarrow> byte list" where
  "at_server t \<equiv> dc_sent (up_client (ut_server t))"

abbreviation from_server :: "udp_tunnel \<Rightarrow> byte list" where
  "from_server t \<equiv> dc_out (up_client (ut_server t))"

inductive udp_tunnel_step :: "udp_tunnel \<Rightarrow> udp_tunnel \<Rightarrow> bool" where
  ClientStep: "udp_request_step l (ut_client t) r \<Longrightarrow> l = Own \<or> l = Env \<or> l = Finishes \<Longrightarrow> ur_sent r = at_client t \<Longrightarrow>
    udp_tunnel_step t (t\<lparr>ut_client := r\<rparr>)"
| ClientTakes: "length d < 65536 \<Longrightarrow> length buf = UDPBufferSize \<Longrightarrow> udp_conn_read buf d None = (buf', n, None) \<Longrightarrow>
    udp_request_step (Takes (take n buf')) (ut_client t) r \<Longrightarrow>
    udp_tunnel_step t (t\<lparr>ut_client := r, ut_datagrams := ut_datagrams t @ [d]\<rparr>)"
| ServerStep: "udp_proxy_step own (ut_server t) p \<Longrightarrow> dc_sent (up_client p) = at_server t \<Longrightarrow>
    udp_tunnel_step t (t\<lparr>ut_server := p\<rparr>)"
| WireUp: "from_client t = at_server t @ bs @ rest \<Longrightarrow> \<not> dc_eof (up_client (ut_server t)) \<Longrightarrow>
    udp_tunnel_step t (t\<lparr>ut_server := upd_client (\<lambda>c. c\<lparr>dc_in := dc_in c @ bs, dc_sent := dc_sent c @ bs\<rparr>) (ut_server t)\<rparr>)"
| WireDown: "from_server t = at_client t @ bs @ rest \<Longrightarrow> \<not> ur_eof (ut_client t) \<Longrightarrow>
    udp_tunnel_step t (t\<lparr>ut_client := (ut_client t)
      \<lparr>ur_in := ur_in (ut_client t) @ bs, ur_sent := ur_sent (ut_client t) @ bs\<rparr>\<rparr>)"

inductive_cases udp_tunnel_stepE: "udp_tunnel_step t u"

definition udp_tunnel_reachable :: "udp_tunnel \<Rightarrow> bool" where
  "udp_tunnel_reachable = udp_tunnel_step\<^sup>*\<^sup>* new_udp_tunnel"

section \<open>Frames can be told apart\<close>

definition small :: "byte list \<Rightarrow> bool" where
  "small d \<longleftrightarrow> length d < 65536"

lemma split_same_length: "length as = length bs \<Longrightarrow> as @ xs = bs @ ys \<Longrightarrow> as = bs \<and> xs = ys"
  by simp

lemma udp_frame_inj:
  assumes "small d" and "small e" and "udp_frame d @ xs = udp_frame e @ ys"
  shows "d = e \<and> xs = ys"
proof -
  have "put_uint16 (of_nat (length d)) @ d @ xs = put_uint16 (of_nat (length e)) @ e @ ys"
    using assms(3) unfolding udp_frame_def append_assoc .
  from split_same_length [OF _ this]
  have "put_uint16 (of_nat (length d)) = put_uint16 (of_nat (length e))" and rest: "d @ xs = e @ ys"
    by (simp_all only: length_put_uint16)
  then have "get_uint16 (put_uint16 (of_nat (length d))) = get_uint16 (put_uint16 (of_nat (length e)))" by (simp only:)
  then have "unat (of_nat (length d) :: u16) = unat (of_nat (length e) :: u16)" unfolding get_put_uint16 by (simp only:)
  with assms(1,2) have "length d = length e" unfolding small_def by (simp only: unat_u16_small)
  then show ?thesis using rest by (rule split_same_length)
qed

lemma frames_prefix:
  assumes "prefix (concat (map udp_frame ds)) (concat (map udp_frame es))"
    and "list_all small ds" and "list_all small es"
  shows "prefix ds es"
  using assms
proof (induction ds arbitrary: es)
  case Nil
  show ?case by simp
next
  case (Cons d ds)
  obtain zs where zs: "concat (map udp_frame es) = (udp_frame d @ concat (map udp_frame ds)) @ zs"
    using Cons.prems(1) unfolding list.map concat.simps by (rule prefixE)
  have "es \<noteq> []"
  proof
    assume "es = []"
    with zs have "udp_frame d = []" by simp
    then show False by simp
  qed
  then obtain e es' where es: "es = e # es'" by (cases es) blast
  have eq: "udp_frame e @ concat (map udp_frame es') = udp_frame d @ concat (map udp_frame ds) @ zs"
    using zs unfolding es list.map concat.simps append_assoc .
  have small: "small e" "small d" "list_all small ds" "list_all small es'"
    using Cons.prems(2,3) by (simp_all add: es)
  from udp_frame_inj [OF small(1,2) eq] have "e = d" and "prefix (concat (map udp_frame ds)) (concat (map udp_frame es'))"
    by (auto simp: prefix_def)
  with Cons.IH small es show ?case by simp
qed

lemma prefix_filter: "prefix xs ys \<Longrightarrow> prefix (filter P xs) (filter P ys)"
  by (auto simp: prefix_def)

section \<open>Invariants\<close>

definition server_frames_ok :: "udp_proxy \<Rightarrow> bool" where
  "server_frames_ok p \<longleftrightarrow> list_all small (up_frames p)"

lemma server_frames_step: "udp_proxy_step own p q \<Longrightarrow> server_frames_ok p \<Longrightarrow> server_frames_ok q"
  by (erule udp_proxy_stepE) (auto simp: server_frames_ok_def small_def)

definition client_replies_ok :: "udp_request \<Rightarrow> bool" where
  "client_replies_ok r \<longleftrightarrow> list_all small (ur_replies r) \<and> (\<forall>d. ur_reader r = RdWriting d \<longrightarrow> small d)"

lemma client_replies_step: "udp_request_step l r r' \<Longrightarrow> client_replies_ok r \<Longrightarrow> client_replies_ok r'"
  by (erule udp_request_stepE) (auto simp: client_replies_ok_def small_def)

text \<open>What was written stays.\<close>

lemma client_out_grows: "udp_request_step l r r' \<Longrightarrow> \<exists>bs. ur_out r' = ur_out r @ bs"
  by (erule udp_request_stepE) auto

lemma server_out_grows: "udp_proxy_step own p q \<Longrightarrow> \<exists>bs. dc_out (up_client q) = dc_out (up_client p) @ bs"
  by (erule udp_proxy_stepE) auto

lemma taken_step: "udp_request_step l r r' \<Longrightarrow> ur_taken r' = (case l of Takes data \<Rightarrow> ur_taken r @ [data] | _ \<Rightarrow> ur_taken r)"
  by (erule udp_request_stepE) auto

lemma takes_keeps: "udp_request_step (Takes data) r r' \<Longrightarrow> ur_sent r' = ur_sent r"
  by (erule udp_request_stepE) auto

definition udp_wire_ok :: "udp_tunnel \<Rightarrow> bool" where
  "udp_wire_ok t \<longleftrightarrow>
     prefix (at_server t) (from_client t) \<and> prefix (at_client t) (from_server t) \<and>
     ur_taken (ut_client t) = map udp_frame (ut_datagrams t) \<and> list_all small (ut_datagrams t) \<and>
     server_frames_ok (ut_server t) \<and> client_replies_ok (ut_client t)"

lemma udp_wire_step:
  assumes "udp_tunnel_step t u" and "udp_wire_ok t"
  shows "udp_wire_ok u"
  using assms(1)
proof (cases rule: udp_tunnel_step.cases)
  case (ClientStep l r)
  with assms(2) client_out_grows [OF ClientStep(2)] taken_step [OF ClientStep(2)] client_replies_step [OF ClientStep(2)]
  show ?thesis by (auto simp: udp_wire_ok_def)
next
  case (ClientTakes d buf buf' n r)
  have "take n buf' = udp_frame d"
    using udp_conn_read_frame [of d buf None] ClientTakes by (simp add: UDPBufferSize_def)
  with assms(2) ClientTakes client_out_grows [OF ClientTakes(5)] taken_step [OF ClientTakes(5)]
    client_replies_step [OF ClientTakes(5)] takes_keeps [OF ClientTakes(5)]
  show ?thesis by (auto simp: udp_wire_ok_def small_def)
next
  case (ServerStep own p)
  with assms(2) server_out_grows [OF ServerStep(2)] server_frames_step [OF ServerStep(2)]
  show ?thesis by (auto simp: udp_wire_ok_def)
qed (use assms(2) in \<open>auto simp: udp_wire_ok_def server_frames_ok_def client_replies_ok_def\<close>)

lemma udp_tunnel_parts_step:
  assumes "udp_tunnel_step t u" and "udp_request_reachable (ut_client t)" and "udp_proxy_reachable (ut_server t)"
  shows "udp_request_reachable (ut_client u) \<and> udp_proxy_reachable (ut_server u)"
  using assms
  by (cases rule: udp_tunnel_step.cases)
    (auto intro: udp_request_any_step udp_any udp_request_step.Arrive udp_proxy_step.ClientSends)

lemma udp_tunnel_invariant:
  assumes "udp_tunnel_reachable t"
  shows "(udp_request_reachable (ut_client t) \<and> udp_proxy_reachable (ut_server t)) \<and> udp_wire_ok t"
proof (rule steps_invariant [OF assms [unfolded udp_tunnel_reachable_def]])
  show "(udp_request_reachable (ut_client new_udp_tunnel) \<and> udp_proxy_reachable (ut_server new_udp_tunnel)) \<and>
      udp_wire_ok new_udp_tunnel"
    using udp_request_new udp_new_reachable
    by (simp add: new_udp_tunnel_def udp_wire_ok_def server_frames_ok_def client_replies_ok_def)
      (simp add: new_udp_request_def new_udp_proxy_def)
next
  fix t u
  assume "udp_tunnel_step t u"
    and "(udp_request_reachable (ut_client t) \<and> udp_proxy_reachable (ut_server t)) \<and> udp_wire_ok t"
  then show "(udp_request_reachable (ut_client u) \<and> udp_proxy_reachable (ut_server u)) \<and> udp_wire_ok u"
    using udp_tunnel_parts_step udp_wire_step by blast
qed

section \<open>The tunnel as pipelines\<close>

interpretation udp_tunnel_up: pipeline
    "\<lambda>r. udp_request_reachable r \<and> \<not> ur_forgot r" "\<lambda>r. concat (ur_taken r)" ur_out
      "\<lambda>r. drop (length (ur_out r)) (concat (ur_taken r))"
    "\<lambda>p. udp_proxy_reachable p \<and> \<not> up_partLost p" "\<lambda>p. dc_sent (up_client p)"
      "\<lambda>p. concat (map udp_frame (up_frames p))"
      "\<lambda>p. drop (length (concat (map udp_frame (up_frames p)))) (dc_sent (up_client p))"
    "\<lambda>t. udp_tunnel_reachable t \<and> \<not> ur_forgot (ut_client t) \<and> \<not> up_partLost (ut_server t)" ut_client ut_server
      "\<lambda>t. drop (length (at_server t)) (from_client t)"
proof unfold_locales
  fix t
  assume "udp_tunnel_reachable t \<and> \<not> ur_forgot (ut_client t) \<and> \<not> up_partLost (ut_server t)"
  then show "from_client t = at_server t @ drop (length (at_server t)) (from_client t)"
    using udp_tunnel_invariant by (intro prefix_rest) (simp add: udp_wire_ok_def)
qed (use udp_tunnel_invariant in blast)

interpretation udp_tunnel_down: pipeline
    udp_proxy_reachable "\<lambda>p. concat (map udp_frame (uc_sent (up_socket p)))" "\<lambda>p. dc_out (up_client p)"
      "\<lambda>p. drop (length (dc_out (up_client p))) (concat (map udp_frame (uc_sent (up_socket p))))"
    udp_request_reachable ur_sent "\<lambda>r. concat (map udp_frame (ur_replies r))"
      "\<lambda>r. drop (length (concat (map udp_frame (ur_replies r)))) (ur_sent r)"
    udp_tunnel_reachable ut_server ut_client "\<lambda>t. drop (length (at_client t)) (from_server t)"
proof unfold_locales
  fix t
  assume "udp_tunnel_reachable t"
  then show "from_server t = at_client t @ drop (length (at_client t)) (from_server t)"
    using udp_tunnel_invariant by (intro prefix_rest) (simp add: udp_wire_ok_def)
qed (use udp_tunnel_invariant in blast)

section \<open>Properties\<close>

text \<open>
  C18: Datagrams make the whole way through the tunnel, whatever the interleaving of its goroutines and the
  portions its stream delivers: the packets the destination gets are a front of the non-empty datagrams
  of the client, in order and unchanged, unless a failed write was forgotten or a deadline has passed
  inside a frame; and the packets the client gets back are a front of those the server's socket
  received, without exception.
\<close>

theorem udp_tunnel_datagrams:
  assumes "udp_tunnel_reachable t"
  shows "(ur_forgot (ut_client t) \<or> up_partLost (ut_server t) \<or>
      prefix (uc_out (up_socket (ut_server t))) (filter (\<lambda>d. d \<noteq> []) (ut_datagrams t)))
    \<and> prefix (ur_replies (ut_client t)) (uc_sent (up_socket (ut_server t)))"
proof -
  have server: "udp_proxy_reachable (ut_server t)" and wire: "udp_wire_ok t"
    using udp_tunnel_invariant [OF assms] by simp_all
  have "prefix (uc_out (up_socket (ut_server t))) (filter (\<lambda>d. d \<noteq> []) (ut_datagrams t))"
    if "\<not> ur_forgot (ut_client t)" "\<not> up_partLost (ut_server t)"
  proof -
    have "prefix (concat (map udp_frame (up_frames (ut_server t)))) (concat (map udp_frame (ut_datagrams t)))"
      using udp_tunnel_up.whole.in_order [of t] assms that wire by (simp add: udp_wire_ok_def)
    then have "prefix (up_frames (ut_server t)) (ut_datagrams t)"
      by (rule frames_prefix) (use wire in \<open>simp_all add: udp_wire_ok_def server_frames_ok_def\<close>)
    with udp_packets_out [OF server] show ?thesis
      using prefix_filter prefix_order.order_trans by blast
  qed
  moreover have "prefix (ur_replies (ut_client t)) (uc_sent (up_socket (ut_server t)))"
  proof (rule frames_prefix)
    show "prefix (concat (map udp_frame (ur_replies (ut_client t))))
        (concat (map udp_frame (uc_sent (up_socket (ut_server t)))))"
      by (rule udp_tunnel_down.whole.in_order [OF assms])
    show "list_all small (ur_replies (ut_client t))"
      using wire by (simp add: udp_wire_ok_def client_replies_ok_def)
    show "list_all small (uc_sent (up_socket (ut_server t)))"
      using udp_proxy_invariant [OF server] by (simp add: udp_proxy_ok_def udp_up_ok_def small_def list_all_iff)
  qed
  ultimately show ?thesis by blast
qed

section \<open>Examples\<close>

text \<open>As long as nothing is on the stream the two programs go on by themselves.\<close>

lemma udp_tunnel_goes_on: "udp_tunnel_reachable t \<Longrightarrow> udp_tunnel_step t u \<Longrightarrow> udp_tunnel_reachable u"
  unfolding udp_tunnel_reachable_def by (rule rtranclp.rtrancl_into_rtrancl)

lemma server_sent_grows: "udp_proxy_step own p q \<Longrightarrow> \<exists>bs. dc_sent (up_client q) = dc_sent (up_client p) @ bs"
  by (erule udp_proxy_stepE) auto

lemma client_sent_grows: "udp_request_step l r r' \<Longrightarrow> \<exists>bs. ur_sent r' = ur_sent r @ bs"
  by (erule udp_request_stepE) auto

lemma server_alone:
  assumes "udp_proxy_reachable p" and "dc_sent (up_client p) = []"
  shows "udp_tunnel_reachable (new_udp_tunnel\<lparr>ut_server := p\<rparr>)"
  using assms unfolding udp_proxy_reachable_def
proof (induction rule: rtranclp_induct)
  case base
  then show ?case by (simp add: udp_tunnel_reachable_def new_udp_tunnel_def)
next
  case (step p q)
  then obtain own where st: "udp_proxy_step own p q" by (auto simp: udp_proxy_any_def)
  with step.prems have e: "dc_sent (up_client p) = []" using server_sent_grows [OF st] by auto
  have "udp_tunnel_step (new_udp_tunnel\<lparr>ut_server := p\<rparr>) ((new_udp_tunnel\<lparr>ut_server := p\<rparr>)\<lparr>ut_server := q\<rparr>)"
    by (rule ServerStep) (use st e step.prems in simp_all)
  with step.IH [OF e] show ?case using udp_tunnel_goes_on by fastforce
qed

lemma client_alone:
  assumes "udp_request_reachable r" and "ur_sent r = []" and "ur_taken r = []"
    and "udp_tunnel_reachable (new_udp_tunnel\<lparr>ut_server := p\<rparr>)"
  shows "udp_tunnel_reachable (new_udp_tunnel\<lparr>ut_server := p, ut_client := r\<rparr>)"
  using assms(1-3) unfolding udp_request_reachable_def
proof (induction rule: rtranclp_induct)
  case base
  have "new_udp_tunnel\<lparr>ut_server := p, ut_client := new_udp_request\<rparr> = new_udp_tunnel\<lparr>ut_server := p\<rparr>"
    by (simp add: new_udp_tunnel_def)
  with assms(4) show ?case by simp
next
  case (step r r')
  then obtain l where st: "udp_request_step l r r'" by (auto simp: udp_request_any_def)
  have e: "ur_sent r = []" "ur_taken r = []" and l: "l = Own \<or> l = Env \<or> l = Finishes"
    using step.prems client_sent_grows [OF st] taken_step [OF st] by (cases l; auto)+
  let ?t = "new_udp_tunnel\<lparr>ut_server := p, ut_client := r\<rparr>"
  have "udp_tunnel_step ?t (?t\<lparr>ut_client := r'\<rparr>)"
    by (rule ClientStep [OF _ l]) (use st e step.prems in simp_all)
  with step.IH [OF e] show ?case using udp_tunnel_goes_on by fastforce
qed

text \<open>A reply of one byte on its way back, and delivered.\<close>

definition replied_tunnel :: udp_tunnel where
  "replied_tunnel = new_udp_tunnel\<lparr>ut_server := answered_proxy,
     ut_client := accepted_request\<lparr>ur_sent := [0, 1, 65], ur_replies := [[65]]\<rparr>\<rparr>"

lemma replied_tunnel_reachable: "udp_tunnel_reachable replied_tunnel"
proof -
  let ?t = "new_udp_tunnel\<lparr>ut_server := answered_proxy, ut_client := accepted_request\<rparr>"
  let ?r1 = "accepted_request\<lparr>ur_in := [0, 1, 65], ur_sent := [0, 1, 65]\<rparr>"
  let ?r2 = "?r1\<lparr>ur_in := [65], ur_reader := RdBody 1 []\<rparr>"
  let ?r3 = "?r2\<lparr>ur_in := [], ur_reader := RdBody 1 [65]\<rparr>"
  let ?r4 = "?r3\<lparr>ur_reader := RdWriting [65]\<rparr>"
  note server = server_alone [OF answered_proxy_reachable]
  have "udp_tunnel_reachable ?t"
    by (rule client_alone [OF accepted_request_reachable]; (rule server)?)
      (simp_all add: example_udp_request_defs answered_proxy_def new_udp_proxy_def)
  moreover have "udp_tunnel_step ?t (?t\<lparr>ut_client := ?r1\<rparr>)"
    using WireDown [of ?t "[0, 1, 65]" "[]"]
    by (simp add: example_udp_request_defs answered_proxy_def new_udp_proxy_def)
  ultimately have 1: "udp_tunnel_reachable (?t\<lparr>ut_client := ?r1\<rparr>)" by (rule udp_tunnel_goes_on)
  have own: "udp_tunnel_reachable (?t\<lparr>ut_client := r'\<rparr>)"
    if "udp_tunnel_reachable (?t\<lparr>ut_client := r\<rparr>)" "udp_request_step Own r r'" "ur_sent r' = ur_sent r" for r r'
  proof -
    have "udp_tunnel_step (?t\<lparr>ut_client := r\<rparr>) ((?t\<lparr>ut_client := r\<rparr>)\<lparr>ut_client := r'\<rparr>)"
      by (rule ClientStep [of Own]) (use that(2,3) in simp_all)
    with that(1) show ?thesis using udp_tunnel_goes_on by fastforce
  qed
  have "get_uint16 [0, 1] = 1" by code_simp
  then have "udp_request_step Own ?r1 ?r2"
    using HasLength [of ?r1 "[]" "[0, 1]" "[65]"] by (simp add: example_udp_request_defs)
  from own [OF 1 this] have 2: "udp_tunnel_reachable (?t\<lparr>ut_client := ?r2\<rparr>)" by simp
  have "udp_request_step Own ?r2 ?r3" using ReadBody [of ?r2 1 "[]" "[65]" "[]"] by simp
  from own [OF 2 this] have 3: "udp_tunnel_reachable (?t\<lparr>ut_client := ?r3\<rparr>)" by simp
  have "udp_request_step Own ?r3 ?r4" using HasReply [of ?r3 1 "[65]"] by simp
  from own [OF 3 this] have 4: "udp_tunnel_reachable (?t\<lparr>ut_client := ?r4\<rparr>)" by simp
  from own [OF 4 ReplySent [of ?r4 "[65]"]] show ?thesis
    by (simp add: replied_tunnel_def example_udp_request_defs)
qed

theorem udp_tunnel_datagrams_witness:
  "ur_replies (ut_client replied_tunnel) = [[65]] \<and> prefix [[65]] (uc_sent (up_socket (ut_server replied_tunnel)))"
  using udp_tunnel_datagrams [OF replied_tunnel_reachable]
  by (simp add: replied_tunnel_def answered_proxy_def new_udp_proxy_def)

end
