(* ===== verification/Socks5.thy ===== *)
theory Socks5
  imports Wire
begin

text \<open>
  The SOCKS5 handshake of the proxy command: \<open>socks5Handshake\<close> in \<open>cmd/client/command_proxy.go\<close> and
  \<open>bytesReader\<close> and \<open>copyBuffer\<close> in \<open>cmd/client/utils.go\<close>. All messages are read into one buffer of 256
  bytes, and what \<open>ReadBytes\<close> returns is a view of it that the next read overwrites; so slices are
  values of a datatype here, and a view is looked up in the buffer when it is used.
\<close>

datatype slice = View nat | Owned "byte list"

text \<open>The client's connection, and the buffer of the \<open>bytesReader\<close>.\<close>

record socks_conn =
  c_in :: stream
  c_out :: sink
  br_buf :: "byte list"

datatype socks_error =
    SocksIO io_error
  | UnsupportedAddressType byte
  | UnsupportedCommand byte

type_synonym 'a socks_act = "socks_conn \<Rightarrow> (socks_error, 'a) outcome \<times> socks_conn"

definition deref :: "socks_conn \<Rightarrow> slice \<Rightarrow> byte list" where
  "deref c sl = (case sl of View n \<Rightarrow> take n (br_buf c) | Owned bs \<Rightarrow> bs)"

fun sbind :: "'a socks_act \<Rightarrow> ('a \<Rightarrow> 'b socks_act) \<Rightarrow> 'b socks_act" where
  "sbind m f c =
     (case m c of
        (Panic, c') \<Rightarrow> (Panic, c')
      | (Error e, c') \<Rightarrow> (Error e, c')
      | (Ok a, c') \<Rightarrow> f a c')"

definition sret :: "'a \<Rightarrow> 'a socks_act" where
  "sret a c = (Ok a, c)"

definition sfail :: "socks_error \<Rightarrow> 'a socks_act" where
  "sfail e c = (Error e, c)"

text \<open>\<open>data[i]\<close>.\<close>

definition at_index :: "slice \<Rightarrow> nat \<Rightarrow> byte socks_act" where
  "at_index data i c =
     (let bs = deref c data in if i < length bs then (Ok (bs ! i), c) else (Panic, c))"

section \<open>bytesReader\<close>

definition read_bytes :: "nat \<Rightarrow> slice socks_act" where
  "read_bytes n c =
     (if length (br_buf c) < n then (Panic, c)
      else case read_full n (c_in c) of
             (bs, err, s') \<Rightarrow>
               let c' = c\<lparr>c_in := s', br_buf := copy_slice (br_buf c) bs\<rparr> in
                 (case err of Some e \<Rightarrow> (Error (SocksIO e), c') | None \<Rightarrow> (Ok (View n), c')))"

definition read_uint16 :: "u16 socks_act" where
  "read_uint16 =
     sbind (read_bytes 2) (\<lambda>data c. (Ok (get_uint16 (deref c data)), c))"

definition read_string :: "slice socks_act" where
  "read_string =
     sbind (read_bytes 1) (\<lambda>data.
     sbind (at_index data 0) (\<lambda>b.
     read_bytes (unat b)))"

text \<open>A new slice, of the length of the old one, with its bytes.\<close>

definition copy_buffer :: "slice \<Rightarrow> slice socks_act" where
  "copy_buffer b c =
     (Ok (Owned (copy_slice (replicate (length (deref c b)) 0) (deref c b))), c)"

section \<open>The handshake\<close>

text \<open>A \<open>Write\<close> whose error ends the handshake, and one whose error is dropped.\<close>

definition conn_write :: "byte list \<Rightarrow> unit socks_act" where
  "conn_write p c =
     (case sink_write (c_out c) p of
        (_, err, w') \<Rightarrow>
          ((case err of None \<Rightarrow> Ok () | Some e \<Rightarrow> Error (SocksIO e)), c\<lparr>c_out := w'\<rparr>))"

definition conn_write_ignored :: "byte list \<Rightarrow> unit socks_act" where
  "conn_write_ignored p c = (case sink_write (c_out c) p of (_, _, w') \<Rightarrow> (Ok (), c\<lparr>c_out := w'\<rparr>))"

definition socks_reply :: "byte \<Rightarrow> byte list" where
  "socks_reply rep = [5, rep, 0, 1, 0, 0, 0, 0, 0, 0]"

definition maxAddrLen :: nat where "maxAddrLen = 256"

text \<open>The address, by its type: a type of \<^typ>\<open>addr\<close> and a slice.\<close>

definition socks_addr :: "byte \<Rightarrow> (byte \<times> slice) socks_act" where
  "socks_addr adrType =
     (if adrType = 1 then
        sbind (read_bytes 4) (\<lambda>data. sbind (copy_buffer data) (\<lambda>d. sret (AddrTypeIP, d)))
      else if adrType = 4 then
        sbind (read_bytes 16) (\<lambda>data. sbind (copy_buffer data) (\<lambda>d. sret (AddrTypeIP, d)))
      else if adrType = 3 then
        sbind read_string (\<lambda>data. sbind (copy_buffer data) (\<lambda>d. sret (AddrTypeHost, d)))
      else
        sbind (conn_write_ignored (socks_reply 8)) (\<lambda>_. sfail (UnsupportedAddressType adrType)))"

text \<open>VER, NMETHODS and METHODS, and the answer.\<close>

definition greeting_steps :: "unit socks_act" where
  "greeting_steps =
     sbind (read_bytes 2) (\<lambda>data.
     sbind (at_index data 1) (\<lambda>nmethods.
     sbind (read_bytes (unat nmethods)) (\<lambda>_.
     conn_write [5, 0])))"

text \<open>VER CMD RSV ATYP DST.ADDR DST.PORT, and the answer.\<close>

definition request_steps :: "addr_port socks_act" where
  "request_steps =
     sbind (read_bytes 3) (\<lambda>data.
     sbind (at_index data 1) (\<lambda>cmd.
     sbind (read_bytes 1) (\<lambda>data.
     sbind (at_index data 0) (\<lambda>adrType.
     sbind (socks_addr adrType) (\<lambda>(typ, slice).
     sbind read_uint16 (\<lambda>port.
     sbind
       (if cmd = 1 then conn_write (socks_reply 0)
        else sbind (conn_write_ignored (socks_reply 7)) (\<lambda>_. sfail (UnsupportedCommand cmd))) (\<lambda>_ c.
     (Ok (addr_port_from (addr_from_bytes typ (deref c slice)) port), c))))))))"

definition socks5_handshake ::
  "stream \<Rightarrow> sink \<Rightarrow> (socks_error, addr_port) outcome \<times> stream \<times> sink"
where
  "socks5_handshake s w =
     (case sbind greeting_steps (\<lambda>_. request_steps) \<lparr>c_in = s, c_out = w, br_buf = replicate maxAddrLen 0\<rparr> of
        (r, c) \<Rightarrow> (r, c_in c, c_out c))"

section \<open>What a read does, by the bytes that are pending\<close>

named_theorems socks_simps "symbolic execution of the handshake"

text \<open>The connection after a read of \<open>n\<close> bytes, whether they were there or not.\<close>

definition advance :: "nat \<Rightarrow> socks_conn \<Rightarrow> socks_conn" where
  "advance n c =
     (case read_full n (c_in c) of
        (bs, _, s') \<Rightarrow> c\<lparr>c_in := s', br_buf := copy_slice (br_buf c) bs\<rparr>)"

definition read_error :: "nat \<Rightarrow> socks_conn \<Rightarrow> io_error" where
  "read_error n c = (case read_full n (c_in c) of (_, err, _) \<Rightarrow> the err)"

definition bytes_left :: "socks_conn \<Rightarrow> byte list" where
  "bytes_left c = pending (c_in c)"

lemma length_br_buf_advance [socks_simps]: "length (br_buf (advance n c)) = length (br_buf c)"
  by (simp add: advance_def split: prod.splits)

lemma br_buf_advance_Nil [socks_simps]: "br_buf (advance n c) = [] \<longleftrightarrow> br_buf c = []"
  using length_br_buf_advance [of n c] by (metis length_0_conv)

lemma c_out_advance [socks_simps]: "c_out (advance n c) = c_out c"
  by (simp add: advance_def split: prod.splits)

lemma read_bytes_eq [socks_simps]:
  "read_bytes n c =
     (if length (br_buf c) < n then (Panic, c)
      else if n \<le> length (bytes_left c) then (Ok (View n), advance n c)
      else (Error (SocksIO (read_error n c)), advance n c))"
proof (cases "n \<le> length (bytes_left c)")
  case True
  then show ?thesis
    using conn.enough [of n "c_in c"]
    by (auto simp: read_bytes_def advance_def bytes_left_def)
next
  case False
  then show ?thesis
    using conn.short [of "c_in c" n]
    by (auto simp: read_bytes_def advance_def read_error_def bytes_left_def)
qed

lemma bytes_left_advance [socks_simps]:
  "n \<le> length (bytes_left c) \<Longrightarrow> bytes_left (advance n c) = drop n (bytes_left c)"
  using conn.enough [of n "c_in c"] by (auto simp: advance_def bytes_left_def)

lemma deref_View_advance [socks_simps]:
  "n \<le> length (bytes_left c) \<Longrightarrow> n \<le> length (br_buf c) \<Longrightarrow>
     deref (advance n c) (View n) = take n (bytes_left c)"
  using conn.enough [of n "c_in c"]
  by (auto simp: advance_def bytes_left_def deref_def copy_slice_def)

lemma deref_Owned [socks_simps]: "deref c (Owned bs) = bs"
  by (simp add: deref_def)

lemma bytes_left_c_out [socks_simps]: "bytes_left (c\<lparr>c_out := w\<rparr>) = bytes_left c"
  by (simp add: bytes_left_def)

lemma copy_buffer_eq [socks_simps]: "copy_buffer b c = (Ok (Owned (deref c b)), c)"
  by (simp add: copy_buffer_def)

lemma byte_fits [simp]: "\<not> 256 < unat (b :: byte)" "unat (b :: byte) \<le> 256"
  using unsigned_less [of b, where ?'a = nat] by simp_all

lemma at_index_eq [socks_simps]:
  "at_index data i c = (if i < length (deref c data) then (Ok (deref c data ! i), c) else (Panic, c))"
  by (simp add: at_index_def Let_def)

section \<open>The messages\<close>

datatype 'a socks_field = Missing | BadType | Field 'a "byte list"

definition take_addr :: "byte \<Rightarrow> nat \<Rightarrow> byte list \<Rightarrow> addr socks_field" where
  "take_addr typ n bs =
     (if length bs < n then Missing else Field (addr_from_bytes typ (take n bs)) (drop n bs))"

definition addr_field :: "byte \<Rightarrow> byte list \<Rightarrow> addr socks_field" where
  "addr_field t bs =
     (if t = 1 then take_addr AddrTypeIP 4 bs
      else if t = 4 then take_addr AddrTypeIP 16 bs
      else if t = 3 then (case bs of [] \<Rightarrow> Missing | n # bs' \<Rightarrow> take_addr AddrTypeHost (unat n) bs')
      else BadType)"

lemma socks_addr_field:
  assumes "length (br_buf c) = 256"
  shows "case addr_field t (bytes_left c) of
      Missing \<Rightarrow> \<exists>e c'. socks_addr t c = (Error (SocksIO e), c') \<and> c_out c' = c_out c
    | BadType \<Rightarrow> \<exists>c'. socks_addr t c = (Error (UnsupportedAddressType t), c')
        \<and> c_out c' = snd (snd (sink_write (c_out c) (socks_reply 8)))
    | Field a rest \<Rightarrow> \<exists>c'. socks_addr t c = (Ok (a_typ a, Owned (a_data a)), c')
        \<and> bytes_left c' = rest \<and> c_out c' = c_out c \<and> length (br_buf c') = 256"
proof -
  show ?thesis
    using assms
    by (auto simp: addr_field_def socks_addr_def take_addr_def socks_simps read_string_def sret_def
        sfail_def conn_write_ignored_def addr_from_bytes_def not_less not_le Let_def
        split: list.splits prod.splits)
qed

text \<open>
  What the handshake makes of the bytes the client sends, without connection, buffer and chunks: the
  verdict, and the answers.
\<close>

datatype socks_verdict =
    Truncated
  | RefusedType byte
  | RefusedCommand byte
  | Connect addr_port "byte list"

definition request_verdict :: "byte list \<Rightarrow> socks_verdict \<times> byte list list" where
  "request_verdict bs =
     (case bs of
        ver # cmd # rsv # t # bs1 \<Rightarrow>
          (case addr_field t bs1 of
             Missing \<Rightarrow> (Truncated, [])
           | BadType \<Rightarrow> (RefusedType t, [socks_reply 8])
           | Field a bs2 \<Rightarrow>
               (case bs2 of
                  p # q # rest \<Rightarrow>
                    if cmd = 1 then (Connect (addr_port_from a (get_uint16 [p, q])) rest, [socks_reply 0])
                    else (RefusedCommand cmd, [socks_reply 7])
                | _ \<Rightarrow> (Truncated, [])))
      | _ \<Rightarrow> (Truncated, []))"

definition socks_verdict :: "byte list \<Rightarrow> socks_verdict \<times> byte list list" where
  "socks_verdict bs =
     (case bs of
        ver # n # bs1 \<Rightarrow>
          if length bs1 < unat n then (Truncated, [])
          else (case request_verdict (drop (unat n) bs1) of (v, out) \<Rightarrow> (v, [5, 0] # out))
      | _ \<Rightarrow> (Truncated, []))"

fun outcome_of :: "socks_verdict \<Rightarrow> (socks_error, addr_port) outcome \<Rightarrow> byte list \<Rightarrow> bool" where
  "outcome_of Truncated r left \<longleftrightarrow> (\<exists>e. r = Error (SocksIO e))"
| "outcome_of (RefusedType t) r left \<longleftrightarrow> r = Error (UnsupportedAddressType t)"
| "outcome_of (RefusedCommand cmd) r left \<longleftrightarrow> r = Error (UnsupportedCommand cmd)"
| "outcome_of (Connect ap rest) r left \<longleftrightarrow> r = Ok ap \<and> left = rest"

definition sends :: "byte list list \<Rightarrow> sink \<Rightarrow> sink" where
  "sends ps w = fold (\<lambda>p w. take_in (length p) p w) ps w"

lemma addr_eta: "\<lparr>a_typ = a_typ a, a_data = a_data a\<rparr> = a"
  by (cases a) simp

lemma list4_cases:
  obtains "length xs < 3" | a b c where "xs = [a, b, c]" | a b c d ys where "xs = a # b # c # d # ys"
proof (cases "length xs < 3")
  case False
  then obtain a b c ys where "xs = a # b # c # ys"
    by (metis One_nat_def Suc_leI length_0_conv length_Cons less_2_cases_iff list.exhaust not_less_eq numeral_3_eq_3 zero_less_Suc)
  with that show thesis by (cases ys) auto
qed

lemma request_steps_verdict:
  assumes "length (br_buf c) = 256" and "wr_script (c_out c) = []"
  shows "\<exists>r c'. request_steps c = (r, c') \<and>
    (case request_verdict (bytes_left c) of (v, out) \<Rightarrow>
       outcome_of v r (bytes_left c') \<and> c_out c' = sends out (c_out c))"
proof (cases "bytes_left c" rule: list4_cases)
  case 1
  then have "request_verdict (bytes_left c) = (Truncated, [])"
    by (auto simp: request_verdict_def split: list.splits)
  with 1 assms show ?thesis by (simp add: request_steps_def socks_simps sends_def)
next
  case (2 v cmd rsv)
  moreover have "br_buf c \<noteq> []" using assms(1) by auto
  ultimately show ?thesis
    using assms by (simp add: request_steps_def request_verdict_def socks_simps sends_def)
next
  case (3 v cmd rsv t bs)
  have start: "request_steps c = sbind (socks_addr t) (\<lambda>(typ, slice).
     sbind read_uint16 (\<lambda>port.
     sbind
       (if cmd = 1 then conn_write (socks_reply 0)
        else sbind (conn_write_ignored (socks_reply 7)) (\<lambda>_. sfail (UnsupportedCommand cmd))) (\<lambda>_ c.
     (Ok (addr_port_from (addr_from_bytes typ (deref c slice)) port), c)))) (advance 1 (advance 3 c))"
  proof -
    have "br_buf c \<noteq> []" using assms(1) by auto
    with 3 assms show ?thesis by (simp add: request_steps_def socks_simps)
  qed
  let ?c = "advance 1 (advance 3 c)"
  have c: "length (br_buf ?c) = 256" "bytes_left ?c = bs" "c_out ?c = c_out c"
    using 3 assms by (simp_all add: socks_simps)
  show ?thesis
  proof (cases "addr_field t bs")
    case Missing
    then show ?thesis
      using socks_addr_field [OF c(1), of t] 3 c
      by (auto simp: start request_verdict_def sends_def)
  next
    case BadType
    then show ?thesis
      using socks_addr_field [OF c(1), of t] 3 c assms(2)
      by (auto simp: start request_verdict_def sends_def sink_write_def)
  next
    case (Field a bs2)
    then obtain c1 where c1: "socks_addr t ?c = (Ok (a_typ a, Owned (a_data a)), c1)"
      "bytes_left c1 = bs2" "c_out c1 = c_out c" "length (br_buf c1) = 256"
      using socks_addr_field [OF c(1), of t] c by auto
    then show ?thesis
      using Field 3 assms(2)
      by (auto simp: start request_verdict_def read_uint16_def conn_write_def conn_write_ignored_def
          sfail_def sink_write_def sends_def socks_simps addr_from_bytes_def addr_eta
          split: list.splits)
  qed
qed

lemma greeting_steps_verdict:
  assumes "length (br_buf c) = 256" and "wr_script (c_out c) = []"
  shows "case bytes_left c of
      v # n # bs \<Rightarrow>
        if length bs < unat n then \<exists>e c'. greeting_steps c = (Error (SocksIO e), c') \<and> c_out c' = c_out c
        else \<exists>c'. greeting_steps c = (Ok (), c') \<and> bytes_left c' = drop (unat n) bs \<and>
          length (br_buf c') = 256 \<and> c_out c' = take_in 2 [5, 0] (c_out c)
    | _ \<Rightarrow> \<exists>e c'. greeting_steps c = (Error (SocksIO e), c') \<and> c_out c' = c_out c"
  using assms
  by (auto simp: greeting_steps_def conn_write_def sink_write_def socks_simps numeral_2_eq_2
      split: list.splits)

lemma socks5_handshake_verdict:
  assumes "wr_script w = []"
  shows "case socks5_handshake s w of (r, s', w') \<Rightarrow>
    case socks_verdict (pending s) of (v, out) \<Rightarrow>
      outcome_of v r (pending s') \<and> w' = sends out w"
proof -
  let ?c = "\<lparr>c_in = s, c_out = w, br_buf = replicate maxAddrLen 0\<rparr>"
  have c: "length (br_buf ?c) = 256" "wr_script (c_out ?c) = []" "bytes_left ?c = pending s" "c_out ?c = w"
    using assms by (simp_all add: maxAddrLen_def bytes_left_def)
  note g = greeting_steps_verdict [OF c(1,2), unfolded c(3,4)]
  show ?thesis
  proof (cases "case pending s of v # n # bs \<Rightarrow> unat n \<le> length bs | _ \<Rightarrow> False")
    case False
    then obtain e c' where "greeting_steps ?c = (Error (SocksIO e), c')" "c_out c' = w"
      "socks_verdict (pending s) = (Truncated, [])"
      using g by (auto simp: socks_verdict_def split: list.splits if_splits)
    then show ?thesis by (simp add: socks5_handshake_def sends_def)
  next
    case True
    then obtain v n bs where bs: "pending s = v # n # bs" "unat n \<le> length bs"
      by (auto split: list.splits)
    with g obtain c1 where c1: "greeting_steps ?c = (Ok (), c1)" "bytes_left c1 = drop (unat n) bs"
      "length (br_buf c1) = 256" "c_out c1 = take_in 2 [5, 0] w"
      by auto
    obtain r c2 where "request_steps c1 = (r, c2)"
      "case request_verdict (drop (unat n) bs) of (v, out) \<Rightarrow>
         outcome_of v r (bytes_left c2) \<and> c_out c2 = sends out (c_out c1)"
      using request_steps_verdict [OF c1(3)] c1(2,4) assms by (auto simp: take_in_def)
    then show ?thesis
      using c1 bs
      by (auto simp: socks5_handshake_def socks_verdict_def sends_def bytes_left_def numeral_2_eq_2
          split: prod.splits)
  qed
qed

section \<open>No step panics\<close>

definition safe :: "'a socks_act \<Rightarrow> ('a \<Rightarrow> bool) \<Rightarrow> bool" where
  "safe m P \<longleftrightarrow> (\<forall>c. length (br_buf c) = 256 \<longrightarrow>
     (case m c of
        (Panic, _) \<Rightarrow> False
      | (Error _, _) \<Rightarrow> True
      | (Ok a, c') \<Rightarrow> length (br_buf c') = 256 \<and> P a))"

lemma safe_sbind:
  assumes "safe m P" and "\<And>a. P a \<Longrightarrow> safe (f a) Q"
  shows "safe (sbind m f) Q"
  unfolding safe_def
proof (intro allI impI)
  fix c :: socks_conn
  assume c: "length (br_buf c) = 256"
  obtain r c' where m: "m c = (r, c')" by (cases "m c")
  show "case sbind m f c of (Panic, _) \<Rightarrow> False | (Error _, _) \<Rightarrow> True
      | (Ok a, c') \<Rightarrow> length (br_buf c') = 256 \<and> Q a"
  proof (cases r)
    case (Ok a)
    have "length (br_buf c') = 256" and "P a" using assms(1) m c Ok by (fastforce simp: safe_def)+
    moreover from this(2) have "safe (f a) Q" by (rule assms(2))
    ultimately show ?thesis using m Ok by (simp add: safe_def)
  qed (use assms(1) m c in \<open>fastforce simp: safe_def\<close>)+
qed

lemma safe_read:
  "n \<le> 256 \<Longrightarrow> safe (f (View n)) Q \<Longrightarrow> safe (sbind (read_bytes n) f) Q"
  by (rule safe_sbind [where P = "\<lambda>d. d = View n"])
    (simp_all add: safe_def read_bytes_eq length_br_buf_advance)

lemma safe_index:
  "i < n \<Longrightarrow> n \<le> 256 \<Longrightarrow> (\<And>b. safe (f b) Q) \<Longrightarrow> safe (sbind (at_index (View n) i) f) Q"
  by (rule safe_sbind [where P = "\<lambda>_. True"]) (simp_all add: safe_def at_index_eq deref_def)

lemma safe_conn_write: "safe (conn_write p) (\<lambda>_. True)"
  by (simp add: safe_def conn_write_def split: prod.splits option.splits)

lemma safe_refuse: "safe (sbind (conn_write_ignored p) (\<lambda>_. sfail e)) Q"
  by (simp add: safe_def conn_write_ignored_def sfail_def split: prod.splits)

lemma safe_value: "safe (\<lambda>c. (Ok (f c), c)) (\<lambda>_. True)"
  by (simp add: safe_def)

lemma safe_read_last: "n \<le> 256 \<Longrightarrow> safe (read_bytes n) (\<lambda>_. True)"
  by (simp add: safe_def read_bytes_eq length_br_buf_advance)

lemma safe_copied: "safe m P \<Longrightarrow> safe (sbind m (\<lambda>data. sbind (copy_buffer data) (\<lambda>d. sret (typ, d)))) (\<lambda>_. True)"
  by (rule safe_sbind) (simp_all add: safe_def copy_buffer_def sret_def)

lemma safe_read_string: "safe read_string (\<lambda>_. True)"
  unfolding read_string_def
  by (intro safe_read safe_index safe_read_last) simp_all

lemma safe_addr: "safe (socks_addr t) (\<lambda>_. True)"
  unfolding socks_addr_def
  by (simp only: safe_refuse safe_copied [OF safe_read_last] safe_copied [OF safe_read_string] split: if_split) simp

lemma safe_greeting: "safe greeting_steps (\<lambda>_. True)"
  unfolding greeting_steps_def
  by (intro safe_read safe_index safe_conn_write) simp_all

lemma safe_answer:
  "safe (if cmd = 1 then conn_write p else sbind (conn_write_ignored q) (\<lambda>_. sfail e)) (\<lambda>_. True)"
  by (simp only: safe_conn_write safe_refuse split: if_split) simp

lemma safe_port: "safe read_uint16 (\<lambda>_. True)"
  unfolding read_uint16_def by (intro safe_read safe_value) simp_all

lemma safe_request: "safe request_steps (\<lambda>_. True)"
  unfolding request_steps_def split_beta
  by (intro safe_read safe_index safe_sbind [OF safe_addr] safe_sbind [OF safe_port]
      safe_sbind [OF safe_answer] safe_value) simp_all

section \<open>Properties\<close>

text \<open>What a client sends to reach an address: the type, the length of a name, the bytes.\<close>

definition socks_dest :: "addr \<Rightarrow> byte list" where
  "socks_dest a =
     (if a_typ a = AddrTypeHost then [3, of_nat (length (a_data a))] @ a_data a
      else if length (a_data a) = 4 then 1 # a_data a
      else 4 # a_data a)"

definition wf_dest :: "addr \<Rightarrow> bool" where
  "wf_dest a \<longleftrightarrow>
     (if a_typ a = AddrTypeHost then length (a_data a) < 256
      else a_typ a = AddrTypeIP \<and> (length (a_data a) = 4 \<or> length (a_data a) = 16))"

definition socks_connect :: "byte \<Rightarrow> byte list \<Rightarrow> byte \<Rightarrow> byte \<Rightarrow> addr_port \<Rightarrow> byte list" where
  "socks_connect v methods v' rsv ap =
     [v, of_nat (length methods)] @ methods @ [v', 1, rsv] @ socks_dest (ap_addr ap) @ put_uint16 (ap_port ap)"

text \<open>
  C4: The handshake does what SOCKS5 asks for, whatever the chunks in which the client's bytes come: the
  answers it sends and its result are those of the specification of the messages as plain byte lists.
  Nothing that is read into the shared buffer later changes the address.
\<close>

theorem socks5_handshake_refines:
  assumes "wr_script w = []"
  shows "case socks5_handshake s w of (r, s', w') \<Rightarrow>
    case socks_verdict (pending s) of (v, out) \<Rightarrow>
      outcome_of v r (pending s') \<and> w' = sends out w"
  using assms by (rule socks5_handshake_verdict)

theorem socks5_handshake_refines_witness:
  "case socks5_handshake [Chunk [5], Chunk [1, 0, 5, 1], Chunk [0, 3, 2, 120, 121, 1], Chunk [187, 9]] fresh_sink of
     (r, s', w') \<Rightarrow>
       r = Ok (addr_port_from (addr_from_host ''xy'') 443) \<and> pending s' = [9]
       \<and> w' = sends [[5, 0], socks_reply 0] fresh_sink"
proof -
  let ?s = "[Chunk [5], Chunk [1, 0, 5, 1], Chunk [0, 3, 2, 120, 121, 1], Chunk [187, 9]]"
  have "socks_verdict (pending ?s) =
      (Connect (addr_port_from (addr_from_host ''xy'') 443) [9], [[5, 0], socks_reply 0])"
    by code_simp
  then show ?thesis
    using socks5_handshake_refines [of fresh_sink ?s] by (simp add: fresh_sink_def split: prod.splits)
qed

lemma byte_length [simp]: "n < 256 \<Longrightarrow> unat (of_nat n :: byte) = n"
  by (simp add: unat_of_nat take_bit_eq_mod)

lemma addr_types_differ [simp]: "AddrTypeIP \<noteq> AddrTypeHost" "AddrTypeHost \<noteq> AddrTypeIP"
  by (simp_all add: AddrTypeIP_def AddrTypeHost_def)

lemma addr_field_dest:
  assumes "wf_dest a"
  shows "case socks_dest a @ rest of [] \<Rightarrow> False | t # bs \<Rightarrow> addr_field t bs = Field a rest"
  using assms
  by (cases a)
    (auto simp: socks_dest_def wf_dest_def addr_field_def take_addr_def addr_from_bytes_def split: if_splits)

lemma addr_field_Field:
  assumes "addr_field t bs = Field a rest"
  shows "wf_dest a \<and> t # bs = socks_dest a @ rest"
proof -
  have n: "of_nat (unat n) = (n :: byte)" "unat n < 256" for n :: byte
    using unsigned_less [of n, where ?'a = nat] by simp_all
  have four: "n = 4" if "unat n = 4" for n :: byte
    using that n(1) [of n] by simp
  show ?thesis
    using assms
    by (auto simp: addr_field_def take_addr_def wf_dest_def socks_dest_def addr_from_bytes_def n
        min_absorb2 not_less four split: if_splits list.splits)
qed

lemma socks5_handshake_connects:
  assumes "length methods < 256" and "wf_dest (ap_addr ap)"
    and "pending s = socks_connect v methods v' rsv ap @ rest" and "wr_script w = []"
  shows "\<exists>s'. socks5_handshake s w = (Ok ap, s', sends [[5, 0], socks_reply 0] w) \<and> pending s' = rest"
proof -
  obtain t bs where d: "socks_dest (ap_addr ap) @ put_uint16 (ap_port ap) @ rest = t # bs"
    and f: "addr_field t bs = Field (ap_addr ap) (put_uint16 (ap_port ap) @ rest)"
    using addr_field_dest [OF assms(2), of "put_uint16 (ap_port ap) @ rest"]
    by (auto split: list.splits)
  obtain p q where pq: "put_uint16 (ap_port ap) = [p, q]" by (simp add: put_uint16_def)
  have ap: "addr_port_from (ap_addr ap) (get_uint16 [p, q]) = ap"
    using pq get_put_uint16 [of "ap_port ap"] by (cases ap) (simp add: addr_port_from_def)
  have "request_verdict ([v', 1, rsv] @ t # bs) = (Connect ap rest, [socks_reply 0])"
    using f pq ap by (simp add: request_verdict_def)
  then have "socks_verdict (pending s) = (Connect ap rest, [[5, 0], socks_reply 0])"
    using assms(1,3) d by (simp add: socks_verdict_def socks_connect_def)
  then show ?thesis
    using socks5_handshake_verdict [OF assms(4), of s] by (cases "socks5_handshake s w") simp
qed

lemma handshake_only_connect:
  assumes w: "wr_script w = []" and h: "socks5_handshake s w = (Ok ap, s', w')"
  shows "\<exists>v methods v' rsv. length methods < 256 \<and> wf_dest (ap_addr ap) \<and>
    pending s = socks_connect v methods v' rsv ap @ pending s'"
proof -
  obtain out where "socks_verdict (pending s) = (Connect ap (pending s'), out)"
    using socks5_handshake_verdict [OF w, of s] h
    by (cases "socks_verdict (pending s)"; cases "fst (socks_verdict (pending s))") auto
  then obtain v n bs out' where bs: "pending s = v # n # bs" "unat n \<le> length bs"
    and rv: "request_verdict (drop (unat n) bs) = (Connect ap (pending s'), out')"
    by (auto simp: socks_verdict_def not_less split: list.splits if_splits prod.splits)
  from rv obtain v' rsv t bs1 a p q where "drop (unat n) bs = v' # 1 # rsv # t # bs1"
    and "addr_field t bs1 = Field a (p # q # pending s')" and "ap = addr_port_from a (get_uint16 [p, q])"
    by (auto simp: request_verdict_def split: list.splits socks_field.splits if_splits)
  then have wf: "wf_dest (ap_addr ap)" and
    d: "drop (unat n) bs = [v', 1, rsv] @ socks_dest (ap_addr ap) @ put_uint16 (ap_port ap) @ pending s'"
    using addr_field_Field [of t bs1 a "p # q # pending s'"]
    by (auto simp: addr_port_from_def put_get_uint16_pair)
  let ?m = "take (unat n) bs"
  have m: "length ?m = unat n" "unat n < 256" "of_nat (length ?m) = n"
    using bs(2) unsigned_less [of n, where ?'a = nat] by simp_all
  have "pending s = [v, n] @ ?m @ drop (unat n) bs" using bs(1) by simp
  then have "pending s = socks_connect v ?m v' rsv ap @ pending s'"
    using m(3) by (simp only: d socks_connect_def append_assoc)
  with wf m(1,2) show ?thesis by metis
qed

text \<open>
  The handshake succeeds on nothing else: what it took from the client's stream is a greeting and a
  connect request for just the address and port it returns, and it ends on every script of the
  connection without an index out of range, in the buffer of 256 bytes.
\<close>

lemma socks5_only_connect:
  "fst (socks5_handshake s w) \<noteq> Panic \<and>
   (if wr_script w = [] then
      (case socks5_handshake s w of
         (Ok ap, s', _) \<Rightarrow> \<exists>v methods v' rsv. length methods < 256 \<and> wf_dest (ap_addr ap) \<and>
           pending s = socks_connect v methods v' rsv ap @ pending s'
       | _ \<Rightarrow> True)
    else True)"
proof -
  have "safe (sbind greeting_steps (\<lambda>_. request_steps)) (\<lambda>_. True)"
    by (intro safe_sbind [OF safe_greeting] safe_request)
  then have no_panic: "fst (socks5_handshake s w) \<noteq> Panic"
    by (auto simp: socks5_handshake_def safe_def maxAddrLen_def simp del: sbind.simps split: prod.splits
        dest!: spec [of _ "\<lparr>c_in = s, c_out = w, br_buf = replicate 256 0\<rparr>"])
  have "\<exists>v methods v' rsv. length methods < 256 \<and> wf_dest (ap_addr ap) \<and>
      pending s = socks_connect v methods v' rsv ap @ pending s'"
    if "wr_script w = []" "socks5_handshake s w = (Ok ap, s', w')" for ap s' w'
    using handshake_only_connect [OF that] .
  with no_panic show ?thesis by (auto split: prod.splits outcome.splits)
qed

end
