(* ===== verification/Socks5_Server.thy ===== *)
theory Socks5_Server
  imports Socks5 Client
begin

text \<open>
  The SOCKS5 server of the proxy command, \<open>runSOCKS5Server\<close> and \<open>handleSOCKS5Conn\<close> in
  \<open>cmd/client/command_proxy.go\<close>: the accept loop as a function of what it finds, and one connection, from
  its handshake to the hand-over to \<open>handleTCPConn\<close>.
\<close>

section \<open>One connection\<close>

text \<open>
  What becomes of a connection: closed for an error of its handshake, or handed over with the address,
  as the handshake left it; a panic would end the program.
\<close>

datatype socks_handled =
    SocksPanic
  | SocksClosed socks_error sink
  | SocksHandedOver addr_port stream sink

definition handle_socks5_conn :: "stream \<Rightarrow> sink \<Rightarrow> socks_handled" where
  "handle_socks5_conn s w =
     (case socks5_handshake s w of
        (Panic, _, _) \<Rightarrow> SocksPanic
      | (Error err, s', w') \<Rightarrow> SocksClosed err w'
      | (Ok ap, s', w') \<Rightarrow> SocksHandedOver ap s' w')"

section \<open>The accept loop\<close>

text \<open>What a round of the loop finds: the stream connection closed, an error of \<open>Accept\<close>, or a connection.\<close>

datatype 'c socks_event =
    SocksStreamClosed
  | SocksAcceptFails
  | SocksClient 'c

text \<open>
  The connections that are handled, each in a goroutine of its own, and whether the loop has returned;
  where the script ends it still waits.
\<close>

fun run_socks5_server :: "'c socks_event list \<Rightarrow> 'c list \<times> bool" where
  "run_socks5_server [] = ([], False)"
| "run_socks5_server (SocksStreamClosed # evs) = ([], True)"
| "run_socks5_server (SocksAcceptFails # evs) = ([], True)"
| "run_socks5_server (SocksClient c # evs) =
     (case run_socks5_server evs of (cs, returned) \<Rightarrow> (c # cs, returned))"

lemma run_socks5_server_clients:
  "run_socks5_server (map SocksClient cs @ evs) =
     (case run_socks5_server evs of (cs', returned) \<Rightarrow> (cs @ cs', returned))"
  by (induction cs) (auto split: prod.splits)

lemma run_socks5_server_until:
  "ev = SocksStreamClosed \<or> ev = SocksAcceptFails \<Longrightarrow>
     run_socks5_server (map SocksClient cs @ ev # evs) = (cs, True)"
  by (auto simp: run_socks5_server_clients)

section \<open>Properties\<close>

text \<open>
  The server serves its clients one by one: every client that is accepted before the stream connection
  is lost and speaks SOCKS5 is answered and handed over with just the destination it asked for, and what
  it sent after its request is still to be read, whatever the other clients send, and in whatever
  chunks; the loop ends then, and no client after it is served.
\<close>

lemma socks5_server_serves:
  assumes "\<forall>(s, w, ap, methods, rest) \<in> set cs.
      pending s = socks_connect 5 methods 5 0 ap @ rest \<and> length methods < 256 \<and> wf_dest (ap_addr ap) \<and>
      wr_script w = []"
  shows "case run_socks5_server (map SocksClient cs @ SocksStreamClosed # evs) of
    (served, returned) \<Rightarrow>
      returned \<and>
      list_all (\<lambda>(s, w, ap, methods, rest). \<exists>s'.
          handle_socks5_conn s w = SocksHandedOver ap s' (sends [[5, 0], socks_reply 0] w) \<and> pending s' = rest) served \<and>
      served = cs"
proof -
  have "\<exists>s'. handle_socks5_conn s w = SocksHandedOver ap s' (sends [[5, 0], socks_reply 0] w) \<and> pending s' = rest"
    if "(s, w, ap, methods, rest) \<in> set cs" for s w ap methods rest
    using assms that socks5_handshake_connects [of methods ap s 5 5 0 rest w]
    by (fastforce simp: handle_socks5_conn_def)
  then show ?thesis by (auto simp: run_socks5_server_until list_all_iff)
qed

text \<open>The handshake answers that it is connected before anything was dialled.\<close>

lemma handed_over_answered:
  assumes "wr_script w = []" and "handle_socks5_conn s w = SocksHandedOver ap s' w'"
  shows "w' = sends [[5, 0], socks_reply 0] w \<and>
    (\<exists>v methods v' rsv. length methods < 256 \<and> wf_dest (ap_addr ap) \<and>
       pending s = socks_connect v methods v' rsv ap @ pending s')"
proof -
  have h: "socks5_handshake s w = (Ok ap, s', w')"
    using assms(2) by (auto simp: handle_socks5_conn_def split: prod.splits outcome.splits)
  have "\<exists>v methods v' rsv. length methods < 256 \<and> wf_dest (ap_addr ap) \<and>
      pending s = socks_connect v methods v' rsv ap @ pending s'"
    using handshake_only_connect [OF assms(1) h] .
  then obtain v methods v' rsv where c: "length methods < 256" "wf_dest (ap_addr ap)"
    "pending s = socks_connect v methods v' rsv ap @ pending s'" by blast
  with socks5_handshake_connects [OF c assms(1)] h show ?thesis by auto
qed

end
