(* ===== verification/Targets.thy ===== *)
theory Targets
  imports Go_Strings Net_IP
begin

text \<open>
  The targets of the client, \<open>cmd/client/utils.go\<close>: \<open>validateFields\<close> checks a resource with its
  ports, \<open>parseTargetsFile\<close> reads one target per line. The flag parser of a line comes from the
  \<open>pflag\<close> package and is a parameter: from the fields of the line and the values the two flags
  \<open>--namespace\<close> and \<open>--address\<close> have, it makes an error or the remaining arguments, and new values.
\<close>

datatype fields_error =
    InvalidSyntax
  | UnknownResource string
  | InvalidIPAddress string

text \<open>\<open>resourceParts[1]\<close> is out of range when the resource is just \<open>ip\<close>.\<close>

definition validate_fields :: "string list \<Rightarrow> (fields_error, unit) outcome" where
  "validate_fields flds =
     (if length flds < 2 then Error InvalidSyntax
      else
        let resourceParts = split_on (CHR ''/'') (flds ! 0) in
          if 2 < length resourceParts then Error (UnknownResource (flds ! 0))
          else if resourceParts ! 0 = ''ip'' then
            if length resourceParts \<le> 1 then Panic
            else if parse_ip (resourceParts ! 1) = None then Error (InvalidIPAddress (resourceParts ! 1))
            else Ok ()
          else Ok ())"

record target =
  t_resource :: string
  t_ports :: "string list"
  t_namespace :: string
  t_lisAddr :: string

datatype targets_error =
    FlagError nat string
  | FieldsError nat fields_error

type_synonym flag_values = "string \<times> string"
type_synonym flag_parser = "string list \<Rightarrow> flag_values \<Rightarrow> string option \<times> string list \<times> flag_values"

definition defaultListenAddr :: string where
  "defaultListenAddr = ''127.0.0.1''"

text \<open>
  The loop over the scanner's lines, with the variables of the function: the values of the two flags,
  the line number and the targets so far.
\<close>

fun targets_loop ::
  "flag_parser \<Rightarrow> string \<Rightarrow> flag_values \<Rightarrow> nat \<Rightarrow> target list \<Rightarrow> string list
   \<Rightarrow> (targets_error, target list) outcome"
where
  "targets_loop parse defaultNamespace vals lineNo ret [] = Ok ret"
| "targets_loop parse defaultNamespace vals lineNo ret (text # texts) =
     (let lineNo = lineNo + 1; line = trim_space text in
        if line = [] \<or> has_prefix line ''//'' \<or> has_prefix line ''#'' then
          targets_loop parse defaultNamespace vals lineNo ret texts
        else
          let vals = (defaultNamespace, defaultListenAddr) in
            (case parse (strings_fields line) vals of
               (Some err, _, _) \<Rightarrow> Error (FlagError lineNo err)
             | (None, remain, vals) \<Rightarrow>
                 (case validate_fields remain of
                    Panic \<Rightarrow> Panic
                  | Error err \<Rightarrow> Error (FieldsError lineNo err)
                  | Ok _ \<Rightarrow>
                      targets_loop parse defaultNamespace vals lineNo
                        (ret @ [\<lparr>t_resource = remain ! 0, t_ports = drop 1 remain,
                                 t_namespace = fst vals, t_lisAddr = snd vals\<rparr>])
                        texts)))"

definition parse_targets_file ::
  "flag_parser \<Rightarrow> string \<Rightarrow> string \<Rightarrow> (targets_error, target list) outcome"
where
  "parse_targets_file parse file defaultNamespace =
     targets_loop parse defaultNamespace (defaultNamespace, defaultListenAddr) 0 [] (scan_lines file)"

section \<open>The file as a list of independent lines\<close>

definition ignored_line :: "string \<Rightarrow> bool" where
  "ignored_line l \<longleftrightarrow> (let t = trim_space l in t = [] \<or> has_prefix t ''//'' \<or> has_prefix t ''#'')"

text \<open>What one line means on its own, with the two defaults.\<close>

definition line_target ::
  "flag_parser \<Rightarrow> string \<Rightarrow> nat \<times> string \<Rightarrow> (targets_error, target) outcome"
where
  "line_target parse ns nl =
     (case parse (strings_fields (trim_space (snd nl))) (ns, defaultListenAddr) of
        (Some err, _, _) \<Rightarrow> Error (FlagError (fst nl) err)
      | (None, remain, ns', la) \<Rightarrow>
          (case validate_fields remain of
             Panic \<Rightarrow> Panic
           | Error err \<Rightarrow> Error (FieldsError (fst nl) err)
           | Ok _ \<Rightarrow> Ok \<lparr>t_resource = remain ! 0, t_ports = drop 1 remain, t_namespace = ns', t_lisAddr = la\<rparr>))"

definition target_lines :: "nat \<Rightarrow> string list \<Rightarrow> (nat \<times> string) list" where
  "target_lines n ls = filter (\<lambda>(_, l). \<not> ignored_line l) (enumerate n ls)"

lemma targets_loop_lines:
  "targets_loop parse ns vals n ret ls =
     obind (otraverse (line_target parse ns) (target_lines (Suc n) ls)) (\<lambda>ts. Ok (ret @ ts))"
proof (induction ls arbitrary: vals n ret)
  case Nil
  show ?case by (simp add: target_lines_def)
next
  case (Cons l ls)
  show ?case
  proof (cases "ignored_line l")
    case True
    then have "targets_loop parse ns vals n ret (l # ls) = targets_loop parse ns vals (Suc n) ret ls"
      by (simp add: ignored_line_def Let_def)
    with True Cons show ?thesis by (simp add: target_lines_def)
  next
    case False
    obtain e remain ns' la where p: "parse (strings_fields (trim_space l)) (ns, defaultListenAddr) = (e, remain, ns', la)"
      by (metis prod_cases4)
    let ?lt = "line_target parse ns (Suc n, l)"
    have step: "targets_loop parse ns vals n ret (l # ls) =
        obind ?lt (\<lambda>t. targets_loop parse ns (ns', la) (Suc n) (ret @ [t]) ls)"
      using False p
      by (cases e; cases "validate_fields remain")
        (simp_all add: ignored_line_def line_target_def Let_def)
    show ?thesis
      unfolding step using False Cons.IH
      by (simp add: target_lines_def obind_assoc)
  qed
qed

section \<open>Files written line by line\<close>

definition unlines :: "string list \<Rightarrow> string" where
  "unlines ls = concat (map (\<lambda>l. l @ [CHR 0x0A]) ls)"

definition text_line :: "string \<Rightarrow> bool" where
  "text_line l \<longleftrightarrow> CHR 0x0A \<notin> set l \<and> length l < max_token \<and> drop_cr l = l"

lemma split_on_unlines: "\<forall>l \<in> set ls. CHR 0x0A \<notin> set l \<Longrightarrow> split_on (CHR 0x0A) (unlines ls @ s) = ls @ split_on (CHR 0x0A) s"
  by (induction ls) (simp_all add: unlines_def)

lemma raw_lines_unlines:
  "\<forall>l \<in> set ls. CHR 0x0A \<notin> set l \<Longrightarrow> raw_lines (unlines ls @ s) = ls @ raw_lines s"
  by (simp add: raw_lines_def split_on_unlines butlast_append Let_def)

lemma scan_lines_unlines:
  "\<forall>l \<in> set ls. text_line l \<Longrightarrow> scan_lines (unlines ls @ s) = ls @ scan_lines s"
proof -
  assume a: "\<forall>l \<in> set ls. text_line l"
  then have "raw_lines (unlines ls @ s) = ls @ raw_lines s"
    by (intro raw_lines_unlines) (simp add: text_line_def)
  moreover have "map drop_cr ls = ls" using a by (simp add: text_line_def map_idI)
  ultimately show ?thesis using a by (simp add: scan_lines_def takeWhile_append2 text_line_def)
qed

lemma scan_lines_Nil [simp]: "scan_lines [] = []"
  by (simp add: scan_lines_def raw_lines_def)

lemma scan_lines_long:
  "CHR 0x0A \<notin> set l \<Longrightarrow> max_token \<le> length l \<Longrightarrow> scan_lines (l @ CHR 0x0A # s) = []"
proof -
  assume a: "CHR 0x0A \<notin> set l" "max_token \<le> length l"
  then have "raw_lines (l @ CHR 0x0A # s) = l # raw_lines s"
    using raw_lines_unlines [of "[l]" s] by (simp add: unlines_def)
  with a(2) show ?thesis by (simp add: scan_lines_def)
qed

lemma rspace_len_plain:
  "(of_char c :: nat) < 128 \<Longrightarrow> \<not> ascii_space c \<Longrightarrow> rspace_len (c # s) = 0"
  by (induction "c # s" rule: rspace_len.induct) (auto simp: space2_def space3_def Let_def)

lemma join_words_Cons:
  "join_words (w # ws) = w @ (if ws = [] then [] else '' '' @ join_words ws)"
  by (cases ws) simp_all

lemma join_words_ends:
  assumes "\<forall>w \<in> set ws. plain_word w" and "ws \<noteq> []"
  shows "join_words ws \<noteq> []" and "plain_word [hd (join_words ws)]" and "plain_word [last (join_words ws)]"
proof -
  have "join_words ws \<noteq> [] \<and> plain_word [hd (join_words ws)] \<and> plain_word [last (join_words ws)]"
    using assms
  proof (induction ws)
    case (Cons w ws)
    then have w: "w \<noteq> []" "\<forall>c \<in> set w. plain_word [c]" by (simp_all add: plain_word_def)
    with Cons show ?case by (cases "ws = []") (auto simp: join_words_Cons)
  qed simp
  then show "join_words ws \<noteq> []" and "plain_word [hd (join_words ws)]" and "plain_word [last (join_words ws)]"
    by simp_all
qed

lemma trim_space_join_words:
  assumes "\<forall>w \<in> set ws. plain_word w"
  shows "trim_space (join_words ws) = join_words ws"
proof (cases "ws = []")
  case True
  then show ?thesis by (simp add: trim_space_def trim_left_id trim_rev_id)
next
  case False
  note e = join_words_ends [OF assms False]
  have "space_len (join_words ws) = 0"
    using e(1,2) space_len_plain [of "hd (join_words ws)" "tl (join_words ws)"] by (simp add: plain_word_def)
  moreover have "rspace_len (rev (join_words ws)) = 0"
    using e(1,3) rspace_len_plain [of "last (join_words ws)" "rev (butlast (join_words ws))"]
    by (simp add: plain_word_def rev_eq_Cons_iff) (metis append_butlast_last_id rev.simps(2) rev_rev_ident)
  ultimately show ?thesis by (simp add: trim_space_def trim_left_id trim_rev_id)
qed

text \<open>A target as a line: both flags, the resource, the ports.\<close>

definition target_words :: "target \<Rightarrow> string list" where
  "target_words t = [''-n'', t_namespace t, ''-l'', t_lisAddr t, t_resource t] @ t_ports t"

definition target_line :: "target \<Rightarrow> string" where
  "target_line t = join_words (target_words t)"

definition writable_target :: "target \<Rightarrow> bool" where
  "writable_target t \<longleftrightarrow>
     (\<forall>w \<in> set (target_words t). plain_word w) \<and> length (target_line t) < max_token \<and>
     (\<forall>w \<in> set (t_resource t # t_ports t). w \<noteq> [] \<and> hd w \<noteq> CHR ''-'') \<and>
     validate_fields (t_resource t # t_ports t) = Ok ()"

lemma target_line_text:
  assumes "writable_target t"
  shows "text_line (target_line t)" and "\<not> ignored_line (target_line t)"
proof -
  have w: "\<forall>w \<in> set (target_words t). plain_word w" using assms by (simp add: writable_target_def)
  have ne: "target_words t \<noteq> []" by (simp add: target_words_def)
  have nl: "CHR 0x0A \<notin> set (join_words ws)" if "\<forall>w \<in> set ws. plain_word w" for ws
    using that
  proof (induction ws)
    case (Cons v ws)
    have "\<not> plain_word v" if "CHR 0x0A \<in> set v"
      using that by (force simp: plain_word_def ascii_space_def)
    with Cons show ?case by (auto simp: join_words_Cons)
  qed simp
  have "drop_cr (target_line t) = target_line t"
    using join_words_ends(3) [OF w ne]
    by (auto simp: drop_cr_def target_line_def plain_word_def ascii_space_def)
  with nl [OF w] assms show "text_line (target_line t)"
    by (simp add: text_line_def writable_target_def target_line_def)
  have "trim_space (target_line t) = target_line t"
    using trim_space_join_words [OF w] by (simp add: target_line_def)
  then show "\<not> ignored_line (target_line t)"
    by (simp add: ignored_line_def has_prefix_append target_line_def target_words_def Let_def)
qed

section \<open>Properties\<close>

text \<open>
  The lines of a targets file do not influence each other: \<open>parseTargetsFile\<close> gives exactly the
  targets each line that is not empty or a comment has on its own, with the default namespace and the
  default address, in the order of the file, or the first error, with its line number.
\<close>

lemma parse_targets_file_lines:
  "parse_targets_file parse file ns =
     otraverse (line_target parse ns) (target_lines 1 (scan_lines file))"
proof -
  have "obind m (\<lambda>ts. Ok ts) = m" for m :: "(targets_error, target list) outcome"
    by (cases m) simp_all
  then show ?thesis by (simp add: parse_targets_file_def targets_loop_lines)
qed

text \<open>
  C32: Targets written out, one per line and with both flags, are read back as they were, whatever empty
  lines and comments stand between them and whatever the default namespace is. The hypothesis on the
  flag parser is its documented behaviour on two flags followed by arguments without a dash.
\<close>

theorem targets_file_roundtrip:
  assumes flag_parser: "\<And>ns la args vals. \<forall>w \<in> set args. w \<noteq> [] \<and> hd w \<noteq> CHR ''-'' \<Longrightarrow>
      parse ([''-n'', ns, ''-l'', la] @ args) vals = (None, args, (ns, la))"
    and "\<forall>(cs, t) \<in> set items. (\<forall>c \<in> set cs. text_line c \<and> ignored_line c) \<and> writable_target t"
  shows "parse_targets_file parse (unlines (concat (map (\<lambda>(cs, t). cs @ [target_line t]) items))) ns
     = Ok (map snd items)"
proof -
  let ?ls = "concat (map (\<lambda>(cs, t). cs @ [target_line t]) items)"
  have scan: "scan_lines (unlines ?ls) = ?ls"
    using scan_lines_unlines [of ?ls "[]"] assms(2) target_line_text(1) by fastforce
  have one: "line_target parse ns (n, target_line t) = Ok t" if w: "writable_target t" for n t
  proof -
    have plain: "\<forall>w \<in> set (target_words t). plain_word w" using w by (simp add: writable_target_def)
    then have "strings_fields (trim_space (target_line t)) = target_words t"
      by (simp add: target_line_def trim_space_join_words fields_join_words)
    then show ?thesis
      using w flag_parser [of "t_resource t # t_ports t" "t_namespace t" "t_lisAddr t"]
      by (simp add: line_target_def target_words_def writable_target_def)
  qed
  have "otraverse (line_target parse ns) (target_lines n ?ls) = Ok (map snd items)" for n
    using assms(2)
  proof (induction items arbitrary: n)
    case Nil
    show ?case by (simp add: target_lines_def)
  next
    case (Cons it items)
    obtain cs t where it: "it = (cs, t)" by (cases it)
    have skip: "target_lines m (cs @ ls) = target_lines (m + length cs) ls" for m ls
      using Cons.prems it
      by (auto simp: target_lines_def enumerate_append_eq filter_empty_conv in_set_enumerate_eq)
    have "\<not> ignored_line (target_line t)" and "writable_target t"
      using Cons.prems it target_line_text(2) by auto
    then show ?case
      using Cons it one by (simp add: skip) (simp add: target_lines_def)
  qed
  with scan show ?thesis by (simp add: parse_targets_file_lines)
qed

fun two_flags :: flag_parser where
  "two_flags (f # ns # g # la # args) vals =
     (if f = ''-n'' \<and> g = ''-l'' then (None, args, (ns, la)) else (Some ''unknown flag'', [], vals))"
| "two_flags args vals = (None, args, vals)"

theorem targets_file_roundtrip_witness:
  "parse_targets_file two_flags
     (unlines [''# database'', [], ''-n prod -l 0.0.0.0 svc/db 5432 :53@udp'', ''-n dev -l ::1 ip/10.0.0.1 80''])
     ''default''
   = Ok [\<lparr>t_resource = ''svc/db'', t_ports = [''5432'', '':53@udp''], t_namespace = ''prod'', t_lisAddr = ''0.0.0.0''\<rparr>,
         \<lparr>t_resource = ''ip/10.0.0.1'', t_ports = [''80''], t_namespace = ''dev'', t_lisAddr = ''::1''\<rparr>]"
proof -
  let ?a = "\<lparr>t_resource = ''svc/db'', t_ports = [''5432'', '':53@udp''], t_namespace = ''prod'', t_lisAddr = ''0.0.0.0''\<rparr>"
  let ?b = "\<lparr>t_resource = ''ip/10.0.0.1'', t_ports = [''80''], t_namespace = ''dev'', t_lisAddr = ''::1''\<rparr>"
  have len: "length (target_line ?a) < max_token" "length (target_line ?b) < max_token"
    by (simp_all add: target_line_def target_words_def max_token_def)
  have plain: "\<forall>w \<in> set (target_words ?a). plain_word w" "\<forall>w \<in> set (target_words ?b). plain_word w"
    by code_simp+
  have valid: "validate_fields (t_resource ?a # t_ports ?a) = Ok ()" "validate_fields (t_resource ?b # t_ports ?b) = Ok ()"
    by code_simp+
  from len(1) plain(1) valid(1) have a: "writable_target ?a" by (simp add: writable_target_def)
  from len(2) plain(2) valid(2) have b: "writable_target ?b" by (simp add: writable_target_def)
  have c: "text_line ''# database'' \<and> ignored_line ''# database'' \<and> text_line [] \<and> ignored_line []"
  proof -
    have "ignored_line ''# database''" "ignored_line []" by code_simp+
    then show ?thesis by (simp add: text_line_def max_token_def drop_cr_def)
  qed
  show ?thesis
    using targets_file_roundtrip [of two_flags "[([''# database'', []], ?a), ([], ?b)]" "''default''"] a b c
    by (simp add: target_line_def target_words_def)
qed

text \<open>
  The checks of one target: at least one port; at most one slash in the resource; an IP address
  after \<open>ip/\<close>. A resource \<open>ip\<close> without a slash makes the program panic.
\<close>

lemma validate_fields_cases:
  "(validate_fields flds = Ok () \<longleftrightarrow>
      2 \<le> length flds \<and>
      (case split_on (CHR ''/'') (flds ! 0) of
         [kind] \<Rightarrow> kind \<noteq> ''ip''
       | [kind, name] \<Rightarrow> (if kind = ''ip'' then parse_ip name \<noteq> None else True)
       | _ \<Rightarrow> False))
   \<and> (validate_fields flds = Panic \<longleftrightarrow> 2 \<le> length flds \<and> flds ! 0 = ''ip'')"
proof -
  have one: "(split_on (CHR ''/'') r = [''ip'']) = (r = ''ip'')" for r
    by (auto dest: split_on_single)
  show ?thesis
    using one [of "flds ! 0"]
    by (auto simp: validate_fields_def Let_def split: if_splits list.splits)
qed

text \<open>
  The error of the scanner is not asked for: a line of 64 KiB or more ends the file, and the
  targets after it are dropped without an error.
\<close>

lemma targets_after_long_line:
  assumes "\<forall>l \<in> set ls. text_line l" and "CHR 0x0A \<notin> set long" and "max_token \<le> length long"
  shows "parse_targets_file parse (unlines ls @ long @ [CHR 0x0A] @ behind) ns
     = parse_targets_file parse (unlines ls) ns"
proof -
  have "scan_lines (unlines ls @ long @ [CHR 0x0A] @ behind) = ls @ []"
    using scan_lines_unlines [OF assms(1), of "long @ [CHR 0x0A] @ behind"] scan_lines_long [OF assms(2,3)]
    by simp
  moreover have "scan_lines (unlines ls) = ls"
    using scan_lines_unlines [OF assms(1), of "[]"] by simp
  ultimately show ?thesis by (simp add: parse_targets_file_def)
qed

end
