(* ===== verification/Kube.thy ===== *)
theory Kube
  imports Go_Strings K8s_Objects
begin

text \<open>
  The server job, \<open>pkg/kube\<close>: building it (\<open>buildServerJob\<close>, \<open>patchPod\<close>), waiting for its pod
  (\<open>waitForServerJobPod\<close>), opening the stream to it (\<open>createDialer\<close>, \<open>RunServerJob\<close>) and removing it
  (\<open>removeServerJob\<close>, \<open>ServerJob.Close\<close>). The API server, the JSON and YAML libraries, the file system
  and the stream dialers are parameters; every request that changes the cluster is an action of a trace.
\<close>

section \<open>Building the job\<close>

definition ServerName :: string where "ServerName = ''krelay-server''"
definition ttlSecondsAfterFinished :: "32 word" where "ttlSecondsAfterFinished = 10"
definition jobBackoffLimit :: "32 word" where "jobBackoffLimit = 0"

record server_container =
  sc_Name :: string
  sc_Image :: string
  sc_ImagePullPolicy :: string
  sc_ReadOnlyRootFilesystem :: bool
  sc_AllowPrivilegeEscalation :: bool

record topology_spread =
  ts_MaxSkew :: "32 word"
  ts_TopologyKey :: string
  ts_WhenUnsatisfiable :: string
  ts_MatchLabels :: "(string \<times> string) list"

record server_pod_spec =
  sps_RestartPolicy :: string
  sps_AutomountServiceAccountToken :: bool
  sps_EnableServiceLinks :: bool
  sps_RunAsNonRoot :: bool
  sps_Containers :: "server_container list"
  sps_TopologySpreadConstraints :: "topology_spread list"

record server_pod =
  svp_Namespace :: string
  svp_Labels :: "(string \<times> string) list"
  svp_Annotations :: "(string \<times> string) list"
  svp_Spec :: server_pod_spec

record job =
  job_Namespace :: string
  job_GenerateName :: string
  job_Labels :: "(string \<times> string) list"
  job_BackoffLimit :: "32 word"
  job_TTLSecondsAfterFinished :: "32 word"
  tmpl_Labels :: "(string \<times> string) list"
  tmpl_Annotations :: "(string \<times> string) list"
  tmpl_Spec :: server_pod_spec

record kube_flags =
  kf_serverImage :: string
  kf_patch :: string
  kf_patchFile :: string

definition podLabels :: "(string \<times> string) list" where
  "podLabels = [(''app.kubernetes.io/name'', ServerName), (''app'', ServerName)]"

definition orig_pod :: "kube_flags \<Rightarrow> server_pod" where
  "orig_pod f =
     \<lparr>svp_Namespace = ''default'',
      svp_Labels = podLabels,
      svp_Annotations = [(''cluster-autoscaler.kubernetes.io/safe-to-evict'', ''true'')],
      svp_Spec =
        \<lparr>sps_RestartPolicy = ''Never'',
         sps_AutomountServiceAccountToken = False,
         sps_EnableServiceLinks = False,
         sps_RunAsNonRoot = True,
         sps_Containers =
           [\<lparr>sc_Name = ServerName, sc_Image = kf_serverImage f, sc_ImagePullPolicy = ''Always'',
             sc_ReadOnlyRootFilesystem = True, sc_AllowPrivilegeEscalation = False\<rparr>],
         sps_TopologySpreadConstraints =
           [\<lparr>ts_MaxSkew = 1, ts_TopologyKey = ''kubernetes.io/hostname'',
             ts_WhenUnsatisfiable = ''ScheduleAnyway'', ts_MatchLabels = [(''app'', ServerName)]\<rparr>]\<rparr>\<rparr>"

datatype patch_error =
    ConvertPatch string
  | MarshalPod string
  | ApplyPatch string
  | UnmarshalPod string

datatype build_error = ReadFile string | PatchServerPod patch_error

text \<open>The libraries \<open>patchPod\<close> calls, and reading a file.\<close>

record patch_libs =
  yaml_to_json :: "byte list \<Rightarrow> string + byte list"
  pod_to_json :: "server_pod \<Rightarrow> string + byte list"
  merge_patch :: "byte list \<Rightarrow> byte list \<Rightarrow> string + byte list"
  pod_from_json :: "byte list \<Rightarrow> string + server_pod"
  read_file :: "string \<Rightarrow> string + byte list"

definition patch_pod :: "patch_libs \<Rightarrow> byte list \<Rightarrow> server_pod \<Rightarrow> patch_error + server_pod" where
  "patch_pod libs patchBytes origPod =
     (case yaml_to_json libs patchBytes of
        Inl err \<Rightarrow> Inl (ConvertPatch err)
      | Inr patchJSONBytes \<Rightarrow>
          (case pod_to_json libs origPod of
             Inl err \<Rightarrow> Inl (MarshalPod err)
           | Inr origBytes \<Rightarrow>
               (case merge_patch libs origBytes patchJSONBytes of
                  Inl err \<Rightarrow> Inl (ApplyPatch err)
                | Inr after \<Rightarrow>
                    (case pod_from_json libs after of
                       Inl err \<Rightarrow> Inl (UnmarshalPod err)
                     | Inr patchedPod \<Rightarrow> Inr patchedPod))))"

definition job_of_pod :: "server_pod \<Rightarrow> job" where
  "job_of_pod p =
     \<lparr>job_Namespace = svp_Namespace p,
      job_GenerateName = ServerName @ ''-'',
      job_Labels = podLabels,
      job_BackoffLimit = jobBackoffLimit,
      job_TTLSecondsAfterFinished = ttlSecondsAfterFinished,
      tmpl_Labels = svp_Labels p,
      tmpl_Annotations = svp_Annotations p,
      tmpl_Spec = svp_Spec p\<rparr>"

definition build_server_job :: "patch_libs \<Rightarrow> kube_flags \<Rightarrow> build_error + job" where
  "build_server_job libs f =
     (if 0 < length (kf_patch f) \<or> 0 < length (kf_patchFile f) then
        (case (if 0 < length (kf_patch f) then Inr (bytes_of (kf_patch f)) else read_file libs (kf_patchFile f)) of
           Inl err \<Rightarrow> Inl (ReadFile err)
         | Inr patchBytes \<Rightarrow>
             (case patch_pod libs patchBytes (orig_pod f) of
                Inl err \<Rightarrow> Inl (PatchServerPod err)
              | Inr patched \<Rightarrow> Inr (job_of_pod patched)))
      else Inr (job_of_pod (orig_pod f)))"

section \<open>Waiting for the pod\<close>

datatype wait_error =
    WatchFailed string
  | PodDeleted
  | WatchEventError
  | WaitTimedOut

text \<open>
  The loop over the watch; where the events end, the watch was closed or the five minutes are over.
\<close>

fun wait_loop :: "(event_type \<times> event_object) list \<Rightarrow> (wait_error, string) outcome" where
  "wait_loop [] = Error WaitTimedOut"
| "wait_loop ((Deleted, obj) # evs) = Error PodDeleted"
| "wait_loop ((ErrorEvent, obj) # evs) = Error WatchEventError"
| "wait_loop ((Bookmark, obj) # evs) = wait_loop evs"
| "wait_loop ((typ, NoPod) # evs) = Panic"
| "wait_loop ((typ, PodObject pod) # evs) =
     (if True \<in> set (pod_ContainersRunning pod) then Ok (pod_Name pod) else wait_loop evs)"

definition wait_for_server_job_pod ::
  "string + (event_type \<times> event_object) list \<Rightarrow> (wait_error, string) outcome"
where
  "wait_for_server_job_pod watch =
     (case watch of Inl err \<Rightarrow> Error (WatchFailed err) | Inr evs \<Rightarrow> wait_loop evs)"

section \<open>The stream dialer\<close>

datatype stream_dialer =
    SPDY
  | WebsocketWithFallback

text \<open>
  \<open>createDialer\<close>: the environment variable \<open>KUBECTL_PORT_FORWARD_WEBSOCKETS\<close>, and the errors of the two
  libraries. The fallback is taken for the two kinds of errors only.
\<close>

definition create_dialer ::
  "string option \<Rightarrow> string \<Rightarrow> string option \<Rightarrow> string + stream_dialer"
where
  "create_dialer spdyErr env websocketErr =
     (case spdyErr of
        Some err \<Rightarrow> Inl err
      | None \<Rightarrow>
          if to_lower env \<noteq> ''false'' then
            (case websocketErr of
               Some err \<Rightarrow> Inl (''create tunneling dialer: '' @ err)
             | None \<Rightarrow> Inr WebsocketWithFallback)
          else Inr SPDY)"

definition should_fallback :: "bool \<Rightarrow> bool \<Rightarrow> bool" where
  "should_fallback isUpgradeFailure isHTTPSProxyError \<longleftrightarrow> isUpgradeFailure \<or> isHTTPSProxyError"

section \<open>The client configuration\<close>

record rest_config =
  rc_GroupVersion :: "(string \<times> string) option"
  rc_APIPath :: string
  rc_NegotiatedSerializer :: "string option"

definition set_kubernetes_defaults :: "rest_config \<Rightarrow> rest_config" where
  "set_kubernetes_defaults config =
     (let c1 = config\<lparr>rc_GroupVersion := Some ([], ''v1'')\<rparr>;
          c2 = (if rc_APIPath c1 = [] then c1\<lparr>rc_APIPath := ''/api''\<rparr> else c1)
      in if rc_NegotiatedSerializer c2 = None
         then c2\<lparr>rc_NegotiatedSerializer := Some ''WithoutConversion''\<rparr> else c2)"

text \<open>
  What \<open>Flags\<close> remembers between calls: the configuration it has made. The number says how often the flags
  of the library were asked for one, and is for the statements only. \<open>NewFlags\<close> starts without one.
\<close>

record flags_state =
  fs_restCfg :: "rest_config option"
  fs_loads :: nat

definition new_flags :: flags_state where
  "new_flags = \<lparr>fs_restCfg = None, fs_loads = 0\<rparr>"

text \<open>\<open>ToRESTConfig\<close>; \<open>load n\<close> is what the flags of the library answer when they are asked for the \<open>n\<close>-th time.\<close>

definition to_rest_config ::
  "(nat \<Rightarrow> string + rest_config) \<Rightarrow> flags_state \<Rightarrow> (string + rest_config) \<times> flags_state"
where
  "to_rest_config load f =
     (case fs_restCfg f of
        Some c \<Rightarrow> (Inr c, f)
      | None \<Rightarrow>
          (let f' = f\<lparr>fs_loads := Suc (fs_loads f)\<rparr> in
           case load (fs_loads f) of
             Inl err \<Rightarrow> (Inl err, f')
           | Inr c \<Rightarrow> (let c' = set_kubernetes_defaults c in (Inr c', f'\<lparr>fs_restCfg := Some c'\<rparr>))))"

text \<open>\<open>ToClientSet\<close>: a client set is known by the configuration it was made with.\<close>

definition to_client_set ::
  "(nat \<Rightarrow> string + rest_config) \<Rightarrow> (rest_config \<Rightarrow> string option) \<Rightarrow> flags_state
   \<Rightarrow> (string + rest_config) \<times> flags_state"
where
  "to_client_set load new_for_config f =
     (case to_rest_config load f of
        (Inl err, f') \<Rightarrow> (Inl err, f')
      | (Inr restCfg, f') \<Rightarrow>
          (case new_for_config restCfg of
             Some err \<Rightarrow> (Inl err, f')
           | None \<Rightarrow> (Inr restCfg, f')))"

text \<open>
  Once made, the configuration stays: every later call gives it again without asking the flags of the
  library, so all clients of a run talk to the same cluster.
\<close>

lemma rest_config_kept:
  assumes "to_client_set load new_for_config f = (Inr c, f')"
  shows "to_rest_config load' f' = (Inr c, f')" and "to_client_set load' new_for_config f' = (Inr c, f')"
    and "fs_loads f' \<le> Suc (fs_loads f)"
  using assms
  by (auto simp: to_client_set_def to_rest_config_def Let_def split: option.splits sum.splits)

section \<open>Running and removing the job\<close>

text \<open>The requests that change the cluster, and the closing of the stream.\<close>

datatype cluster_action =
    CreateJob job
  | DeleteJob string string
  | CloseStream

text \<open>
  What the environment of \<open>RunServerJob\<close> answers: the configuration, the client set, the creation of
  the job (with the namespace and the name it gets), the watch, the REST client, the dialer, the dial.
\<close>

record 'conn kube_env =
  ke_load :: "nat \<Rightarrow> string + rest_config"
  ke_newForConfig :: "rest_config \<Rightarrow> string option"
  ke_libs :: patch_libs
  ke_create :: "job \<Rightarrow> string + string \<times> string"
  ke_watch :: "string \<Rightarrow> string \<Rightarrow> string + (event_type \<times> event_object) list"
  ke_restClientErr :: "rest_config \<Rightarrow> string option"
  ke_spdyErr :: "rest_config \<Rightarrow> string option"
  ke_websocketEnv :: string
  ke_websocketErr :: "rest_config \<Rightarrow> string option"
  ke_dial :: "stream_dialer \<Rightarrow> string \<Rightarrow> string \<Rightarrow> string + 'conn"

datatype run_error =
    RestConfigError string
  | ClientSetError string
  | BuildError build_error
  | CreateError string
  | WaitError wait_error
  | RestClientError string
  | CreateDialerError string
  | DialError string

record 'conn server_job =
  sj_Namespace :: string
  sj_Name :: string
  sj_streamConn :: 'conn

text \<open>\<open>removeServerJob\<close>: one request; an error is logged and dropped.\<close>

definition remove_server_job :: "string \<Rightarrow> string \<Rightarrow> cluster_action list" where
  "remove_server_job ns name = [DeleteJob ns name]"

definition PortForwardProtocolV1Name :: string where
  "PortForwardProtocolV1Name = ''portforward.k8s.io''"

text \<open>
  \<open>RunServerJob\<close>, from what \<open>Flags\<close> remembers when it is called. The client set is the one the job is
  created, watched and deleted with.
\<close>

definition run_server_job ::
  "'conn kube_env \<Rightarrow> flags_state \<Rightarrow> kube_flags
   \<Rightarrow> (run_error, 'conn server_job) outcome \<times> cluster_action list"
where
  "run_server_job env st f =
     (case to_rest_config (ke_load env) st of
        (Inl err, _) \<Rightarrow> (Error (RestConfigError err), [])
      | (Inr restCfg, st') \<Rightarrow>
     (case to_client_set (ke_load env) (ke_newForConfig env) st' of
        (Inl err, _) \<Rightarrow> (Error (ClientSetError err), [])
      | (Inr cs, _) \<Rightarrow>
     (case build_server_job (ke_libs env) f of
        Inl err \<Rightarrow> (Error (BuildError err), [])
      | Inr svrJob \<Rightarrow>
     (case ke_create env svrJob of
        Inl err \<Rightarrow> (Error (CreateError err), [CreateJob svrJob])
      | Inr (ns, name) \<Rightarrow>
          let cleanup = remove_server_job ns name in
     (case wait_for_server_job_pod (ke_watch env ns name) of
        Panic \<Rightarrow> (Panic, [CreateJob svrJob])
      | Error err \<Rightarrow> (Error (WaitError err), CreateJob svrJob # cleanup)
      | Ok podName \<Rightarrow>
     (case ke_restClientErr env restCfg of
        Some err \<Rightarrow> (Error (RestClientError err), CreateJob svrJob # cleanup)
      | None \<Rightarrow>
     (case create_dialer (ke_spdyErr env restCfg) (ke_websocketEnv env) (ke_websocketErr env restCfg) of
        Inl err \<Rightarrow> (Error (CreateDialerError err), CreateJob svrJob # cleanup)
      | Inr dialer \<Rightarrow>
     (case ke_dial env dialer podName PortForwardProtocolV1Name of
        Inl err \<Rightarrow> (Error (DialError err), CreateJob svrJob # cleanup)
      | Inr streamConn \<Rightarrow>
          (Ok \<lparr>sj_Namespace = ns, sj_Name = name, sj_streamConn = streamConn\<rparr>, [CreateJob svrJob])))))))))"

text \<open>\<open>ServerJob.Close\<close>.\<close>

definition server_job_close :: "'conn server_job \<Rightarrow> cluster_action list" where
  "server_job_close p = CloseStream # remove_server_job (sj_Namespace p) (sj_Name p)"

section \<open>Lemmas about waiting\<close>

definition has_running :: "pod \<Rightarrow> bool" where
  "has_running p \<longleftrightarrow> True \<in> set (pod_ContainersRunning p)"

text \<open>An event the loop passes over, and one that ends it well.\<close>

fun passed_over :: "event_type \<times> event_object \<Rightarrow> bool" where
  "passed_over (k, obj) \<longleftrightarrow>
     k = Bookmark \<or>
     (k = Added \<or> k = Modified) \<and> (case obj of PodObject p \<Rightarrow> \<not> has_running p | NoPod \<Rightarrow> False)"

fun reports_running :: "event_type \<times> event_object \<Rightarrow> string \<Rightarrow> bool" where
  "reports_running (k, obj) name \<longleftrightarrow>
     (k = Added \<or> k = Modified) \<and>
     (case obj of PodObject p \<Rightarrow> has_running p \<and> pod_Name p = name | NoPod \<Rightarrow> False)"

lemma wait_loop_passes: "list_all passed_over pre \<Longrightarrow> wait_loop (pre @ evs) = wait_loop evs"
proof (induction pre)
  case (Cons ev pre)
  then show ?case
    by (cases "(ev # pre @ evs)" rule: wait_loop.cases) (auto simp: has_running_def)
qed simp

text \<open>The first event that is not passed over decides.\<close>

lemma wait_loop_at:
  assumes "list_all passed_over pre" and "\<not> passed_over ev"
  shows "wait_loop (pre @ ev # post) = wait_loop [ev]" and "wait_loop [ev] \<noteq> Error WaitTimedOut"
proof -
  show "wait_loop (pre @ ev # post) = wait_loop [ev]"
    unfolding wait_loop_passes [OF assms(1)]
    by (cases "(ev # post)" rule: wait_loop.cases) (use assms(2) in \<open>auto simp: has_running_def\<close>)
  show "wait_loop [ev] \<noteq> Error WaitTimedOut"
    by (cases "[ev]" rule: wait_loop.cases) (use assms(2) in \<open>auto simp: has_running_def\<close>)
qed

lemma wait_loop_decided:
  assumes "r \<noteq> Error WaitTimedOut"
  shows "wait_loop evs = r \<longleftrightarrow>
    (\<exists>pre ev post. evs = pre @ ev # post \<and> list_all passed_over pre \<and> \<not> passed_over ev \<and> wait_loop [ev] = r)"
proof (cases "list_all passed_over evs")
  case True
  then have "wait_loop evs = Error WaitTimedOut" using wait_loop_passes [of evs "[]"] by simp
  with True assms show ?thesis by auto
next
  case False
  then obtain pre ev post where evs: "evs = pre @ ev # post" "list_all passed_over pre" "\<not> passed_over ev"
    using split_list_first_prop [of evs "\<lambda>ev. \<not> passed_over ev"] by (auto simp: list_all_iff)
  then have "wait_loop evs = wait_loop [ev]" using wait_loop_at(1) by simp
  then show ?thesis using evs wait_loop_at(1) by metis
qed

lemma wait_loop_timed_out: "wait_loop evs = Error WaitTimedOut \<longleftrightarrow> list_all passed_over evs"
proof (cases "list_all passed_over evs")
  case True
  then show ?thesis using wait_loop_passes [of evs "[]"] by simp
next
  case False
  then obtain pre ev post where "evs = pre @ ev # post" "list_all passed_over pre" "\<not> passed_over ev"
    using split_list_first_prop [of evs "\<lambda>ev. \<not> passed_over ev"] by (auto simp: list_all_iff)
  with False wait_loop_at(1) [of pre ev post] wait_loop_at(2) [of pre ev] show ?thesis by simp
qed

lemma wait_loop_verdict:
  assumes "\<not> passed_over ev"
  shows "wait_loop [ev] = Ok name \<longleftrightarrow> reports_running ev name"
    and "wait_loop [ev] = Error PodDeleted \<longleftrightarrow> fst ev = Deleted"
    and "wait_loop [ev] = Error WatchEventError \<longleftrightarrow> fst ev = ErrorEvent"
    and "wait_loop [ev] = Panic \<longleftrightarrow> (fst ev = Added \<or> fst ev = Modified) \<and> snd ev = NoPod"
  by (cases "[ev]" rule: wait_loop.cases; use assms in \<open>auto simp: has_running_def\<close>)+

lemma reports_running_decides: "reports_running ev name \<Longrightarrow> \<not> passed_over ev"
  by (cases ev) (auto split: event_object.splits)

section \<open>Properties\<close>

text \<open>
  C7: No job is left behind: when \<open>RunServerJob\<close> fails after the job was created, for whatever reason, it
  has deleted exactly the job the API server created, once; when it succeeds it has deleted nothing and
  the handle deletes just that job when it is closed. A job is created at most once, and only a panic
  while waiting leaves it to its time to live.
\<close>

theorem run_server_job_cleans_up:
  "case run_server_job env st f of
     (Ok sj, acts) \<Rightarrow>
       (\<exists>j. build_server_job (ke_libs env) f = Inr j \<and> acts = [CreateJob j] \<and>
          ke_create env j = Inr (sj_Namespace sj, sj_Name sj)) \<and>
       server_job_close sj = [CloseStream, DeleteJob (sj_Namespace sj) (sj_Name sj)]
   | (Error e, acts) \<Rightarrow>
       acts = [] \<or>
       (\<exists>j e'. acts = [CreateJob j] \<and> ke_create env j = Inl e') \<or>
       (\<exists>j ns name. ke_create env j = Inr (ns, name) \<and> acts = [CreateJob j, DeleteJob ns name])
   | (Panic, acts) \<Rightarrow>
       \<exists>j ns name. acts = [CreateJob j] \<and> ke_create env j = Inr (ns, name) \<and>
         wait_for_server_job_pod (ke_watch env ns name) = Panic"
  by (auto simp: run_server_job_def remove_server_job_def server_job_close_def Let_def
      split: sum.splits option.splits outcome.splits prod.splits)

text \<open>
  A patch reaches the namespace, the labels, the annotations and the specification of the pod, and
  nothing else of the job: its name and its own labels are fixed.
\<close>

lemma build_server_job_fixed:
  assumes "build_server_job libs f = Inr j"
  shows "job_GenerateName j = ''krelay-server-'' \<and> job_Labels j = podLabels \<and>
    job_BackoffLimit j = jobBackoffLimit \<and> job_TTLSecondsAfterFinished j = ttlSecondsAfterFinished"
  using assms
  by (auto simp: build_server_job_def job_of_pod_def ServerName_def split: if_splits sum.splits)

text \<open>
  C40: The pod a stream is opened to is the one the API server reported running: the wait passes over
  bookmarks and pods without a running container, and is decided by the first other event, whatever comes
  after it: a pod with a running container gives its name, a deletion or an error of the watch an
  error, and an event of a pod without one panics. The wait times out just if there is no such event, and
  fails with the watch if that cannot be opened.
\<close>

theorem wait_for_server_job_pod_decides:
  "(wait_for_server_job_pod (Inr evs) = Ok name \<longleftrightarrow>
      (\<exists>pre ev post. evs = pre @ ev # post \<and> list_all passed_over pre \<and> reports_running ev name))
   \<and> (wait_for_server_job_pod (Inr evs) = Error PodDeleted \<longleftrightarrow>
      (\<exists>pre obj post. evs = pre @ (Deleted, obj) # post \<and> list_all passed_over pre))
   \<and> (wait_for_server_job_pod (Inr evs) = Error WatchEventError \<longleftrightarrow>
      (\<exists>pre obj post. evs = pre @ (ErrorEvent, obj) # post \<and> list_all passed_over pre))
   \<and> (wait_for_server_job_pod (Inr evs) = Panic \<longleftrightarrow>
      (\<exists>pre k post. evs = pre @ (k, NoPod) # post \<and> (k = Added \<or> k = Modified) \<and> list_all passed_over pre))
   \<and> (wait_for_server_job_pod (Inr evs) = Error WaitTimedOut \<longleftrightarrow> list_all passed_over evs)
   \<and> wait_for_server_job_pod (Inl err) = Error (WatchFailed err)"
proof -
  have w: "wait_for_server_job_pod (Inr evs) = wait_loop evs" by (simp add: wait_for_server_job_pod_def)
  have ok: "wait_loop evs = Ok name \<longleftrightarrow>
      (\<exists>pre ev post. evs = pre @ ev # post \<and> list_all passed_over pre \<and> reports_running ev name)"
    using wait_loop_decided [of "Ok name" evs] wait_loop_verdict(1) reports_running_decides by blast
  have deleted: "wait_loop evs = Error PodDeleted \<longleftrightarrow>
      (\<exists>pre obj post. evs = pre @ (Deleted, obj) # post \<and> list_all passed_over pre)"
    using wait_loop_decided [of "Error PodDeleted" evs] wait_loop_verdict(2) by fastforce
  have failed: "wait_loop evs = Error WatchEventError \<longleftrightarrow>
      (\<exists>pre obj post. evs = pre @ (ErrorEvent, obj) # post \<and> list_all passed_over pre)"
    using wait_loop_decided [of "Error WatchEventError" evs] wait_loop_verdict(3) by fastforce
  have panics: "wait_loop evs = Panic \<longleftrightarrow>
      (\<exists>pre k post. evs = pre @ (k, NoPod) # post \<and> (k = Added \<or> k = Modified) \<and> list_all passed_over pre)"
    using wait_loop_decided [of Panic evs] wait_loop_verdict(4) by fastforce
  show ?thesis
    unfolding w by (intro conjI ok deleted failed panics wait_loop_timed_out) (simp add: wait_for_server_job_pod_def)
qed

end
