(* ===== verification/App.thy ===== *)
theory App
  imports Targets Forwarder Kube
begin

text \<open>
  The two commands of the client as wholes: \<open>Options.Run\<close> in \<open>cmd/client/main.go\<close>, with
  \<open>portForwarder.listen\<close> in \<open>forwarder.go\<close>, and \<open>proxyOptions.Run\<close> in \<open>command_proxy.go\<close>. What they do to
  the outside (binding listeners, creating and removing the server job) is a trace of actions.
\<close>

section \<open>Targets to forwarders\<close>

record port_forwarder =
  pf_addrGetter :: getter
  pf_ports :: port_pair
  pf_listenAddr :: string

datatype app_error =
    GetNamespace string
  | TargetsFileAndArgs
  | OpenTargetsFile string
  | InTargetsFile targets_error
  | MissingArgs
  | InFields fields_error
  | NoClientSet string
  | TargetIP string
  | LookupObject string
  | NoGetter getter_error
  | InPorts ports_error
  | NothingBound
  | JobFailed run_error
  | ListenFailed string

record ('sel, 'conn) app_env =
  ae_namespace :: "string + string"
  ae_stdin :: string
  ae_open :: "string \<Rightarrow> string + string"
  ae_flag_parser :: flag_parser
  ae_lookup :: "string \<Rightarrow> string \<Rightarrow> string + 'sel object"
  ae_cluster :: "'sel cluster"
  ae_listen :: "string \<Rightarrow> string \<Rightarrow> string option"
  ae_kube :: "'conn kube_env"

record app_options =
  ao_flags :: kube_flags
  ao_address :: string
  ao_targetsFile :: string

text \<open>The switch on the kind of the resource: the getter, and the object for the port parser.\<close>

definition resolve_target ::
  "('sel, 'conn) app_env \<Rightarrow> target \<Rightarrow> (app_error, getter \<times> 'sel object option) outcome"
where
  "resolve_target env t =
     (let resParts = split_on (CHR ''/'') (t_resource t) in
        if resParts ! 0 = ''ip'' then
          if length resParts \<le> 1 then Panic
          else (case addr_from_ip (resParts ! 1) of
                  Inl _ \<Rightarrow> Error (TargetIP (resParts ! 1))
                | Inr a \<Rightarrow> Ok (StaticAddr a, None))
        else if resParts ! 0 = ''host'' then
          if length resParts \<le> 1 then Panic
          else Ok (StaticAddr (addr_from_host (resParts ! 1)), None)
        else
          (case ae_lookup env (t_namespace t) (t_resource t) of
             Inl err \<Rightarrow> Error (LookupObject err)
           | Inr obj \<Rightarrow>
               (case addr_getter_for_object obj (ae_cluster env) (t_namespace t) of
                  Inl err \<Rightarrow> Error (NoGetter err)
                | Inr g \<Rightarrow> Ok (g, Some obj))))"

definition target_forwarders ::
  "('sel, 'conn) app_env \<Rightarrow> target \<Rightarrow> (app_error, port_forwarder list) outcome"
where
  "target_forwarders env t =
     obind (resolve_target env t) (\<lambda>(addrGetter, obj).
       case parse_ports (t_ports t) obj of
         Inl err \<Rightarrow> Error (InPorts err)
       | Inr forwardPorts \<Rightarrow>
           Ok (map (\<lambda>pp. \<lparr>pf_addrGetter = addrGetter, pf_ports = pp, pf_listenAddr = t_lisAddr t\<rparr>) forwardPorts))"

definition all_forwarders ::
  "('sel, 'conn) app_env \<Rightarrow> target list \<Rightarrow> (app_error, port_forwarder list) outcome"
where
  "all_forwarders env targets = obind (otraverse (target_forwarders env) targets) (\<lambda>pfs. Ok (concat pfs))"

text \<open>The targets, from the file or from the arguments.\<close>

definition run_targets ::
  "('sel, 'conn) app_env \<Rightarrow> app_options \<Rightarrow> string list \<Rightarrow> (app_error, target list) outcome"
where
  "run_targets env opts args =
     (case ae_namespace env of
        Inl err \<Rightarrow> Error (GetNamespace err)
      | Inr ns \<Rightarrow>
          if 0 < length (ao_targetsFile opts) then
            if length args \<noteq> 0 then Error TargetsFileAndArgs
            else
              (case (if ao_targetsFile opts = ''-'' then Inr (ae_stdin env) else ae_open env (ao_targetsFile opts)) of
                 Inl err \<Rightarrow> Error (OpenTargetsFile err)
               | Inr text' \<Rightarrow>
                   (case parse_targets_file (ae_flag_parser env) text' ns of
                      Panic \<Rightarrow> Panic
                    | Error err \<Rightarrow> Error (InTargetsFile err)
                    | Ok ts \<Rightarrow> Ok ts))
          else if length args < 2 then Error MissingArgs
          else
            (case validate_fields args of
               Panic \<Rightarrow> Panic
             | Error err \<Rightarrow> Error (InFields err)
             | Ok _ \<Rightarrow> Ok [\<lparr>t_resource = args ! 0, t_ports = drop 1 args, t_namespace = ns,
                             t_lisAddr = ao_address opts\<rparr>]))"

section \<open>Listening\<close>

datatype app_action =
    Listen string string
  | Cluster cluster_action

text \<open>\<open>listen\<close>: what it tries to bind, and whether that worked.\<close>

definition pf_listen ::
  "(string \<Rightarrow> string \<Rightarrow> string option) \<Rightarrow> port_forwarder \<Rightarrow> app_action list \<times> bool"
where
  "pf_listen try pf =
     (let bindAddr = join_host_port (pf_listenAddr pf) (itoa (unat (LocalPort (pf_ports pf)))) in
        if Protocol (pf_ports pf) = constProtocolTCP then
          ([Listen constProtocolTCP bindAddr], try constProtocolTCP bindAddr = None)
        else if Protocol (pf_ports pf) = constProtocolUDP then
          ([Listen constProtocolUDP bindAddr], try constProtocolUDP bindAddr = None)
        else ([], False))"

fun listen_all ::
  "(string \<Rightarrow> string \<Rightarrow> string option) \<Rightarrow> port_forwarder list \<Rightarrow> app_action list \<times> port_forwarder list"
where
  "listen_all try [] = ([], [])"
| "listen_all try (pf # pfs) =
     (case pf_listen try pf of
        (acts, ok) \<Rightarrow>
          (case listen_all try pfs of
             (acts', bound) \<Rightarrow> (acts @ acts', if ok then pf # bound else bound)))"

text \<open>
  \<open>run\<close>: the loop a forwarder's goroutine is in, by the listener that \<open>listen\<close> gave it. One that has none
  does nothing.
\<close>

datatype 'c forwarding =
    NotListening
  | ForwardsTCP "'c tcp_action list"
  | ForwardsUDP udp_forwarder

definition pf_run :: "bool \<Rightarrow> port_forwarder \<Rightarrow> 'c tcp_event list \<Rightarrow> 'c forwarding" where
  "pf_run listening pf evs =
     (if \<not> listening then NotListening
      else if Protocol (pf_ports pf) = constProtocolTCP then ForwardsTCP (run_tcp (RemotePort (pf_ports pf)) evs)
      else ForwardsUDP new_udp_forwarder)"

section \<open>The commands\<close>

text \<open>
  \<open>Options.Run\<close>: the forwarders that run, or the error, and the trace. After the job is there the function
  waits for the stream connection or the context to end, and its deferred call closes the job.
\<close>

definition options_run ::
  "('sel, 'conn) app_env \<Rightarrow> app_options \<Rightarrow> string list
   \<Rightarrow> (app_error, port_forwarder list) outcome \<times> app_action list"
where
  "options_run env opts args =
     (case run_targets env opts args of
        Panic \<Rightarrow> (Panic, [])
      | Error err \<Rightarrow> (Error err, [])
      | Ok targets \<Rightarrow>
     (case to_client_set (ke_load (ae_kube env)) (ke_newForConfig (ae_kube env)) new_flags of
        (Inl err, _) \<Rightarrow> (Error (NoClientSet err), [])
      | (Inr cs, st) \<Rightarrow>
     (case all_forwarders env targets of
        Panic \<Rightarrow> (Panic, [])
      | Error err \<Rightarrow> (Error err, [])
      | Ok pfs \<Rightarrow>
     (case listen_all (ae_listen env) pfs of
        (acts, bound) \<Rightarrow>
          if bound = [] then (Error NothingBound, acts)
          else
            (case run_server_job (ae_kube env) st (ao_flags opts) of
               (Panic, jobActs) \<Rightarrow> (Panic, acts @ map Cluster jobActs)
             | (Error err, jobActs) \<Rightarrow> (Error (JobFailed err), acts @ map Cluster jobActs)
             | (Ok createdJob, jobActs) \<Rightarrow>
                 (Ok bound, acts @ map Cluster (jobActs @ server_job_close createdJob)))))))"

definition proxy_run ::
  "('sel, 'conn) app_env \<Rightarrow> kube_flags \<Rightarrow> string \<Rightarrow> (app_error, unit) outcome \<times> app_action list"
where
  "proxy_run env f listenAddr =
     (case ae_listen env ''tcp'' listenAddr of
        Some err \<Rightarrow> (Error (ListenFailed err), [Listen ''tcp'' listenAddr])
      | None \<Rightarrow>
          (case run_server_job (ae_kube env) new_flags f of
             (Panic, jobActs) \<Rightarrow> (Panic, Listen ''tcp'' listenAddr # map Cluster jobActs)
           | (Error err, jobActs) \<Rightarrow> (Error (JobFailed err), Listen ''tcp'' listenAddr # map Cluster jobActs)
           | (Ok createdJob, jobActs) \<Rightarrow>
               (Ok (), Listen ''tcp'' listenAddr # map Cluster (jobActs @ server_job_close createdJob))))"

section \<open>Lemmas\<close>

text \<open>What a trace of cluster actions leaves: a job that was created is deleted, or was never there.\<close>

definition tidy :: "'conn kube_env \<Rightarrow> cluster_action list \<Rightarrow> bool" where
  "tidy env acts \<longleftrightarrow>
     acts = [] \<or>
     (\<exists>j e. acts = [CreateJob j] \<and> ke_create env j = Inl e) \<or>
     (\<exists>j ns name. ke_create env j = Inr (ns, name) \<and>
        (acts = [CreateJob j, DeleteJob ns name] \<or> acts = [CreateJob j, CloseStream, DeleteJob ns name]))"

lemma run_server_job_tidy:
  "case run_server_job env st f of
     (Ok sj, acts) \<Rightarrow> tidy env (acts @ server_job_close sj)
   | (Error e, acts) \<Rightarrow> tidy env acts
   | (Panic, acts) \<Rightarrow> True"
  by (auto simp: run_server_job_def remove_server_job_def server_job_close_def tidy_def Let_def
      split: sum.splits option.splits outcome.splits prod.splits)

lemma listen_all_acts:
  "listen_all try pfs = (acts, bound) \<Longrightarrow>
     (\<forall>a \<in> set acts. \<exists>n b. a = Listen n b) \<and> set bound \<subseteq> set pfs"
  by (induction pfs arbitrary: acts bound)
    (auto simp: pf_listen_def Let_def split: prod.splits if_splits)

text \<open>A forwarder that listens runs the loop of its protocol.\<close>

lemma bound_forwarders_run:
  assumes "listen_all try pfs = (acts, bound)" and "pf \<in> set bound"
  shows "pf_run True pf evs =
    (if Protocol (pf_ports pf) = constProtocolTCP then ForwardsTCP (run_tcp (RemotePort (pf_ports pf)) evs)
     else ForwardsUDP new_udp_forwarder)
   \<and> Protocol (pf_ports pf) \<in> {constProtocolTCP, constProtocolUDP}"
  using assms
  by (induction pfs arbitrary: acts bound)
    (auto simp: pf_run_def pf_listen_def Let_def split: prod.splits if_splits)

text \<open>The proxy command leaves no job either.\<close>

lemma proxy_run_tidy:
  "case proxy_run env f listenAddr of
     (r, acts) \<Rightarrow> \<exists>jobs. acts = Listen ''tcp'' listenAddr # map Cluster jobs \<and> (r = Panic \<or> tidy (ae_kube env) jobs)"
proof (cases "ae_listen env ''tcp'' listenAddr")
  case None
  obtain r jobs where j: "run_server_job (ae_kube env) new_flags f = (r, jobs)" by fastforce
  show ?thesis
    using run_server_job_tidy [of "ae_kube env" new_flags f] None j
    by (cases r) (auto simp: proxy_run_def intro!: exI [of _ jobs] exI [of _ "jobs @ _"])
next
  case (Some err)
  then show ?thesis by (intro prod.split [THEN iffD2]) (auto simp: proxy_run_def tidy_def intro: exI [of _ "[]"])
qed

section \<open>Properties\<close>

text \<open>Once a listener is bound, what is left is the job.\<close>

lemma options_run_job:
  assumes "run_targets env opts args = Ok targets" and "all_forwarders env targets = Ok pfs"
    and "to_client_set (ke_load (ae_kube env)) (ke_newForConfig (ae_kube env)) new_flags = (Inr cs, st)"
    and "listen_all (ae_listen env) pfs = (acts, bound)" and "bound \<noteq> []"
  obtains r jobs where "options_run env opts args = (r, acts @ map Cluster jobs)" and "r = Panic \<or> tidy (ae_kube env) jobs"
proof -
  obtain r jobs where j: "run_server_job (ae_kube env) st (ao_flags opts) = (r, jobs)" by fastforce
  define all_jobs where "all_jobs = (case r of Ok sj \<Rightarrow> jobs @ server_job_close sj | _ \<Rightarrow> jobs)"
  have "options_run env opts args =
      (case r of Panic \<Rightarrow> Panic | Error e \<Rightarrow> Error (JobFailed e) | Ok _ \<Rightarrow> Ok bound, acts @ map Cluster all_jobs)"
    using assms j by (cases r) (simp_all add: options_run_def all_jobs_def)
  moreover have "r = Panic \<or> tidy (ae_kube env) all_jobs"
    using run_server_job_tidy [of "ae_kube env" st "ao_flags opts"] j by (cases r) (simp_all add: all_jobs_def)
  ultimately show thesis by (intro that) (auto split: outcome.splits)
qed

text \<open>
  C29: The client touches the cluster only when it can serve: a job is requested only after all targets
  were resolved and at least one listener was bound, and however \<open>Options.Run\<close> returns, no job it created
  is left: the trace of cluster actions is empty, a failed creation, or a creation with its deletion.
\<close>

theorem options_run_tidy:
  "case options_run env opts args of
     (r, acts) \<Rightarrow>
       \<exists>listens jobs. acts = listens @ map Cluster jobs \<and> list_all (\<lambda>a. \<exists>n b. a = Listen n b) listens \<and>
         (r = Panic \<or> tidy (ae_kube env) jobs) \<and>
         (jobs = [] \<or>
          (\<exists>targets pfs. run_targets env opts args = Ok targets \<and> all_forwarders env targets = Ok pfs \<and>
             snd (listen_all (ae_listen env) pfs) \<noteq> []))"
proof -
  have none: "tidy (ae_kube env) []" by (simp add: tidy_def)
  show ?thesis
  proof (cases "run_targets env opts args")
    case (Ok targets)
    obtain cs st
      where client: "to_client_set (ke_load (ae_kube env)) (ke_newForConfig (ae_kube env)) new_flags = (cs, st)"
      by fastforce
    show ?thesis
    proof (cases cs)
      case (Inr cs')
      show ?thesis
      proof (cases "all_forwarders env targets")
        case pfs: (Ok pfs)
        obtain acts bound where l: "listen_all (ae_listen env) pfs = (acts, bound)" by fastforce
        then have acts: "list_all (\<lambda>a. \<exists>n b. a = Listen n b) acts"
          using listen_all_acts by (simp add: list_all_iff)
        show ?thesis
        proof (cases "bound = []")
          case True
          then have "options_run env opts args = (Error NothingBound, acts @ map Cluster [])"
            using Ok client Inr pfs l by (simp add: options_run_def)
          with acts none show ?thesis
            by (simp only: prod.case) (intro exI [of _ acts] exI [of _ "[]"], simp)
        next
          case False
          from options_run_job [OF Ok pfs client [unfolded Inr] l this] obtain r jobs where
            "options_run env opts args = (r, acts @ map Cluster jobs)" "r = Panic \<or> tidy (ae_kube env) jobs" .
          moreover have "snd (listen_all (ae_listen env) pfs) \<noteq> []" using l False by simp
          ultimately show ?thesis
            using acts Ok pfs by (simp only: prod.case) (intro exI [of _ acts] exI [of _ jobs], simp)
        qed
      qed (use Ok client Inr none in \<open>auto simp: options_run_def\<close>)
    qed (use Ok client none in \<open>auto simp: options_run_def\<close>)
  qed (use none in \<open>auto simp: options_run_def\<close>)
qed

text \<open>
  A target is resolved by its kind. For \<open>ip/\<close> and \<open>host/\<close> the address is what follows the slash, and
  the ports are parsed without an object; a resource that is just \<open>ip\<close> or \<open>host\<close> makes the program
  panic, and nothing else in resolving a target does.
\<close>

lemma resolve_target_kinds:
  "resolve_target env \<lparr>t_resource = ''host/'' @ h, t_ports = ps, t_namespace = ns, t_lisAddr = la\<rparr>
     = Ok (StaticAddr (addr_from_host (split_on (CHR ''/'') h ! 0)), None)
   \<and> (resolve_target env t = Panic \<longleftrightarrow> t_resource t = ''ip'' \<or> t_resource t = ''host'')"
proof -
  have host: "split_on (CHR ''/'') (''host/'' @ h) = ''host'' # split_on (CHR ''/'') h"
    using split_on_sep [of "CHR ''/''" "''host''" h] by simp
  obtain w ws where h: "split_on (CHR ''/'') h = w # ws"
    using split_on_not_Nil [of "CHR ''/''" h] by (cases "split_on (CHR ''/'') h") auto
  have one: "split_on (CHR ''/'') r = [w]" if "split_on (CHR ''/'') r ! 0 = w" "length (split_on (CHR ''/'') r) \<le> 1" for r w
    using that split_on_not_Nil [of "CHR ''/''" r] by (cases "split_on (CHR ''/'') r") auto
  have "resolve_target env t = Panic \<longleftrightarrow>
      (split_on (CHR ''/'') (t_resource t) = [''ip''] \<or> split_on (CHR ''/'') (t_resource t) = [''host''])"
    using one [of "t_resource t"]
    by (auto simp: resolve_target_def Let_def split: sum.splits if_splits)
  moreover have "split_on (CHR ''/'') r = [w] \<longleftrightarrow> r = w" if "CHR ''/'' \<notin> set w" for r w
    using that by (auto dest: split_on_single)
  ultimately show ?thesis
    using host h by (simp add: resolve_target_def Let_def del: split_on.simps)
qed

end
