(* ===== verification/Server.thy ===== *)
theory Server
  imports Wire Ports
begin

text \<open>
  One connection of the server, \<open>handleConn\<close> in \<open>cmd/server/main.go\<close>: the header, the dialer, the
  acknowledgement, the hand-over to the proxy. The dialer is a parameter: from the network and the
  address it makes a connection or an error; of an error the model keeps what \<open>errors.As\<close> finds in it.
  Also the accept loop of \<open>run\<close>.
\<close>

section \<open>Acknowledging\<close>

record dns_error =
  IsNotFound :: bool
  IsTimeout :: bool

text \<open>The \<open>*net.DNSError\<close> in the chain, if any, and the \<open>Timeout()\<close> of its \<open>*net.OpError\<close>, if any.\<close>

record dial_error =
  as_dns_error :: "dns_error option"
  as_op_error :: "bool option"

definition ack_code_from_err :: "dial_error \<Rightarrow> byte" where
  "ack_code_from_err err =
     (let rest = (if as_op_error err = Some True then AckCodeConnectTimeout else AckCodeUnknownError) in
        case as_dns_error err of
          Some dnsErr \<Rightarrow>
            if IsNotFound dnsErr then AckCodeNoSuchHost
            else if IsTimeout dnsErr then AckCodeResolveTimeout
            else rest
        | None \<Rightarrow> rest)"

definition write_ack :: "sink \<Rightarrow> acknowledgement \<Rightarrow> io_error option \<times> sink" where
  "write_ack c ack = (case sink_write c (ack_marshal ack) of (_, err, c') \<Rightarrow> (err, c'))"

section \<open>handleConn\<close>

text \<open>
  How \<open>handleConn\<close> ends, or what it hands to the proxy. \<open>AckFailed\<close> keeps the upstream connection, if
  there is one: the function returns without closing it.
\<close>

datatype 'up conn_end =
    HeaderFailed header_error
  | DialFailed dial_error
  | AckFailed io_error "'up option"
  | ProxyingTCP string 'up
  | ProxyingUDP string 'up
  | HeartbeatReceived
  | UnknownProtocolRefused

record 'up handled =
  dialed :: "(string \<times> string) list"
  ended :: "'up conn_end"
  conn_in :: stream
  conn_out :: sink

type_synonym 'up dialer = "string \<Rightarrow> string \<Rightarrow> dial_error + 'up"

definition handle_conn :: "'up dialer \<Rightarrow> stream \<Rightarrow> sink \<Rightarrow> 'up handled" where
  "handle_conn dial s c =
     (case header_from_reader read_full
             \<lparr>hVersion = 0, hRequestID = [], hProtocol = 0, hPort = 0, hAddr = zero_addr\<rparr> s of
        (_, Some err, s') \<Rightarrow> \<lparr>dialed = [], ended = HeaderFailed err, conn_in = s', conn_out = c\<rparr>
      | (hdr, None, s') \<Rightarrow>
          let dstAddr = xnet_join_host_port (addr_string (hAddr hdr)) (hPort hdr) in
          if hProtocol hdr = ProtocolTCP then
            (case dial constProtocolTCP dstAddr of
               Inl err \<Rightarrow>
                 (case write_ack c \<lparr>ack_Code = ack_code_from_err err\<rparr> of
                    (_, c') \<Rightarrow> \<lparr>dialed = [(constProtocolTCP, dstAddr)], ended = DialFailed err,
                                conn_in = s', conn_out = c'\<rparr>)
             | Inr upstreamConn \<Rightarrow>
                 (case write_ack c \<lparr>ack_Code = AckCodeOK\<rparr> of
                    (Some err, c') \<Rightarrow> \<lparr>dialed = [(constProtocolTCP, dstAddr)],
                       ended = AckFailed err (Some upstreamConn), conn_in = s', conn_out = c'\<rparr>
                  | (None, c') \<Rightarrow> \<lparr>dialed = [(constProtocolTCP, dstAddr)],
                       ended = ProxyingTCP (hRequestID hdr) upstreamConn, conn_in = s', conn_out = c'\<rparr>))
          else if hProtocol hdr = ProtocolUDP then
            (case dial constProtocolUDP dstAddr of
               Inl err \<Rightarrow>
                 (case write_ack c \<lparr>ack_Code = ack_code_from_err err\<rparr> of
                    (_, c') \<Rightarrow> \<lparr>dialed = [(constProtocolUDP, dstAddr)], ended = DialFailed err,
                                conn_in = s', conn_out = c'\<rparr>)
             | Inr upstreamConn \<Rightarrow>
                 (case write_ack c \<lparr>ack_Code = AckCodeOK\<rparr> of
                    (Some err, c') \<Rightarrow> \<lparr>dialed = [(constProtocolUDP, dstAddr)],
                       ended = AckFailed err (Some upstreamConn), conn_in = s', conn_out = c'\<rparr>
                  | (None, c') \<Rightarrow> \<lparr>dialed = [(constProtocolUDP, dstAddr)],
                       ended = ProxyingUDP (hRequestID hdr) upstreamConn, conn_in = s', conn_out = c'\<rparr>))
          else if hProtocol hdr = ProtocolKeepalive then
            \<lparr>dialed = [], ended = HeartbeatReceived, conn_in = s', conn_out = c\<rparr>
          else
            (case write_ack c \<lparr>ack_Code = AckCodeUnknownProtocol\<rparr> of
               (Some err, c') \<Rightarrow> \<lparr>dialed = [], ended = AckFailed err None, conn_in = s', conn_out = c'\<rparr>
             | (None, c') \<Rightarrow> \<lparr>dialed = [], ended = UnknownProtocolRefused, conn_in = s', conn_out = c'\<rparr>))"

section \<open>The accept loop\<close>

text \<open>What \<open>Accept\<close> returns: a connection, or an error by the two questions the loop asks about it.\<close>

datatype 'c accepted = Accepted 'c | AcceptError bool bool string

datatype run_result = Running | RunOK | RunError string

text \<open>
  The connections that are handed to goroutines, in order, and the result of \<open>run\<close>. Where the script
  ends the loop still waits. The first flag of an error says that it is \<open>net.ErrClosed\<close>, the second
  that it is temporary.
\<close>

fun accept_loop :: "'c accepted list \<Rightarrow> 'c list \<times> run_result" where
  "accept_loop [] = ([], Running)"
| "accept_loop (Accepted c # evs) = (case accept_loop evs of (cs, r) \<Rightarrow> (c # cs, r))"
| "accept_loop (AcceptError closed temporary msg # evs) =
     (if closed then ([], RunOK)
      else if temporary then accept_loop evs
      else ([], RunError msg))"

section \<open>Lemmas\<close>

lemma write_ack_sent:
  "write_ack c a = (None, c') \<Longrightarrow> accepted c' = accepted c @ [ack_Code a]"
proof -
  assume "write_ack c a = (None, c')"
  then obtain n where w: "sink_write c [ack_Code a] = (n, None, c')"
    by (auto simp: write_ack_def ack_marshal_def split: prod.splits)
  then have "0 < n" using conn_out.progress by blast
  with conn_out.appends [OF w] show ?thesis by simp
qed

lemma write_ack_open:
  "wr_script c = [] \<Longrightarrow> write_ack c a = (None, take_in 1 [ack_Code a] c)"
  by (simp add: write_ack_def ack_marshal_def sink_write_def)

lemma ack_code_from_err_not_OK: "ack_code_from_err err \<noteq> AckCodeOK \<and> ack_code_from_err err \<noteq> AckCodeUnknownProtocol"
  by (auto simp: ack_code_from_err_def Let_def ack_code_defs split: option.splits)

lemma protocols_differ [simp]:
  "ProtocolTCP \<noteq> ProtocolUDP" "ProtocolUDP \<noteq> ProtocolTCP" "ProtocolTCP \<noteq> ProtocolKeepalive"
  "ProtocolKeepalive \<noteq> ProtocolTCP" "ProtocolUDP \<noteq> ProtocolKeepalive" "ProtocolKeepalive \<noteq> ProtocolUDP"
  by (simp_all add: protocol_defs)

text \<open>The header of a connection, read once for all branches.\<close>

lemma handle_conn_header:
  assumes "wf_header h" and "pending s = header_marshal h @ rest"
  obtains s' where "pending s' = rest"
    and "header_from_reader read_full
      \<lparr>hVersion = 0, hRequestID = [], hProtocol = 0, hPort = 0, hAddr = zero_addr\<rparr> s = (h, None, s')"
  using conn.header_decodes [OF assms] by blast

text \<open>The network a protocol number stands for.\<close>

definition network_of :: "byte \<Rightarrow> string option" where
  "network_of p =
     (if p = ProtocolTCP then Some ''tcp'' else if p = ProtocolUDP then Some ''udp'' else None)"

text \<open>The two branches that dial, as one.\<close>

lemma handle_conn_dials:
  assumes "header_from_reader read_full
      \<lparr>hVersion = 0, hRequestID = [], hProtocol = 0, hPort = 0, hAddr = zero_addr\<rparr> s = (h, None, s')"
    and "network_of (hProtocol h) = Some net"
    and "dst = xnet_join_host_port (addr_string (hAddr h)) (hPort h)"
  shows "handle_conn dial s c =
    (case dial net dst of
       Inl err \<Rightarrow> \<lparr>dialed = [(net, dst)], ended = DialFailed err, conn_in = s',
                   conn_out = snd (write_ack c \<lparr>ack_Code = ack_code_from_err err\<rparr>)\<rparr>
     | Inr up \<Rightarrow>
         (case write_ack c \<lparr>ack_Code = AckCodeOK\<rparr> of
            (Some err, c') \<Rightarrow> \<lparr>dialed = [(net, dst)], ended = AckFailed err (Some up), conn_in = s', conn_out = c'\<rparr>
          | (None, c') \<Rightarrow> \<lparr>dialed = [(net, dst)],
              ended = (if net = ''tcp'' then ProxyingTCP (hRequestID h) up else ProxyingUDP (hRequestID h) up),
              conn_in = s', conn_out = c'\<rparr>))"
proof -
  consider "hProtocol h = ProtocolTCP" "net = ''tcp''" | "hProtocol h = ProtocolUDP" "net = ''udp''"
    using assms(2) by (auto simp: network_of_def split: if_splits)
  then show ?thesis
    by cases
      (simp_all add: handle_conn_def assms(1,3) Let_def const_protocol_defs
        split: sum.splits prod.splits option.splits)
qed

section \<open>Properties\<close>

text \<open>The branches after a header that names a network, and after one that does not.\<close>

lemma handle_conn_served:
  assumes "header_from_reader read_full
      \<lparr>hVersion = 0, hRequestID = [], hProtocol = 0, hPort = 0, hAddr = zero_addr\<rparr> s = (h, None, s')"
    and "network_of (hProtocol h) = Some net" and "dst = xnet_join_host_port (addr_string (hAddr h)) (hPort h)"
  shows "let r = handle_conn dial s c in
    dialed r = [(net, dst)] \<and> conn_in r = s' \<and>
    (case dial net dst of
       Inl e \<Rightarrow> ended r = DialFailed e
     | Inr up \<Rightarrow> (\<exists>e. ended r = AckFailed e (Some up)) \<or>
         accepted (conn_out r) = accepted c @ [AckCodeOK] \<and>
         (net = ''tcp'' \<and> ended r = ProxyingTCP (hRequestID h) up \<or> net = ''udp'' \<and> ended r = ProxyingUDP (hRequestID h) up))"
proof -
  obtain e c' where w: "write_ack c \<lparr>ack_Code = AckCodeOK\<rparr> = (e, c')"
    by (cases "write_ack c \<lparr>ack_Code = AckCodeOK\<rparr>")
  have "net = ''tcp'' \<or> net = ''udp''" using assms(2) by (auto simp: network_of_def split: if_splits)
  moreover have "accepted c' = accepted c @ [AckCodeOK]" if "e = None"
    using w that by (auto dest: write_ack_sent)
  ultimately show ?thesis
    using w by (cases "dial net dst"; cases e) (auto simp: handle_conn_dials [OF assms] Let_def)
qed

lemma handle_conn_not_served:
  assumes "header_from_reader read_full
      \<lparr>hVersion = 0, hRequestID = [], hProtocol = 0, hPort = 0, hAddr = zero_addr\<rparr> s = (h, None, s')"
    and "network_of (hProtocol h) = None"
  shows "let r = handle_conn dial s c in
    dialed r = [] \<and> conn_in r = s' \<and>
    (hProtocol h = ProtocolKeepalive \<and> ended r = HeartbeatReceived \<and> conn_out r = c \<or>
     (\<exists>e. ended r = AckFailed e None) \<or>
     ended r = UnknownProtocolRefused \<and> accepted (conn_out r) = accepted c @ [AckCodeUnknownProtocol])"
proof -
  have "hProtocol h \<noteq> ProtocolTCP" "hProtocol h \<noteq> ProtocolUDP"
    using assms(2) by (auto simp: network_of_def split: if_splits)
  then show ?thesis
    using assms(1) by (cases "write_ack c \<lparr>ack_Code = AckCodeUnknownProtocol\<rparr>")
      (auto simp: handle_conn_def Let_def split: option.splits dest: write_ack_sent)
qed

text \<open>
  C23: What the server does is always justified by what it read: it dials only for a well-formed tcp or udp
  header, and the address it dials is the header's; it proxies only after the dialer connected and
  \<open>AckCodeOK\<close> was sent; it sends nothing for a broken header or a heartbeat; and an unknown protocol
  is refused with its own code, without dialling. The error of a failed acknowledgement after a
  successful dial leaves the upstream connection open.
\<close>

theorem handle_conn_justified:
  "let r = handle_conn dial s c;
       served = (\<lambda>h net. wf_header h \<and> pending s = header_marshal h @ pending (conn_in r) \<and>
         network_of (hProtocol h) = Some net \<and>
         dialed r = [(net, xnet_join_host_port (addr_string (hAddr h)) (hPort h))]);
       answer = (\<lambda>h net. dial net (xnet_join_host_port (addr_string (hAddr h)) (hPort h)))
   in case ended r of
        HeaderFailed e \<Rightarrow> dialed r = [] \<and> conn_out r = c
      | DialFailed e \<Rightarrow> \<exists>h net. served h net \<and> answer h net = Inl e
      | AckFailed e (Some up) \<Rightarrow> \<exists>h net. served h net \<and> answer h net = Inr up
      | AckFailed e None \<Rightarrow> dialed r = []
      | ProxyingTCP i up \<Rightarrow> \<exists>h. served h ''tcp'' \<and> answer h ''tcp'' = Inr up \<and> i = hRequestID h \<and>
          accepted (conn_out r) = accepted c @ [AckCodeOK]
      | ProxyingUDP i up \<Rightarrow> \<exists>h. served h ''udp'' \<and> answer h ''udp'' = Inr up \<and> i = hRequestID h \<and>
          accepted (conn_out r) = accepted c @ [AckCodeOK]
      | HeartbeatReceived \<Rightarrow> dialed r = [] \<and> conn_out r = c \<and>
          (\<exists>h. pending s = header_marshal h @ pending (conn_in r) \<and> hProtocol h = ProtocolKeepalive)
      | UnknownProtocolRefused \<Rightarrow> dialed r = [] \<and> accepted (conn_out r) = accepted c @ [AckCodeUnknownProtocol]"
proof -
  obtain h err s' where r: "header_from_reader read_full
      \<lparr>hVersion = 0, hRequestID = [], hProtocol = 0, hPort = 0, hAddr = zero_addr\<rparr> s = (h, err, s')"
    by (metis prod_cases3)
  show ?thesis
  proof (cases err)
    case (Some e)
    with r show ?thesis by (simp add: handle_conn_def)
  next
    case None
    with r have h: "wf_header h" "pending s = header_marshal h @ pending s'"
      using conn.header_decoded by blast+
    show ?thesis
    proof (cases "network_of (hProtocol h)")
      case None
      with handle_conn_not_served [OF r [unfolded \<open>err = None\<close>], of dial c] h show ?thesis
        by (auto simp: Let_def)
    next
      case (Some net)
      with handle_conn_served [OF r [unfolded \<open>err = None\<close>] Some refl, of dial c] h show ?thesis
        by (cases "dial net (xnet_join_host_port (addr_string (hAddr h)) (hPort h))") (auto simp: Let_def)
    qed
  qed
qed

end
