(* ===== verification/Log.thy ===== *)
theory Log
  imports Go_Strings
begin

text \<open>
  Small pure functions around the commands: the log level of a verbosity and the constructors of log
  attributes (\<open>pkg/slog/slog.go\<close>), and the program's name in its help text (\<open>cmd/client/template.go\<close>).
\<close>

text \<open>
  An attribute is a key with a value. \<open>Error\<close> asks the error for its message, which a nil error does not
  have.
\<close>

datatype attr_value = StringValue string | Uint64Value "64 word"

definition slog_error :: "string option \<Rightarrow> (unit, string \<times> attr_value) outcome" where
  "slog_error err = (case err of None \<Rightarrow> Panic | Some msg \<Rightarrow> Ok (''error'', StringValue msg))"

definition slog_uint16 :: "string \<Rightarrow> u16 \<Rightarrow> string \<times> attr_value" where
  "slog_uint16 key v = (key, Uint64Value (ucast v))"

text \<open>The wider word has the same value, so ports are logged as they are.\<close>

lemma slog_uint16_value: "snd (slog_uint16 key v) = Uint64Value w \<Longrightarrow> unat w = unat v"
proof -
  have "unat v < 2 ^ 64" by (rule less_trans [OF unat_u16_less]) simp
  then show "snd (slog_uint16 key v) = Uint64Value w \<Longrightarrow> unat w = unat v"
    by (auto simp: slog_uint16_def unsigned_ucast_eq take_bit_nat_eq_self)
qed

datatype level = LevelDebug | LevelInfo | LevelWarn | LevelError

definition map_verbosity_to_log_level :: "int \<Rightarrow> level" where
  "map_verbosity_to_log_level v =
     (if 4 \<le> v then LevelDebug
      else if 3 \<le> v then LevelInfo
      else if 2 \<le> v then LevelWarn
      else LevelError)"

text \<open>The levels of \<open>log/slog\<close> are integers, and ordered as these.\<close>

fun level_value :: "level \<Rightarrow> int" where
  "level_value LevelDebug = -4"
| "level_value LevelInfo = 0"
| "level_value LevelWarn = 4"
| "level_value LevelError = 8"

lemma level_value_inj [simp]: "level_value l = level_value m \<longleftrightarrow> l = m"
  by (cases l; cases m) simp_all

instantiation level :: linorder
begin

definition less_eq_level :: "level \<Rightarrow> level \<Rightarrow> bool" where
  "less_eq_level l m \<longleftrightarrow> level_value l \<le> level_value m"

definition less_level :: "level \<Rightarrow> level \<Rightarrow> bool" where
  "less_level l m \<longleftrightarrow> level_value l < level_value m"

instance
  by standard (auto simp: less_eq_level_def less_level_def)

end

text \<open>The bigger the verbosity the more is logged, as the help of the flag says.\<close>

lemma more_verbose:
  "v \<le> v' \<Longrightarrow> map_verbosity_to_log_level v' \<le> map_verbosity_to_log_level v"
  by (simp add: map_verbosity_to_log_level_def less_eq_level_def)

text \<open>\<open>filepath.Base\<close> on Unix: without trailing slashes, the part after the last slash.\<close>

definition filepath_base :: "string \<Rightarrow> string" where
  "filepath_base path =
     (if path = [] then ''.''
      else
        let stripped = rev (dropWhile (\<lambda>c. c = CHR ''/'') (rev path)) in
          if stripped = [] then ''/'' else last (split_on (CHR ''/'') stripped))"

definition get_program_name :: "string \<Rightarrow> string" where
  "get_program_name arg0 =
     (let name = filepath_base arg0 in if has_prefix name ''kubectl-'' then ''kubectl relay'' else name)"

lemma get_program_name_examples:
  "get_program_name ''/usr/local/bin/kubectl-relay'' = ''kubectl relay''"
  "get_program_name ''./krelay'' = ''krelay''"
  by code_simp+

end
