(* ===== verification/Help.thy ===== *)
theory Help
  imports Log Targets Ports
begin

text \<open>
  The examples in the help of the client, \<open>example\<close> in \<open>cmd/client/template.go\<close>: a template with the
  program's name in it, executed by \<open>text/template\<close>. What the examples promise is checked against the
  parsers they are meant for.
\<close>

section \<open>The template\<close>

text \<open>The lines of the constant \<open>text\<close>; each ends with a newline, and the first is empty.\<close>

definition example_lines :: "string list" where \<open>
  example_lines =
    [[],
     ''  # Listen on port 8080 locally, forwarding data to the port named "http" in the service'',
     ''  {{.Name}} service/my-service 8080:http'',
     [],
     ''  # Listen on a random port locally, forwarding udp packets to port 53 in a pod selected by the deployment'',
     ''  {{.Name}} -n kube-system deploy/kube-dns :53@udp'',
     [],
     ''  # Listen on port 5353 on all addresses, forwarding data to port 53 in the pod'',
     ''  {{.Name}} --address 0.0.0.0 pod/my-pod 5353:53'',
     [],
     ''  # Listen on port 6379 locally, forwarding data to "redis.cn-north-1.cache.amazonaws.com:6379" from the cluster'',
     ''  {{.Name}} host/redis.cn-north-1.cache.amazonaws.com 6379'',
     [],
     ''  # Listen on port 5000 and 6000 locally, forwarding data to "1.2.3.4:5000" and "1.2.3.4:6000" from the cluster'',
     ''  {{.Name}} ip/1.2.3.4 5000@tcp 6000@udp'',
     [],
     ''  # Customize the server, and forward local port 5000 to "1.2.3.4:5000"'',
     ''  {{.Name}} --patch '{"metadata":{"namespace":"kube-public"},"spec":{"nodeSelector":{"k": "v"}}}' ip/1.2.3.4 5000'',
     [],
     ''  # Forward traffic to multiple targets'',
     ''  cat <<EOF | {{.Name}} -f -'',
     ''-l 192.168.1.100 ip/1.2.3.4 5000'',
     ''svc/my-service 8080:80'',
     ''-n kube-system deploy/coredns 5353:53@udp'',
     ''EOF'']\<close>

text \<open>What \<open>text/template\<close> makes of a text whose only action is \<open>{{.Name}}\<close>.\<close>

definition name_action :: string where "name_action = ''{{.Name}}''"

function expand_name :: "string \<Rightarrow> string \<Rightarrow> string" where
  "expand_name name s =
     (case s of
        [] \<Rightarrow> []
      | c # cs \<Rightarrow>
          if has_prefix s name_action then name @ expand_name name (drop (length name_action) s)
          else c # expand_name name cs)"
  by pat_completeness auto
termination
  by (relation "measure (\<lambda>(_, s). length s)") (auto simp: name_action_def)

declare expand_name.simps [simp del]

definition example :: "string \<Rightarrow> string" where
  "example arg0 = expand_name (get_program_name arg0) (unlines example_lines)"

section \<open>Lemmas\<close>

lemma has_prefix_line:
  assumes "c \<notin> set p"
  shows "has_prefix (s @ c # t) p \<longleftrightarrow> has_prefix s p"
proof
  assume "has_prefix (s @ c # t) p"
  then obtain u where u: "s @ c # t = p @ u" by (auto simp: has_prefix_append)
  have "length p \<le> length s"
  proof (rule ccontr)
    assume "\<not> length p \<le> length s"
    then have "p ! length s = c" using u by (metis not_le nth_append nth_append_length)
    with \<open>\<not> length p \<le> length s\<close> assms show False by (metis not_le nth_mem)
  qed
  with u have "take (length p) s = p" by (metis append_eq_conv_conj take_append diff_is_0_eq' take0 append.right_neutral)
  then show "has_prefix s p" unfolding has_prefix_append by (metis append_take_drop_id)
next
  assume "has_prefix s p"
  then show "has_prefix (s @ c # t) p" by (auto simp: has_prefix_append)
qed

lemma expand_name_line:
  assumes "c \<notin> set name_action"
  shows "expand_name name (s @ c # t) = expand_name name s @ c # expand_name name t"
proof (induction name s rule: expand_name.induct)
  case (1 name s)
  show ?case
  proof (cases s)
    case Nil
    have "\<not> has_prefix (c # t) name_action"
      using has_prefix_line [OF assms, of "[]" t] by (simp add: has_prefix_append name_action_def)
    with Nil show ?thesis by (simp add: expand_name.simps)
  next
    case (Cons x xs)
    show ?thesis
    proof (cases "has_prefix s name_action")
      case True
      then obtain u where u: "s = name_action @ u" by (auto simp: has_prefix_append)
      then have "drop (length name_action) (s @ c # t) = drop (length name_action) s @ c # t" by simp
      with 1(1) [OF Cons True] True Cons show ?thesis
        using has_prefix_line [OF assms, of s t] by (simp add: expand_name.simps [of name "x # xs @ c # t"] expand_name.simps [of name "x # xs"])
    next
      case False
      with 1(2) [OF Cons False] Cons show ?thesis
        using has_prefix_line [OF assms, of s t] by (simp add: expand_name.simps [of name "x # xs @ c # t"] expand_name.simps [of name "x # xs"])
    qed
  qed
qed

lemma expand_name_unlines: "expand_name name (unlines ls) = unlines (map (expand_name name) ls)"
proof (induction ls)
  case Nil
  show ?case by (simp add: unlines_def expand_name.simps)
next
  case (Cons l ls)
  have "CHR 0x0A \<notin> set name_action" by (simp add: name_action_def)
  from expand_name_line [OF this, of name l "unlines ls"] Cons show ?case by (simp add: unlines_def)
qed

text \<open>A line that starts with the name: two blanks, the name, and its arguments, which hold no action.\<close>

lemma expand_command:
  assumes "expand_name name rest = rest"
  shows "expand_name name (''  {{.Name}} '' @ rest) = ''  '' @ name @ '' '' @ rest"
proof -
  have p: "has_prefix (''{{.Name}} '' @ rest) name_action" by (simp add: has_prefix_append name_action_def)
  then show ?thesis
    using assms
    by (simp add: expand_name.simps [of name "CHR '' '' # _"] expand_name.simps [of name "CHR ''{'' # _"]
        has_prefix_append name_action_def)
qed

section \<open>Properties\<close>

text \<open>The service the first example speaks of: it has a port named http.\<close>

definition http_service :: "unit object" where
  "http_service = Service \<lparr>svc_Type = ''ClusterIP'', svc_ClusterIP = ''10.0.0.1'', svc_ExternalName = [],
     svc_Selector = [], svc_Ports = [\<lparr>sp_Name = ''http'', sp_Port = 80, sp_Protocol = ''TCP''\<rparr>]\<rparr>"

text \<open>
  The commands of the help: what follows the name on the line, the target at its end, the object it
  needs, and the ports its comment announces.
\<close>

definition help_commands :: "(string \<times> string list \<times> unit object option \<times> port_pair list) list" where
  "help_commands =
     [(''service/my-service 8080:http'', [''service/my-service'', ''8080:http''], Some http_service,
        [\<lparr>LocalPort = 8080, RemotePort = 80, Protocol = ''tcp''\<rparr>]),
      (''-n kube-system deploy/kube-dns :53@udp'', [''deploy/kube-dns'', '':53@udp''], None,
        [\<lparr>LocalPort = 0, RemotePort = 53, Protocol = ''udp''\<rparr>]),
      (''--address 0.0.0.0 pod/my-pod 5353:53'', [''pod/my-pod'', ''5353:53''], None,
        [\<lparr>LocalPort = 5353, RemotePort = 53, Protocol = ''tcp''\<rparr>]),
      (''host/redis.cn-north-1.cache.amazonaws.com 6379'',
        [''host/redis.cn-north-1.cache.amazonaws.com'', ''6379''], None,
        [\<lparr>LocalPort = 6379, RemotePort = 6379, Protocol = ''tcp''\<rparr>]),
      (''ip/1.2.3.4 5000@tcp 6000@udp'', [''ip/1.2.3.4'', ''5000@tcp'', ''6000@udp''], None,
        [\<lparr>LocalPort = 5000, RemotePort = 5000, Protocol = ''tcp''\<rparr>,
         \<lparr>LocalPort = 6000, RemotePort = 6000, Protocol = ''udp''\<rparr>])]"

lemma help_command_words:
  "list_all (\<lambda>(rest, args, obj, pairs). args = drop (length (strings_fields rest) - length args) (strings_fields rest)) help_commands"
  unfolding help_commands_def by code_simp

lemma help_command_fields:
  "list_all (\<lambda>(rest, args, obj, pairs). validate_fields args = Ok ()) help_commands"
  unfolding help_commands_def by code_simp

lemma help_numbers:
  "parse_uint16 ''8080'' = Some 8080" "parse_uint16 ''0'' = Some 0" "parse_uint16 ''53'' = Some 53"
  "parse_uint16 ''5353'' = Some 5353" "parse_uint16 ''6379'' = Some 6379" "parse_uint16 ''5000'' = Some 5000"
  "parse_uint16 ''6000'' = Some 6000" "parse_uint16 ''http'' = None"
  by (simp_all add: parse_uint16_def is_digit_def digit_val_def)

lemma http_port: "Names (add_service_port \<lparr>sp_Name = ''http'', sp_Port = 80, sp_Protocol = ''TCP''\<rparr> no_ports) ''http''
    = Some \<lparr>pwp_Port = 80, pwp_Protocol = ''tcp''\<rparr>"
  by (simp add: add_service_port_def add_port_def no_ports_def to_lower_def lower_char_def Let_def char_of_eq_iff)

lemma help_arguments:
  "parse_arg None '':53@udp'' = Inr \<lparr>LocalPort = 0, RemotePort = 53, Protocol = ''udp''\<rparr>"
  "parse_arg None ''5353:53'' = Inr \<lparr>LocalPort = 5353, RemotePort = 53, Protocol = ''tcp''\<rparr>"
  "parse_arg None ''6379'' = Inr \<lparr>LocalPort = 6379, RemotePort = 6379, Protocol = ''tcp''\<rparr>"
  "parse_arg None ''5000@tcp'' = Inr \<lparr>LocalPort = 5000, RemotePort = 5000, Protocol = ''tcp''\<rparr>"
  "parse_arg None ''6000@udp'' = Inr \<lparr>LocalPort = 6000, RemotePort = 6000, Protocol = ''udp''\<rparr>"
  "parse_arg (Some (add_service_port \<lparr>sp_Name = ''http'', sp_Port = 80, sp_Protocol = ''TCP''\<rparr> no_ports)) ''8080:http''
    = Inr \<lparr>LocalPort = 8080, RemotePort = 80, Protocol = ''tcp''\<rparr>"
  unfolding parse_arg_def split_proto_def split_ports_def
  by (simp_all add: remote_port_def parse_port_def help_numbers const_protocol_defs http_port)

lemma help_command_ports:
  "list_all (\<lambda>(rest, args, obj, pairs). parse_ports (drop 1 args) obj = Inr pairs) help_commands"
  by (simp add: help_commands_def parse_ports_def http_service_def help_arguments)

text \<open>The lines with these commands, as they are printed.\<close>

lemma expand_nothing: "CHR ''{'' \<notin> set s \<Longrightarrow> expand_name name s = s"
proof (induction s)
  case (Cons c s)
  then have "\<not> has_prefix (c # s) name_action" by (auto simp: has_prefix_append name_action_def)
  with Cons show ?case by (simp add: expand_name.simps [of name "c # s"])
qed (simp add: expand_name.simps)

lemma help_command_lines:
  "list_all (\<lambda>(rest, args, obj, pairs). ''  {{.Name}} '' @ rest \<in> set example_lines) help_commands"
  unfolding help_commands_def by code_simp

lemma help_command_plain: "list_all (\<lambda>(rest, args, obj, pairs). CHR ''{'' \<notin> set rest) help_commands"
  unfolding help_commands_def by code_simp

lemma list_all_quad: "list_all (\<lambda>(a, b, c, d). P a b c d) xs \<longleftrightarrow> (\<forall>a b c d. (a, b, c, d) \<in> set xs \<longrightarrow> P a b c d)"
  by (induction xs) auto

lemma help_command_printed:
  assumes "(rest, args, obj, pairs) \<in> set help_commands"
  shows "''  '' @ name @ '' '' @ rest \<in> set (map (expand_name name) example_lines)"
proof -
  have "''  {{.Name}} '' @ rest \<in> set example_lines"
    using assms help_command_lines [unfolded list_all_quad] by blast
  then have "expand_name name (''  {{.Name}} '' @ rest) \<in> set (map (expand_name name) example_lines)"
    unfolding set_map by (rule imageI)
  moreover have "expand_name name rest = rest"
    using assms help_command_plain [unfolded list_all_quad] by (intro expand_nothing) blast
  ultimately show ?thesis by (simp only: expand_command)
qed

text \<open>
  The help is true: every command it shows (but for the one that has a patch in shell quotes) is a
  line of the printed text under the program's own name, its target passes \<open>validateFields\<close>, and the
  port parser reads from it the ports the comment above it announces.
\<close>

lemma help_examples_work:
  "\<exists>lines. example arg0 = unlines lines \<and>
     list_all (\<lambda>(rest, args, obj, pairs).
        ''  '' @ get_program_name arg0 @ '' '' @ rest \<in> set lines \<and>
        args = drop (length (strings_fields rest) - length args) (strings_fields rest) \<and>
        validate_fields args = Ok () \<and> parse_ports (drop 1 args) obj = Inr pairs) help_commands"
  unfolding example_def expand_name_unlines list_all_quad
  using help_command_printed help_command_words [unfolded list_all_quad] help_command_fields [unfolded list_all_quad]
    help_command_ports [unfolded list_all_quad]
  by blast

end
