(* ===== verification/Commands.thy ===== *)
theory Commands
  imports App Server Help
begin

text \<open>
  The commands as the main functions build them: \<open>main\<close> in \<open>cmd/client/main.go\<close>, \<open>newProxyCommand\<close> in
  \<open>command_proxy.go\<close>, \<open>AddFlags\<close> in \<open>pkg/kube/flags.go\<close>, \<open>main\<close> and \<open>options.run\<close> in \<open>cmd/server/main.go\<close>.
  Commands and their flags are data, in the order of their registration; the functions they run follow.
  Parsing the command line is the library's.
\<close>

section \<open>Flags\<close>

datatype flag_value = StringFlag string | IntFlag int | BoolFlag bool | DurationFlag int

record flag =
  fl_name :: string
  fl_shorthand :: string
  fl_default :: flag_value
  fl_usage :: string

text \<open>The values \<open>genericclioptions.NewConfigFlags\<close> gives the flags of the library that are used.\<close>

record config_flags =
  cf_KubeConfig :: string
  cf_Namespace :: string
  cf_Context :: string
  cf_ClusterName :: string

text \<open>\<open>AddFlags\<close>, on the flags of the set so far.\<close>

definition add_flags :: "config_flags \<Rightarrow> flag list \<Rightarrow> flag list" where
  "add_flags cf flags = flags @
     [\<lparr>fl_name = ''kubeconfig'', fl_shorthand = [], fl_default = StringFlag (cf_KubeConfig cf),
       fl_usage = ''Path to the kubeconfig file to use for CLI requests.''\<rparr>,
      \<lparr>fl_name = ''namespace'', fl_shorthand = ''n'', fl_default = StringFlag (cf_Namespace cf),
       fl_usage = ''If present, the namespace scope for this CLI request''\<rparr>,
      \<lparr>fl_name = ''context'', fl_shorthand = [], fl_default = StringFlag (cf_Context cf),
       fl_usage = ''The name of the kubeconfig context to use''\<rparr>,
      \<lparr>fl_name = ''cluster'', fl_shorthand = [], fl_default = StringFlag (cf_ClusterName cf),
       fl_usage = ''The name of the kubeconfig cluster to use''\<rparr>,
      \<lparr>fl_name = ''patch'', fl_shorthand = ''p'', fl_default = StringFlag [],
       fl_usage = ''The merge patch to be applied to the krelay-server pod.''\<rparr>,
      \<lparr>fl_name = ''patch-file'', fl_shorthand = [], fl_default = StringFlag [],
       fl_usage = ''A file containing a merge patch to be applied to the krelay-server pod.''\<rparr>,
      \<lparr>fl_name = ''server.image'', fl_shorthand = [],
       fl_default = StringFlag ''ghcr.io/knight42/krelay-server:v0.0.5'',
       fl_usage = ''The krelay-server image to use.''\<rparr>]"

text \<open>The flags of a line of the targets file, registered at the start of \<open>parseTargetsFile\<close>.\<close>

definition targets_flags :: "string \<Rightarrow> flag list" where
  "targets_flags defaultNamespace =
     [\<lparr>fl_name = ''namespace'', fl_shorthand = ''n'', fl_default = StringFlag defaultNamespace,
       fl_usage = ''namespace''\<rparr>,
      \<lparr>fl_name = ''address'', fl_shorthand = ''l'', fl_default = StringFlag defaultListenAddr,
       fl_usage = ''listen address''\<rparr>]"

section \<open>Commands\<close>

record command =
  cm_Use :: string
  cm_Short :: string
  cm_Long :: string
  cm_Example :: string
  cm_ArbitraryArgs :: bool
  cm_SilenceUsage :: bool
  cm_PersistentFlags :: "flag list"
  cm_Flags :: "flag list"
  cm_SortFlags :: bool

text \<open>The text of \<open>Long\<close>, by its lines.\<close>

definition root_long :: "string list" where \<open>
  root_long =
    [''This command is similar to "kubectl port-forward", but it also supports UDP and could forward data to a'',
     ''service, ip and hostname rather than only pods.'',
     [],
     ''Starting from version v0.1.2, it attempts to tunnel SPDY through websocket, in line with how "kubectl port-forward" works.'',
     ''This behavior can be disabled by setting the environment variable "KUBECTL_PORT_FORWARD_WEBSOCKETS" to "false".'']\<close>

fun newline_joined :: "string list \<Rightarrow> string" where
  "newline_joined [] = []"
| "newline_joined [l] = l"
| "newline_joined (l # ls) = l @ CHR 0x0A # newline_joined ls"

text \<open>The flags of the root command alone.\<close>

definition root_flags :: "flag list" where
  "root_flags =
     [\<lparr>fl_name = ''version'', fl_shorthand = ''V'', fl_default = BoolFlag False,
      fl_usage = ''Print version info and exit.''\<rparr>,
     \<lparr>fl_name = ''address'', fl_shorthand = ''l'', fl_default = StringFlag ''127.0.0.1'',
      fl_usage = ''Address to listen on. Only accepts IP addresses as a value.''\<rparr>,
     \<lparr>fl_name = ''file'', fl_shorthand = ''f'', fl_default = StringFlag [],
      fl_usage = ''Forward to the targets specified in the given file, with one target per line.''\<rparr>,
     \<lparr>fl_name = ''v'', fl_shorthand = ''v'', fl_default = IntFlag 3,
      fl_usage = ''Number for the log level verbosity. The bigger the more verbose.''\<rparr>]"

definition root_command :: "string \<Rightarrow> config_flags \<Rightarrow> command" where
  "root_command arg0 cf =
     \<lparr>cm_Use = get_program_name arg0 @
        '' TYPE/NAME [options] [LOCAL_PORT:]REMOTE_PORT[@PROTOCOL] [...[LOCAL_PORT_N:]REMOTE_PORT_N[@PROTOCOL_N]]'',
      cm_Short = [],
      cm_Long = newline_joined root_long,
      cm_Example = example arg0,
      cm_ArbitraryArgs = True,
      cm_SilenceUsage = True,
      cm_PersistentFlags = add_flags cf [],
      cm_Flags = root_flags,
      cm_SortFlags = False\<rparr>"

text \<open>\<open>newProxyCommand\<close>; the command becomes a child of the root.\<close>

definition new_proxy_command :: command where
  "new_proxy_command =
     \<lparr>cm_Use = ''proxy'', cm_Short = ''Run a SOCKS5 proxy server'', cm_Long = [], cm_Example = [],
      cm_ArbitraryArgs = False, cm_SilenceUsage = False, cm_PersistentFlags = [],
      cm_Flags = [\<lparr>fl_name = ''listen'', fl_shorthand = ''l'', fl_default = StringFlag ''127.0.0.1:1080'',
                   fl_usage = ''SOCKS5 proxy listen address''\<rparr>],
      cm_SortFlags = True\<rparr>"

definition server_command :: command where
  "server_command =
     \<lparr>cm_Use = ServerName, cm_Short = [], cm_Long = [], cm_Example = [],
      cm_ArbitraryArgs = False, cm_SilenceUsage = True, cm_PersistentFlags = [],
      cm_Flags =
        [\<lparr>fl_name = ''connect-timeout'', fl_shorthand = [], fl_default = DurationFlag (10 * 1000000000),
          fl_usage = ''Timeout for connecting to upstream''\<rparr>,
         \<lparr>fl_name = ''idle-timeout'', fl_shorthand = [], fl_default = DurationFlag (5 * 60 * 1000000000),
          fl_usage = ''Exit when no connections have been active for this duration after the last client disconnects. 0 disables.''\<rparr>,
         \<lparr>fl_name = ''v'', fl_shorthand = ''v'', fl_default = IntFlag 0,
          fl_usage = ''bogus flag to keep backward compatibility. This flag will be removed in the future.''\<rparr>],
      cm_SortFlags = True\<rparr>"

section \<open>What the root command runs\<close>

text \<open>The variables the release build sets.\<close>

record build_vars =
  bv_version :: string
  bv_commit :: string
  bv_date :: string

datatype root_action =
    PrintJSON "(string \<times> string) list"
  | SetKlogV string
  | SetLogLevel level
  | AppAction app_action

datatype root_error = EncodeFailed string | RunFailed app_error

text \<open>\<open>strconv.Itoa\<close> of an \<open>int\<close>.\<close>

definition itoa_int :: "int \<Rightarrow> string" where
  "itoa_int v = (if v < 0 then CHR ''-'' # itoa (nat (- v)) else itoa (nat v))"

text \<open>
  \<open>RunE\<close>: from the build's variables, the values of the flags and the arguments; the error of writing to
  the output is a parameter. The JSON text is given by its fields, in their order.
\<close>

definition root_run_e ::
  "build_vars \<Rightarrow> string option \<Rightarrow> ('sel, 'conn) app_env \<Rightarrow> bool \<Rightarrow> int \<Rightarrow> app_options \<Rightarrow> string list
   \<Rightarrow> (root_error, unit) outcome \<times> root_action list"
where
  "root_run_e build encodeErr env printVersion verbosity opts args =
     (if printVersion then
        ((case encodeErr of Some err \<Rightarrow> Error (EncodeFailed err) | None \<Rightarrow> Ok ()),
         [PrintJSON [(''Version'', bv_version build), (''BuildDate'', bv_date build),
                     (''Commit'', bv_commit build)]])
      else
        (case options_run env opts args of
           (r, acts) \<Rightarrow>
             ((case r of Panic \<Rightarrow> Panic | Error err \<Rightarrow> Error (RunFailed err) | Ok _ \<Rightarrow> Ok ()),
              SetKlogV (itoa_int verbosity) # SetLogLevel (map_verbosity_to_log_level verbosity) #
              map AppAction acts)))"

section \<open>What the server runs\<close>

text \<open>
  \<open>options.run\<close>: the listener, then the accept loop with one goroutine for each connection, whose results
  are listed in the order of the connections. The tracker is in \<open>Idle_Tracker\<close>.
\<close>

definition server_run ::
  "(string \<Rightarrow> string \<Rightarrow> string option) \<Rightarrow> 'up dialer \<Rightarrow> (stream \<times> sink) accepted list
   \<Rightarrow> run_result \<times> 'up handled list"
where
  "server_run listen dial evs =
     (case listen constProtocolTCP (''0.0.0.0:'' @ itoa ServerPort) of
        Some err \<Rightarrow> (RunError err, [])
      | None \<Rightarrow>
          (case accept_loop evs of (cs, r) \<Rightarrow> (r, map (\<lambda>(s, c). handle_conn dial s c) cs)))"

section \<open>The main functions\<close>

text \<open>
  What the parsing of the command line gives: a command to run with the values of its flags and its
  arguments. What cobra answers itself (an error of usage, the help) is a text.
\<close>

record proxy_options =
  po_flags :: kube_flags
  po_listenAddr :: string

datatype client_call =
    CallRoot bool int app_options "string list"
  | CallProxy proxy_options

record server_options =
  so_connectTimeout :: int
  so_idleTimeout :: int

text \<open>
  \<open>main\<close> drops what \<open>Execute\<close> returns, so the program exits with the status 0 whatever the command
  returned; only a panic gives 2. \<open>parse\<close> is the library's, on the commands that were built.
\<close>

definition client_main ::
  "(command \<Rightarrow> command list \<Rightarrow> string list \<Rightarrow> string + client_call) \<Rightarrow> config_flags \<Rightarrow> build_vars \<Rightarrow> string option
   \<Rightarrow> ('sel, 'conn) app_env \<Rightarrow> string \<Rightarrow> string list \<Rightarrow> root_action list \<times> nat"
where
  "client_main parse cf build encodeErr env arg0 args =
     (case parse (root_command arg0 cf) [new_proxy_command] args of
        Inl answer \<Rightarrow> ([], 0)
      | Inr (CallRoot printVersion verbosity opts rest) \<Rightarrow>
          (case root_run_e build encodeErr env printVersion verbosity opts rest of
             (r, acts) \<Rightarrow> (acts, if r = Panic then 2 else 0))
      | Inr (CallProxy opts) \<Rightarrow>
          (case proxy_run env (po_flags opts) (po_listenAddr opts) of
             (r, acts) \<Rightarrow> (map AppAction acts, if r = Panic then 2 else 0)))"

definition server_main ::
  "(command \<Rightarrow> string list \<Rightarrow> string + server_options) \<Rightarrow> (string \<Rightarrow> string \<Rightarrow> string option)
   \<Rightarrow> (int \<Rightarrow> 'up dialer) \<Rightarrow> (stream \<times> sink) accepted list \<Rightarrow> string list
   \<Rightarrow> (string + run_result) \<times> 'up handled list \<times> nat"
where
  "server_main parse listen dial evs args =
     (case parse server_command args of
        Inl answer \<Rightarrow> (Inl answer, [], 0)
      | Inr opts \<Rightarrow>
          (case server_run listen (dial (so_connectTimeout opts)) evs of
             (r, handled) \<Rightarrow> (Inr r, handled, 0)))"

text \<open>So a failure cannot be told from a success by the exit status.\<close>

lemma exit_status:
  "snd (client_main parse cf build encodeErr env arg0 args) \<in> {0, 2}"
  "fst (server_main parse_server listen dial evs args) = Inr (RunError err) \<Longrightarrow>
     snd (snd (server_main parse_server listen dial evs args)) = 0"
  by (auto simp: client_main_def server_main_def split: sum.splits client_call.splits prod.splits)

section \<open>Lemmas\<close>

text \<open>The events of a server that goes on: connections, and errors that are temporary.\<close>

fun goes_on :: "'c accepted \<Rightarrow> bool" where
  "goes_on (Accepted c) = True"
| "goes_on (AcceptError closed temporary msg) = (\<not> closed \<and> temporary)"

fun conn_of :: "'c accepted \<Rightarrow> 'c list" where
  "conn_of (Accepted c) = [c]"
| "conn_of (AcceptError closed temporary msg) = []"

lemma accept_loop_goes_on:
  "list_all goes_on evs \<Longrightarrow> accept_loop (evs @ evs') =
     (case accept_loop evs' of (cs, r) \<Rightarrow> (concat (map conn_of evs) @ cs, r))"
proof (induction evs)
  case (Cons ev evs)
  then show ?case by (cases ev) (auto split: prod.splits)
qed (auto split: prod.splits)

lemma server_run_conns:
  assumes "listen ''tcp'' (''0.0.0.0:'' @ itoa ServerPort) = None" and "list_all goes_on evs"
  shows "server_run listen dial (evs @ AcceptError True temporary msg # later) =
    (RunOK, map (\<lambda>(s, c). handle_conn dial s c) (concat (map conn_of evs)))"
  using assms by (simp add: server_run_def accept_loop_goes_on const_protocol_defs)

section \<open>Properties\<close>

text \<open>The flag sets a user can meet: what the library merges for a command are its own flags and those of its parents that persist.\<close>

definition flag_sets :: "string \<Rightarrow> config_flags \<Rightarrow> string \<Rightarrow> flag list list" where
  "flag_sets arg0 cf ns =
     (let root = root_command arg0 cf in
        [cm_Flags root @ cm_PersistentFlags root,
         cm_Flags new_proxy_command @ cm_PersistentFlags new_proxy_command @ cm_PersistentFlags root,
         cm_Flags server_command @ cm_PersistentFlags server_command,
         targets_flags ns])"

text \<open>What counts of a flag: its name and its shorthand.\<close>

definition flag_key :: "flag \<Rightarrow> string \<times> string" where
  "flag_key f = (fl_name f, fl_shorthand f)"

definition wf_keys :: "(string \<times> string) list \<Rightarrow> bool" where
  "wf_keys ks \<longleftrightarrow>
     distinct (map fst ks) \<and> distinct (filter (\<lambda>s. s \<noteq> []) (map snd ks)) \<and>
     list_all (\<lambda>(name, shorthand). name \<noteq> [] \<and> name \<noteq> ''help'' \<and> length shorthand \<le> 1 \<and> shorthand \<noteq> ''h'') ks"

definition wf_flags :: "flag list \<Rightarrow> bool" where
  "wf_flags fs \<longleftrightarrow> wf_keys (map flag_key fs)"

text \<open>A word of a command line that gives a flag, by its name or its shorthand.\<close>

definition gives_key :: "(string \<times> string) list \<Rightarrow> string \<Rightarrow> bool" where
  "gives_key ks w \<longleftrightarrow>
     list_ex (\<lambda>(name, shorthand). w = ''--'' @ name \<or> (shorthand \<noteq> [] \<and> w = ''-'' @ shorthand)) ks"

definition gives_flag :: "flag list \<Rightarrow> string \<Rightarrow> bool" where
  "gives_flag fs w \<longleftrightarrow> gives_key (map flag_key fs) w"

definition flag_words :: "string \<Rightarrow> string list" where
  "flag_words l = filter (\<lambda>w. has_prefix w ''-'' \<and> 1 < length w) (strings_fields l)"

text \<open>The keys of the sets, which do not depend on the defaults.\<close>

definition kube_keys :: "(string \<times> string) list" where
  "kube_keys = [(''kubeconfig'', []), (''namespace'', ''n''), (''context'', []), (''cluster'', []),
     (''patch'', ''p''), (''patch-file'', []), (''server.image'', [])]"

definition set_keys :: "(string \<times> string) list list" where
  "set_keys =
     [[(''version'', ''V''), (''address'', ''l''), (''file'', ''f''), (''v'', ''v'')] @ kube_keys,
      (''listen'', ''l'') # kube_keys,
      [(''connect-timeout'', []), (''idle-timeout'', []), (''v'', ''v'')],
      [(''namespace'', ''n''), (''address'', ''l'')]]"

lemma flag_sets_keys: "map (map flag_key) (flag_sets arg0 cf ns) = set_keys"
  by (simp add: flag_sets_def root_command_def root_flags_def new_proxy_command_def server_command_def targets_flags_def
      add_flags_def flag_key_def set_keys_def kube_keys_def Let_def)

lemma set_keys_wf: "list_all wf_keys set_keys"
  by code_simp

lemma example_flags_exist:
  "list_all (\<lambda>l. list_all (gives_key (set_keys ! (if has_prefix l ''  '' then 0 else 3))) (flag_words l)) example_lines"
  by code_simp

lemma flag_set_keys: "n < 4 \<Longrightarrow> map flag_key (flag_sets arg0 cf ns ! n) = set_keys ! n"
proof -
  assume "n < 4"
  then have "n < length (flag_sets arg0 cf ns)" by (simp add: flag_sets_def Let_def)
  then show ?thesis using flag_sets_keys [of arg0 cf ns] by (metis nth_map)
qed

text \<open>
  The flags of every command are consistent, so that registering them does not panic: in each set that
  is parsed together, with the flags a command inherits, no name and no shorthand is taken twice,
  shorthands are single letters, and none collides with the help flag. Every flag in the examples of the
  help exists: those of a command line are flags of the root command, those of the target lines flags of
  the targets file.
\<close>

lemma flags_wf:
  "list_all wf_flags (flag_sets arg0 cf ns) \<and>
   list_all (\<lambda>l. list_all (gives_flag (flag_sets arg0 cf ns ! (if has_prefix l ''  '' then 0 else 3))) (flag_words l))
     example_lines"
proof
  have "list_all wf_keys (map (map flag_key) (flag_sets arg0 cf ns))"
    unfolding flag_sets_keys by (rule set_keys_wf)
  then show "list_all wf_flags (flag_sets arg0 cf ns)"
    unfolding wf_flags_def by (simp add: list_all_iff)
next
  have "gives_flag (flag_sets arg0 cf ns ! (if b then 0 else 3)) = gives_key (set_keys ! (if b then 0 else 3))" for b
    by (rule ext) (simp add: gives_flag_def flag_set_keys)
  then show "list_all (\<lambda>l. list_all (gives_flag (flag_sets arg0 cf ns ! (if has_prefix l ''  '' then 0 else 3)))
      (flag_words l)) example_lines"
    using example_flags_exist by (simp only:)
qed

end
