(* ===== verification/Test_Helpers.thy ===== *)
theory Test_Helpers
  imports Net_IP
begin

text \<open>
  The helpers of the tests, \<open>pkg/testutils/tcp/tcp.go\<close>: a TLS server whose port the test wants to know,
  and a TCP server that hands the first connection it accepts to a function. The listeners come from
  Go's \<open>net\<close> and \<open>httptest\<close>: the address of the one and what \<open>Listen\<close> and \<open>Accept\<close> answer to the other are
  arguments. \<open>t.Fatal\<close> is an error.
\<close>

text \<open>
  The URL of an \<open>httptest\<close> server with TLS, and what \<open>net/url\<close> makes of it: the host, and its port, which
  is what follows the last colon when those are digits.
\<close>

definition tls_url :: "string \<Rightarrow> string" where
  "tls_url address = ''https://'' @ address"

definition url_host :: "string \<Rightarrow> string" where
  "url_host url = drop (length ''https://'') url"

definition url_port :: "string \<Rightarrow> string" where
  "url_port host =
     (let parts = split_on (CHR '':'') host; port = last parts in
        if 1 < length parts \<and> (\<forall>c \<in> set port. is_digit c) then port else [])"

definition new_tls_server :: "string \<Rightarrow> (string, string \<times> u16) outcome" where
  "new_tls_server address =
     (let url = tls_url address in
        case parse_uint16 (url_port (url_host url)) of
          None \<Rightarrow> Error (url_port (url_host url))
        | Some port \<Rightarrow> Ok (url, port))"

text \<open>What the goroutine does: \<open>t.Errorf\<close>, or the handler on the connection; it accepts no other one.\<close>

datatype 'c accepted_by = AcceptErrorf string | Handler 'c

definition new_tcp_server ::
  "(string \<Rightarrow> string \<Rightarrow> string + 'l) \<Rightarrow> ('l \<Rightarrow> string + 'c) \<Rightarrow> (string, 'l \<times> 'c accepted_by) outcome"
where
  "new_tcp_server listen accept =
     (case listen ''tcp'' ''127.0.0.1:0'' of
        Inl err \<Rightarrow> Error err
      | Inr l \<Rightarrow> Ok (l, case accept l of Inl err \<Rightarrow> AcceptErrorf (''accept: '' @ err) | Inr c \<Rightarrow> Handler c))"

text \<open>The port that is returned is the one the server listens on.\<close>

lemma new_tls_server_port:
  assumes "CHR '':'' \<notin> set host"
  shows "new_tls_server (join_host_port host (itoa (unat port))) =
    Ok (tls_url (join_host_port host (itoa (unat port))), port)"
proof -
  have "split_on (CHR '':'') (host @ '':'' @ itoa (unat port)) = [host, itoa (unat port)]"
    using split_on_sep [of "CHR '':''" host "itoa (unat port)"] assms not_digit_itoa [of "CHR '':''" "unat port"]
    by (simp add: is_digit_def)
  then have "url_port (host @ '':'' @ itoa (unat port)) = itoa (unat port)"
    using itoa_digits by (auto simp: url_port_def)
  then show ?thesis
    using assms by (simp add: new_tls_server_def tls_url_def url_host_def join_host_port_def Let_def)
qed

end
