(* ===== verification/Unit_Tests.thy ===== *)
theory Unit_Tests
  imports Ports Targets Udp Client
begin

text \<open>
  The repository's own tests, on the model: the tables of \<open>parser_test.go\<close>, \<open>addr_test.go\<close>,
  \<open>header_test.go\<close>, \<open>utils_test.go\<close> (of \<open>cmd/client\<close>), and the tests of \<open>write_test.go\<close>, \<open>udp_test.go\<close> and
  \<open>heartbeat_test.go\<close> that do not need a network. Each lemma bears the name of its test, and says that
  the definitions give the values the test expects of the code.
\<close>

section \<open>pkg/ports\<close>

lemma to_lower_protocols [simp]: "to_lower ''TCP'' = ''tcp''" "to_lower ''UDP'' = ''udp''"
  by code_simp+

lemmas object_ports_simps =
  get_ports_from_pod_spec_def add_container_port_def add_service_port_def add_port_def no_ports_def fun_upd_twist Let_def

abbreviation port_of :: "string \<Rightarrow> 32 word \<Rightarrow> string \<Rightarrow> container_port" where
  "port_of name port proto \<equiv> \<lparr>cp_Name = name, cp_ContainerPort = port, cp_Protocol = proto\<rparr>"

abbreviation test_spec :: "container_port list list \<Rightarrow> pod_spec" where
  "test_spec ports \<equiv> \<lparr>ps_InitContainers = [], ps_Containers = map (\<lambda>ps. \<lparr>ct_Ports = ps\<rparr>) ports\<rparr>"

abbreviation test_service :: "service_port list \<Rightarrow> service" where
  "test_service ports \<equiv> \<lparr>svc_Type = [], svc_ClusterIP = [], svc_ExternalName = [], svc_Selector = [], svc_Ports = ports\<rparr>"

abbreviation test_workload :: "container_port list list \<Rightarrow> unit workload" where
  "test_workload ports \<equiv> \<lparr>wl_Selector = (), wl_Template = test_spec ports\<rparr>"

abbreviation test_pod :: "container_port list list \<Rightarrow> pod" where
  "test_pod ports \<equiv>
     \<lparr>pod_Name = [], pod_CreationTimestamp = 0, pod_Deleting = False, pod_Spec = test_spec ports, pod_Phase = [],
      pod_PodIP = [], pod_ContainersRunning = []\<rparr>"

abbreviation proto_port :: "u16 \<Rightarrow> string \<Rightarrow> port_with_protocol" where
  "proto_port port proto \<equiv> \<lparr>pwp_Port = port, pwp_Protocol = proto\<rparr>"

abbreviation pair :: "u16 \<Rightarrow> u16 \<Rightarrow> string \<Rightarrow> port_pair" where
  "pair l r proto \<equiv> \<lparr>LocalPort = l, RemotePort = r, Protocol = proto\<rparr>"

text \<open>Containers count, init containers do not.\<close>

lemma TestGetPortsFromPodSpec:
  "get_ports_from_pod_spec \<lparr>ps_InitContainers = [\<lparr>ct_Ports = [port_of ''test'' 123 '''']\<rparr>], ps_Containers = []\<rparr> =
     \<lparr>Names = Map.empty, Protocols = Map.empty\<rparr>"
  "get_ports_from_pod_spec
     (test_spec [[port_of ''tcp-dns'' 53 ''TCP'', port_of ''test'' 80 ''TCP''], [port_of ''udp-dns'' 53 ''UDP'']]) =
     \<lparr>Names = [''tcp-dns'' \<mapsto> proto_port 53 ''tcp'', ''udp-dns'' \<mapsto> proto_port 53 ''udp'', ''test'' \<mapsto> proto_port 80 ''tcp''],
      Protocols = [53 \<mapsto> [''tcp'', ''udp''], 80 \<mapsto> [''tcp'']]\<rparr>"
  by (simp_all add: object_ports_simps)

lemma TestGetPortsFromObject:
  "get_ports_from_object (Service (test_service
     [\<lparr>sp_Name = ''tcp-dns'', sp_Port = 53, sp_Protocol = ''TCP''\<rparr>, \<lparr>sp_Name = ''udp-dns'', sp_Port = 53, sp_Protocol = ''UDP''\<rparr>])) =
     Inr \<lparr>Names = [''tcp-dns'' \<mapsto> proto_port 53 ''tcp'', ''udp-dns'' \<mapsto> proto_port 53 ''udp''],
          Protocols = [53 \<mapsto> [''tcp'', ''udp'']]\<rparr>"
  "get_ports_from_object (Deployment (test_workload
     [[port_of ''tcp-dns'' 53 ''TCP'', port_of ''udp-dns'' 53 ''UDP''], [port_of ''test'' 8080 ''TCP'']])) =
     Inr \<lparr>Names = [''tcp-dns'' \<mapsto> proto_port 53 ''tcp'', ''udp-dns'' \<mapsto> proto_port 53 ''udp'', ''test'' \<mapsto> proto_port 8080 ''tcp''],
          Protocols = [53 \<mapsto> [''tcp'', ''udp''], 8080 \<mapsto> [''tcp'']]\<rparr>"
  by (simp_all add: object_ports_simps)

text \<open>The pieces of the arguments of \<open>TestParsePorts\<close>.\<close>

lemma test_arguments [simp]:
  "split_proto ''5353@udp'' = Inr (''udp'', ''5353'')" "split_proto ''5353@tcp'' = Inr (''tcp'', ''5353'')"
  "split_proto '':8080'' = Inr ([], '':8080'')" "split_proto ''8443:443@tcp'' = Inr (''tcp'', ''8443:443'')"
  "split_proto ''8080@sctp'' = Inl (UnknownProtocol ''sctp'')"
  "split_ports ''5353'' = Inr ([], ''5353'')" "split_ports '':8080'' = Inr (''0'', ''8080'')"
  "split_ports ''8443:443'' = Inr (''8443'', ''443'')" "split_ports '':tcp-dns'' = Inr (''0'', ''tcp-dns'')"
  "split_ports ''5353:udp-dns'' = Inr (''5353'', ''udp-dns'')" "split_ports ''5353:53'' = Inr (''5353'', ''53'')"
  "split_ports ''foo:123'' = Inr (''foo'', ''123'')" "split_ports ''1:2:3'' = Inl (InvalidPortFormat ''1:2:3'')"
  "split_ports ''udp-dns'' = Inr ([], ''udp-dns'')" "split_ports ''8080'' = Inr ([], ''8080'')"
  "split_ports ''foo'' = Inr ([], ''foo'')" "split_ports ''no-such-port'' = Inr ([], ''no-such-port'')"
  by code_simp+

lemma test_numbers [simp]:
  "parse_uint16 ''0'' = Some 0" "parse_uint16 ''53'' = Some 53" "parse_uint16 ''443'' = Some 443"
  "parse_uint16 ''123'' = Some 123" "parse_uint16 ''5353'' = Some 5353" "parse_uint16 ''8080'' = Some 8080"
  "parse_uint16 ''8443'' = Some 8443" "parse_uint16 ''foo'' = None" "parse_uint16 ''udp-dns'' = None"
  "parse_uint16 ''tcp-dns'' = None" "parse_uint16 ''no-such-port'' = None"
  by (simp_all add: parse_uint16_def is_digit_def digit_val_def)

lemmas parse_test_simps = parse_ports_def parse_arg_def remote_port_def parse_port_def const_protocol_defs

lemma TestParsePorts_simple:
  "parse_ports [''5353@udp'', '':8080'', ''8443:443@tcp''] (None :: unit object option) =
     Inr [pair 5353 5353 ''udp'', pair 0 8080 ''tcp'', pair 8443 443 ''tcp'']"
  by (simp add: parse_test_simps)

lemma TestParsePorts_names:
  "parse_ports [''udp-dns'', '':tcp-dns'', ''5353:udp-dns'']
     (Some (Service (test_service [\<lparr>sp_Name = ''udp-dns'', sp_Port = 53, sp_Protocol = ''UDP''\<rparr>,
        \<lparr>sp_Name = ''tcp-dns'', sp_Port = 53, sp_Protocol = ''TCP''\<rparr>])) :: unit object option) =
     Inr [pair 53 53 ''udp'', pair 0 53 ''tcp'', pair 5353 53 ''udp'']"
  by (simp add: parse_test_simps object_ports_simps)

lemma TestParsePorts_protocols:
  "parse_ports [''5353:53'', ''8080'']
     (Some (StatefulSet (test_workload [[port_of ''tcp'' 8080 ''TCP'', port_of ''udp'' 53 ''UDP'']]))) =
     Inr [pair 5353 53 ''udp'', pair 8080 8080 ''tcp'']"
  "parse_ports [''5353@tcp''] (Some (DaemonSet (test_workload [[port_of ''udp'' 53 ''UDP'']]))) =
     Inr [pair 5353 5353 ''tcp'']"
  by (simp_all add: parse_test_simps object_ports_simps)

lemma TestParsePorts_errors:
  "parse_ports [''8080''] (Some (Pod (test_pod [[port_of ''tcp'' 8080 ''TCP'', port_of ''udp'' 8080 ''UDP'']])) :: unit object option) =
     Inl (AmbiguousProtocol 8080 [''tcp'', ''udp''])"
  "parse_ports [''no-such-port''] (Some (Deployment (test_workload []))) = Inl (PortNameNotFound ''no-such-port'')"
  "parse_ports [''8080@sctp''] (None :: unit object option) = Inl (UnknownProtocol ''sctp'')"
  "parse_ports [''1:2:3''] (None :: unit object option) = Inl (InvalidPortFormat ''1:2:3'')"
  "parse_ports [''foo''] (None :: unit object option) = Inl (InvalidPort ''foo'')"
  "parse_ports [''foo:123''] (None :: unit object option) = Inl (InvalidPort ''foo'')"
  by (simp_all add: parse_test_simps object_ports_simps)

section \<open>pkg/xnet and pkg/xio\<close>

text \<open>The two addresses, and their texts.\<close>

lemma test_ipv4: "v4_string [192, 168, 1, 1] = ''192.168.1.1''"
  by (simp add: v4_string_def itoa.simps digit_char_def char_of_eq_iff)

abbreviation all_nodes :: ip where
  "all_nodes \<equiv> [0xff, 0x02, 0, 0, 0, 0, 0, 0, 0, 0, 0, 0, 0, 0, 0, 0x01]"

lemma test_ipv6_string: "ip_string all_nodes = ''ff02::1''"
proof -
  have "v6_groups all_nodes = [0xff02, 0, 0, 0, 0, 0, 0, 1]" by (simp add: v6_groups_def upt_rec)
  moreover have "zero_run [0xff02, 0, 0, 0, 0, 0, 0, 1] = (1, 7)" by (simp add: zero_run_def upt_rec longer_run_def)
  moreover have "v6_out [0xff02, 0, 0, 0, 0, 0, 0, 1] (1, 7) 0 = ''ff02::1''" by (simp add: v6_out.simps hex_string.simps)
  ultimately show ?thesis by (simp add: ip_string_def to4_def v6_string_def Let_def)
qed

lemma test_ipv6: "addr_from_ip ''ff02::1'' = Inr \<lparr>a_typ = AddrTypeIP, a_data = all_nodes\<rparr>"
proof -
  have "v6_loop [] None ''ff02::1'' = Some ([0xff, 0x02, 0, 1], Some 2, [])" by (simp add: v6_loop.simps hex_val_def)
  moreover have "ip_form ''ff02::1'' = Some (CHR '':'')" by code_simp
  ultimately have "parse_ip ''ff02::1'' = Some ([0xff, 0x02] @ replicate 12 0 @ [0, 1])"
    by (simp add: parse_ip_def parse_ipv6_def v6_finish_def)
  then show ?thesis by (simp add: addr_from_ip_def to4_def numeral_eq_Suc)
qed

lemma TestAddrSerialization:
  "addr_marshal (addr_from_bytes AddrTypeIP [192, 168, 1, 1]) = [192, 168, 1, 1]"
  "addr_string (addr_from_bytes AddrTypeIP [192, 168, 1, 1]) = ''192.168.1.1''"
  "addr_marshal (addr_from_bytes AddrTypeIP all_nodes) = all_nodes"
  "addr_string (addr_from_bytes AddrTypeIP all_nodes) = ''ff02::1''"
  "addr_marshal (addr_from_host ''www.google.com'') = bytes_of ''www.google.com''"
  "addr_string (addr_from_host ''www.google.com'') = ''www.google.com''"
  "addr_from_ip ''192.168.1.1'' = Inr (addr_from_bytes AddrTypeIP [192, 168, 1, 1])"
  "addr_from_ip ''ff02::1'' = Inr (addr_from_bytes AddrTypeIP all_nodes)"
proof -
  show "addr_from_ip ''192.168.1.1'' = Inr (addr_from_bytes AddrTypeIP [192, 168, 1, 1])"
    using addr_from_ip_v4 [of "[192, 168, 1, 1]"] by (simp add: test_ipv4 addr_from_bytes_def)
  show "addr_string (addr_from_host ''www.google.com'') = ''www.google.com''" by (rule addr_string_host)
  show "addr_marshal (addr_from_host ''www.google.com'') = bytes_of ''www.google.com''"
    by (simp only: addr_marshal_def addr_from_host_def addr.select_convs)
qed (simp_all add: addr_marshal_def addr_string_def addr_from_bytes_def ip_string_v4 test_ipv4 test_ipv6_string test_ipv6)

abbreviation test_header :: "byte \<Rightarrow> byte \<Rightarrow> u16 \<Rightarrow> addr \<Rightarrow> header" where
  "test_header version proto port a \<equiv>
     \<lparr>hVersion = version, hRequestID = ''00000'', hProtocol = proto, hPort = port, hAddr = a\<rparr>"

abbreviation host_bytes :: "byte list" where
  "host_bytes \<equiv> [1, 0, 0x11, 0x30, 0x30, 0x30, 0x30, 0x30, 0, 0, 80, 1, 97, 46, 99, 111, 109]"

abbreviation ipv4_bytes :: "byte list" where
  "ipv4_bytes \<equiv> [0, 0, 0x10, 0x30, 0x30, 0x30, 0x30, 0x30, 1, 0, 53, 0, 192, 168, 1, 1]"

abbreviation ipv6_bytes :: "byte list" where
  "ipv6_bytes \<equiv> [0, 0, 0x1c, 0x30, 0x30, 0x30, 0x30, 0x30, 0, 0x1f, 0x90, 0,
     0, 0, 0, 0, 0, 0, 0, 0, 0, 0, 0, 0, 0, 0, 0, 1]"

abbreviation loopback :: ip where
  "loopback \<equiv> [0, 0, 0, 0, 0, 0, 0, 0, 0, 0, 0, 0, 0, 0, 0, 1]"

lemma TestHeaderMarshal:
  "header_marshal (test_header 1 ProtocolTCP 80 (addr_from_host ''a.com'')) = host_bytes"
  "header_marshal (test_header 0 ProtocolUDP 53 (addr_from_bytes AddrTypeIP [192, 168, 1, 1])) = ipv4_bytes"
  "header_marshal (test_header 0 ProtocolTCP 8080 (addr_from_bytes AddrTypeIP loopback)) = ipv6_bytes"
  by code_simp+

abbreviation empty_header :: header where
  "empty_header \<equiv> \<lparr>hVersion = 0, hRequestID = [], hProtocol = 0, hPort = 0, hAddr = zero_addr\<rparr>"

lemma TestHeaderUnmarshal:
  "header_from_reader buffer_read_full empty_header host_bytes =
     (test_header 1 ProtocolTCP 80 (addr_from_host ''a.com''), None, [])"
  "header_from_reader buffer_read_full empty_header ipv4_bytes =
     (test_header 0 ProtocolUDP 53 (addr_from_bytes AddrTypeIP [192, 168, 1, 1]), None, [])"
  "header_from_reader buffer_read_full empty_header ipv6_bytes =
     (test_header 0 ProtocolTCP 8080 (addr_from_bytes AddrTypeIP loopback), None, [])"
  by code_simp+

text \<open>The fake writer takes at most two bytes at a time.\<close>

definition fake_write :: "byte list \<Rightarrow> byte list \<Rightarrow> nat \<times> io_error option \<times> byte list" where
  "fake_write buf p = (let size = min (length p) 2 in (size, None, buf @ take size p))"

interpretation fake: writer fake_write "\<lambda>buf. buf"
  by unfold_locales (auto simp: fake_write_def Let_def)

lemma TestWriteFull:
  "write_full fake_write [] (bytes_of ''0123456789'') = Some (10, None, bytes_of ''0123456789'')"
  by (simp add: write_full_def write_loop.simps fake_write_def bytes_of_def)

lemma TestReadUDPFromStream:
  "read_udp_from_stream buffer_read_full 10 [0x00, 0x03, 0x30, 0x31, 0x32] = Some ([0x30, 0x31, 0x32], None, [])"
  by code_simp

lemma TestUDPConn:
  "udp_conn_read (replicate 10 0) [0x00] None = ([0, 1, 0] @ replicate 7 0, 3, None)"
  "udp_conn_read (replicate 10 0) [1, 2, 3] None = ([0, 3, 1, 2, 3] @ replicate 5 0, 5, None)"
  by code_simp+

section \<open>cmd/client\<close>

text \<open>
  The lines of \<open>TestParseTargetsFile\<close> without flags, for which \<open>pflag\<close> gives back the fields, and the one
  with \<open>-n\<close> before two fields, which it takes as the flag and its value.
\<close>

definition no_flags :: flag_parser where
  "no_flags flds vals =
     (if 2 \<le> length flds \<and> flds ! 0 = ''-n'' then (None, drop 2 flds, (flds ! 1, snd vals)) else (None, flds, vals))"

abbreviation test_target :: "string \<Rightarrow> string list \<Rightarrow> target" where
  "test_target res ports \<equiv> \<lparr>t_resource = res, t_ports = ports, t_namespace = [], t_lisAddr = ''127.0.0.1''\<rparr>"

lemma TestParseTargetsFile_normal:
  "parse_targets_file no_flags ''bar 53@udp 53@tcp'' [] = Ok [test_target ''bar'' [''53@udp'', ''53@tcp'']]"
proof -
  have "raw_lines ''bar 53@udp 53@tcp'' = [''bar 53@udp 53@tcp'']" by code_simp
  then have l: "scan_lines ''bar 53@udp 53@tcp'' = [''bar 53@udp 53@tcp'']"
    by (simp add: scan_lines_def max_token_def drop_cr_def)
  show ?thesis unfolding parse_targets_file_def l by code_simp
qed

text \<open>The lines of the case with comments and empty lines.\<close>

abbreviation commented_lines :: "string list" where
  "commented_lines \<equiv> [[], ''# comment'', ''ip/1.2.3.4 8080'', ''// comment'', ''host/google.com 443@tcp'', [],
     ''pod/foo 8000 8001'']"

lemma TestParseTargetsFile_comments:
  "targets_loop no_flags [] vals 0 [] commented_lines =
     Ok [test_target ''ip/1.2.3.4'' [''8080''], test_target ''host/google.com'' [''443@tcp''],
         test_target ''pod/foo'' [''8000'', ''8001'']]"
  by code_simp

lemma TestParseTargetsFile_errors:
  "targets_loop no_flags [] vals 0 [] [''ip/1.2.3 8080''] = Error (FieldsError 1 (InvalidIPAddress ''1.2.3''))"
  "targets_loop no_flags [] vals 0 [] [''-n foo 8080''] = Error (FieldsError 1 InvalidSyntax)"
  by code_simp+

text \<open>
  The connections of the heartbeat tests: closed at once; open for two ticks; one that makes no stream;
  one whose streams cannot be written to. In each case the loop returns.
\<close>

lemma TestSendHeartbeats:
  "send_heartbeats (ConnClosed # evs) = Some []"
  "send_heartbeats [HeartbeatTick i (Inr fresh_sink), HeartbeatTick i (Inr fresh_sink), ConnClosed] =
     Some (replicate 2 (take_in (length (header_marshal (heartbeat_header i))) (header_marshal (heartbeat_header i)) fresh_sink))"
  "send_heartbeats (HeartbeatTick i (Inl CreateErrorStream) # evs) = Some []"
  "send_heartbeats (HeartbeatTick i (Inr (fresh_sink\<lparr>wr_script := [Refuse 0 ErrShortWrite]\<rparr>)) # evs) =
     Some [take_in 0 (header_marshal (heartbeat_header i)) (fresh_sink\<lparr>wr_script := [Refuse 0 ErrShortWrite]\<rparr>)]"
  by (simp_all add: write_header_open fresh_sink_def numeral_2_eq_2 write_full_def write_loop.simps sink_write_def
      Let_def header_marshal_not_Nil take_in_def)

end
