(* ===== verification/Spec2Isabelle.thy ===== *)
theory Spec2Isabelle
  imports Keepalive Addr_Watch Buffers Linger Closing Udp_Tunnel Socks5_Server Commands Test_Helpers Unit_Tests
begin

text \<open>
  krelay forwards TCP and UDP ports of the local machine to destinations that are reachable from a
  Kubernetes cluster. Two programs cooperate. The client (\<open>cmd/client\<close>) resolves its targets to
  addresses, binds local listeners, starts the server as a Job and opens one multiplexed stream
  connection to its pod; every local connection, every UDP peer and every heartbeat becomes a stream of
  that connection. The server (\<open>cmd/server\<close>) reads a header from each stream, dials the destination the
  header names, answers with one byte, and copies data in both directions. This library models both
  programs as they are written and proves what makes them correct. Every definition that models code
  keeps the name of the function or type it comes from, in lower case with underscores.

  The theories, in the order of their imports, and the code they model:

  \<^item> \<open>Prelude\<close>: bytes, Go strings, big-endian integers (\<open>encoding/binary\<close>), results that are an error or
    a value, and outcomes that can also be a panic.
  \<^item> \<open>Go_Strings\<close>, \<open>Go_IO\<close>, \<open>Net_IP\<close>: what the program uses of Go's \<open>strings\<close>, \<open>strconv\<close>, \<open>bufio\<close>, \<open>io\<close>
    and \<open>net\<close>. \<open>Go_IO\<close> declares the two interfaces of input and output as locales, \<open>full_reader\<close> (what
    decoders need of \<open>io.ReadFull\<close>) and \<open>writer\<close> (what \<open>WriteFull\<close> needs of an \<open>io.Writer\<close>), and
    interprets them on connections.
  \<^item> \<open>Xio\<close> (\<open>pkg/xio/write.go\<close>): \<open>WriteFull\<close>, a partial function, with the proof that it returns.
  \<^item> \<open>Wire\<close> (\<open>pkg/xnet/addr.go\<close>, \<open>header.go\<close>, \<open>ack.go\<close>, \<open>proto.go\<close>): addresses, the request header and the
    acknowledgement. Round trip, the converse, every error, the wrap-around of the length field.
  \<^item> \<open>Udp\<close> (\<open>pkg/xnet/udp.go\<close>): frames, and the two copying loops of \<open>ProxyUDP\<close> as functions of what their
    connections deliver.
  \<^item> \<open>Pipes\<close>: what the concurrent components share: the locales \<open>pipe\<close> (a system that passes bytes on in
    order) and \<open>pipeline\<close> (two of them with a wire between, which is a pipe again), \<open>leads\<close>, that some
    run leads to something, and \<open>comes_to\<close>, that every run does, with its rule for a measure.
  \<^item> \<open>Buffers\<close> (\<open>newBufferPool\<close>, and \<open>tcpPool\<close> and \<open>udpPool\<close> in \<open>pkg/xnet\<close>): the goroutines that copy through
    pooled buffers, over one memory they share: no two have the same buffer, and each writes what it read.
  \<^item> \<open>K8s_Objects\<close>: the fields of the API objects the program reads.
  \<^item> \<open>Ports\<close> (\<open>pkg/ports\<close>): the parser of \<open>[LOCAL:]REMOTE[@PROTOCOL]\<close>, its language, and the port maps
    of an object.
  \<^item> \<open>Targets\<close> (\<open>cmd/client/utils.go\<close>): \<open>validateFields\<close> and \<open>parseTargetsFile\<close>.
  \<^item> \<open>Socks5\<close> (\<open>socks5Handshake\<close> in \<open>cmd/client/command_proxy.go\<close>, \<open>bytesReader\<close> and \<open>copyBuffer\<close> in
    \<open>utils.go\<close>): the handshake over one shared buffer, refining a specification on byte lists.
  \<^item> \<open>Socks5_Server\<close> (\<open>handleSOCKS5Conn\<close> and \<open>runSOCKS5Server\<close> in the same file).
  \<^item> \<open>Alarm\<close> (\<open>pkg/alarm\<close>), \<open>Idle_Tracker\<close> (\<open>idleTracker\<close> and the accept loop of \<open>cmd/server/main.go\<close>),
    \<open>Proxy\<close> (\<open>ProxyTCP\<close> in \<open>pkg/xnet/tcp.go\<close>), \<open>Udp_Proxy\<close> (the whole of \<open>ProxyUDP\<close>, over \<open>Alarm\<close>): concurrent
    code, as step relations with invariants. \<open>Idle_Tracker\<close> also has the monitor with its ticker, as a
    function of what it loads at each tick. A goroutine of it may be held up between its reading of the
    clock and its store; the bound of that time, \<open>lag\<close>, is a parameter.
  \<^item> \<open>Linger\<close>: \<open>Proxy\<close> with the bytes that were written and not delivered yet, and what \<open>SetLinger(0)\<close> makes
    of them when the connection is closed.
  \<^item> \<open>Remote_Addr\<close> (\<open>pkg/remoteaddr\<close>, \<open>addrGetterForObject\<close>): the getters, behind the locale
    \<open>address_getter\<close>, and the watch that follows the newest running pod. \<open>Addr_Watch\<close>: the watcher and the
    callers of \<open>Get\<close> with their lock, as a step relation that implements that watch.
  \<^item> \<open>Kube\<close> (\<open>pkg/kube\<close>): building, waiting for, dialling and removing the server job.
  \<^item> \<open>Server\<close> (\<open>cmd/server/main.go\<close>): one connection (\<open>handleConn\<close>) and the result of the accept loop.
  \<^item> \<open>Client\<close> (\<open>tcp.go\<close>, \<open>udp.go\<close>, \<open>utils.go\<close> of \<open>cmd/client\<close>): \<open>createStream\<close>, header and
    acknowledgement, the datagram loops of \<open>handleUDPConn\<close>, heartbeats, what is made of the error stream.
  \<^item> \<open>Keepalive\<close>: \<open>sendHeartbeats\<close> with its ticker next to the tracker of \<open>Idle_Tracker\<close>, under one clock: how
    long a server lives while its client sends heartbeats, and after they stop.
  \<^item> \<open>Tcp_Request\<close> (\<open>handleTCPConn\<close> in \<open>tcp.go\<close> with the goroutine of \<open>createStream\<close>): a TCP connection of the
    client from its acceptance to its end, as a step relation.
  \<^item> \<open>Tunnel\<close>: \<open>Tcp_Request\<close> and \<open>Proxy\<close> with the stream between them, two pipelines. \<open>Closing\<close>: what
    it comes to by itself: what the application sends is written to the destination, and once one end has
    closed the tunnel ends on both sides. Which writes are accepted, and when, is a parameter there.
  \<^item> \<open>Udp_Request\<close> (\<open>handleUDPConn\<close> in \<open>udp.go\<close>): a UDP client in full, as a step relation that refines the
    handlers of \<open>Forwarder\<close>. \<open>Udp_Tunnel\<close>: it and \<open>Udp_Proxy\<close> with the stream between them.
  \<^item> \<open>Forwarder\<close> (\<open>forwarder.go\<close>, \<open>conntrack.go\<close>): the table of UDP clients behind the locale
    \<open>client_table\<close>, the TCP loop as a function, the UDP loop with its handlers as a step relation.
  \<^item> \<open>App\<close> (\<open>main.go\<close>, \<open>command_proxy.go\<close>): the two commands as traces of what they do to the outside.
  \<^item> \<open>Log\<close>, \<open>Help\<close> (\<open>pkg/slog\<close>, \<open>template.go\<close>): log levels and attributes, the program's name, the help text.
  \<^item> \<open>Commands\<close> (the main functions, \<open>newProxyCommand\<close>, \<open>AddFlags\<close>): the commands and their flags as data,
    what the root command and the server run, the exit status.
  \<^item> \<open>Test_Helpers\<close> (\<open>pkg/testutils\<close>): the helpers of the repository's tests. \<open>Unit_Tests\<close>: the tables of those
    tests that need no network or goroutines, evaluated on the model: it gives what they expect of the code.
  \<^item> this theory: the properties that span both programs.

  How state and effects are represented. The incoming side of a connection is a script of chunks and
  failures, what its \<open>Read\<close> calls will meet; theorems quantify over it, so they hold for every way the
  network can cut or delay the data. The outgoing side records the bytes it accepted and the packets they
  came in, and has a script of short and failing writes. Errors are values. An index out of range and a
  nil pointer are the outcome \<^const>\<open>Panic\<close>, or \<^const>\<open>None\<close> where nothing else can go wrong. Requests
  that change the cluster are actions of a trace. Where goroutines share state, each of their atomic
  operations is one step of an inductive relation, and the clock is advanced by a step of its own.

  In a step relation of a program with peers the flag of a step says that it is the program's own;
  termination is stated with \<open>comes_to\<close>: whichever of its own steps the program takes, it reaches the end,
  without the peers, the network or the clock, and it is never stuck before. Each such proof has a
  measure, the rank of the state, that every own step lowers. A write takes as long as the peer lets it
  take: \<open>Udp_Proxy\<close> and \<open>Udp_Request\<close> make its outcome a step of the environment, and \<open>Closing\<close> lets a copy
  write only when the write is accepted, so its theorems say that the tunnel ends, or a copy waits in a
  write that is not (\<open>held_up\<close>). In \<open>Proxy\<close> and \<open>Tcp_Request\<close> alone the copies write as
  own steps, so what is said of all runs there is said of those in which the writes are accepted.

  Parameters of the model, for code that is not part of the repository: the parser of \<open>pflag\<close>, the
  API server and its client library (lists, watches, creation, selectors), the YAML, JSON and
  merge-patch libraries, the stream dialers and streams, the network dialer and listeners, the random
  source of request identifiers. In \<open>Keepalive\<close> the time from a tick to the count of its heartbeat at the
  server has a bound, a parameter of the step relation, and so has, there and in \<open>Idle_Tracker\<close>, the time
  for which a goroutine of the server is held up. What the streams of the heartbeats come to is a parameter
  as well, \<open>answers\<close>.

  Bounds and termination. Loops over scripts recurse on the script, or on its size (\<open>stream_size\<close>), and
  are total; \<open>WriteFull\<close> alone is partial, as it does not return on a writer that takes nothing and
  reports no error, and \<open>Xio\<close> proves that it returns on every other. The header's length field is a word of
  16 bits, so addresses are bounded by 65523 bytes where it matters; UDP buffers hold 65538 bytes, more
  than any frame. \<open>sort.Slice\<close> is modelled by the insertion sort Go uses for up to twelve elements.

  Not modelled: the parsing of command lines by \<open>cobra\<close> and \<open>pflag\<close> (their results are parameters);
  \<open>GetNamespace\<close> and \<open>ToResourceBuilder\<close> of \<open>pkg/kube/flags.go\<close>, each one call of the client library; log
  messages and the field names in \<open>pkg/constants\<close>; \<open>SetReadBuffer\<close>. They have no state and decide nothing, or are not in the repository.
\<close>

section \<open>From the client to the destination\<close>

lemma dst_addr_string: "xnet_join_host_port (addr_string (ap_addr ap)) (ap_port ap) = addr_port_string ap"
  by (simp add: xnet_join_host_port_def addr_port_string_def)

text \<open>What the server does with a request of the client.\<close>

lemma server_serves_request:
  assumes "length i = lengthRequestID" and "length (a_data (ap_addr ap)) < 65524"
    and "network_of p = Some net" and "pending s = header_marshal (request_header i p ap) @ rest"
    and "wr_script c = []"
  shows "let r = handle_conn dial s c in
    dialed r = [(net, addr_port_string ap)] \<and> pending (conn_in r) = rest \<and>
    (case dial net (addr_port_string ap) of
       Inr up \<Rightarrow> ended r = (if net = ''tcp'' then ProxyingTCP i up else ProxyingUDP i up) \<and>
         conn_out r = take_in 1 [AckCodeOK] c
     | Inl err \<Rightarrow> ended r = DialFailed err \<and> conn_out r = take_in 1 [ack_code_from_err err] c \<and>
         ack_code_from_err err \<noteq> AckCodeOK)"
proof -
  have f: "hProtocol (request_header i p ap) = p" "hAddr (request_header i p ap) = ap_addr ap"
    "hPort (request_header i p ap) = ap_port ap" "hRequestID (request_header i p ap) = i"
    by (simp_all add: request_header_def)
  obtain s' where "pending s' = rest" and h: "header_from_reader read_full
      \<lparr>hVersion = 0, hRequestID = [], hProtocol = 0, hPort = 0, hAddr = zero_addr\<rparr> s =
        (request_header i p ap, None, s')"
    by (rule handle_conn_header [OF request_header_wf [OF assms(1,2)] assms(4)])
  moreover note hc = handle_conn_dials [OF h, of net "addr_port_string ap" dial c, unfolded f, OF assms(3)]
  ultimately show ?thesis
    using assms(5) ack_code_from_err_not_OK
    by (cases "dial net (addr_port_string ap)") (simp_all add: hc dst_addr_string write_ack_open Let_def)
qed

text \<open>The address of a target that names it itself.\<close>

lemma resolve_static:
  assumes "t_resource t = ''host/'' @ dst \<and> CHR ''/'' \<notin> set dst \<and> length dst < 65524
      \<or> t_resource t = ''ip/'' @ dst \<and> (\<exists>b. length b = 4 \<and> dst = v4_string b)"
  shows "\<exists>a. resolve_target env t = Ok (StaticAddr a, None) \<and> addr_string a = dst \<and> length (a_data a) < 65524"
  using assms
proof
  assume h: "t_resource t = ''host/'' @ dst \<and> CHR ''/'' \<notin> set dst \<and> length dst < 65524"
  then have "split_on (CHR ''/'') (t_resource t) = [''host'', dst]"
    using split_on_sep [of "CHR ''/''" "''host''" dst] by simp
  then have "resolve_target env t = Ok (StaticAddr (addr_from_host dst), None)"
    by (simp add: resolve_target_def)
  with h show ?thesis by (simp add: addr_from_host_def [of dst, THEN arg_cong [of _ _ a_data]])
next
  assume "t_resource t = ''ip/'' @ dst \<and> (\<exists>b. length b = 4 \<and> dst = v4_string b)"
  then obtain b where b: "length b = 4" "dst = v4_string b" and t: "t_resource t = ''ip/'' @ dst" by blast
  have "split_on (CHR ''/'') (t_resource t) = [''ip'', dst]"
    using split_on_sep [of "CHR ''/''" "''ip''" dst] t b v4_string_no_slash [of b] by simp
  moreover obtain a where a: "addr_from_ip dst = Inr a" "addr_string a = dst" "length (a_data a) = 4"
    using addr_from_ip_v4_text [OF b(1)] b by (auto simp: addr_marshal_def)
  ultimately have "resolve_target env t = Ok (StaticAddr a, None)"
    by (simp add: resolve_target_def)
  with a show ?thesis by simp
qed

text \<open>
  C1: A request reaches its destination: when the bytes the client wrote arrive at the server, in
  whatever chunks, the server dials exactly the address and port the client was asked for, once, on the
  network of its protocol; and when the server's answer arrives, the client starts copying just if the
  dial succeeded, and otherwise fails with the code of the server's error.
\<close>

theorem request_reaches_destination:
  assumes "length i = lengthRequestID" and "length (a_data (ap_addr ap)) < 65524"
    and "network_of p = Some net" and "wr_script w = []"
    and "pending s = header_marshal (request_header i p ap) @ rest"
  shows "let r = handle_conn dial s fresh_sink;
      client = open_request p i ap (Inr \<lparr>ds_in = Chunk (accepted (conn_out r)) # t, ds_out = w\<rparr>)
    in dialed r = [(net, addr_port_string ap)] \<and> pending (conn_in r) = rest \<and>
       (case dial net (addr_port_string ap) of
          Inr up \<Rightarrow>
            ended r = (if net = ''tcp'' then ProxyingTCP i up else ProxyingUDP i up) \<and>
            (\<exists>w'. client = Some (Inr \<lparr>ds_in = t, ds_out = w'\<rparr>) \<and>
               accepted w' = accepted w @ header_marshal (request_header i p ap))
        | Inl err \<Rightarrow>
            ended r = DialFailed err \<and> client = Some (Inl (ConnectRefused (ack_code_from_err err))))"
proof -
  have "wr_script fresh_sink = []" "accepted fresh_sink = []" by (simp_all add: fresh_sink_def)
  then show ?thesis
    using server_serves_request [OF assms(1-3,5), of fresh_sink dial] assms(4)
    by (cases "dial net (addr_port_string ap)")
      (simp_all add: Let_def open_request_def write_header_open ack_from_reader_Chunk)
qed

definition example_target :: addr_port where
  "example_target = addr_port_from (addr_from_host ''db'') 5432"

definition example_dialer :: "nat dialer" where
  "example_dialer net dst =
     (if dst = ''db:5432'' then Inr 3 else Inl \<lparr>as_dns_error = None, as_op_error = Some True\<rparr>)"

lemma example_target_facts:
  "length (a_data (ap_addr example_target)) < 65524" "addr_port_string example_target = ''db:5432''"
proof -
  show "length (a_data (ap_addr example_target)) < 65524"
    by (simp add: example_target_def addr_port_from_def addr_from_host_def)
  show "addr_port_string example_target = ''db:5432''"
    by (simp add: example_target_def addr_port_from_def addr_port_string_def join_host_port_def
        itoa.simps digit_char_def char_of_eq_iff)
qed

theorem request_reaches_destination_witness:
  "let r = handle_conn example_dialer
        [Chunk (header_marshal (request_header ''abcde'' ProtocolTCP example_target)), Chunk [71]] fresh_sink
   in dialed r = [(''tcp'', ''db:5432'')] \<and> pending (conn_in r) = [71] \<and> ended r = ProxyingTCP ''abcde'' 3"
  using request_reaches_destination [of "''abcde''" example_target ProtocolTCP "''tcp''" fresh_sink
      "[Chunk (header_marshal (request_header ''abcde'' ProtocolTCP example_target)), Chunk [71]]" "[71]" example_dialer "[]"]
    example_target_facts
  by (simp add: lengthRequestID_def network_of_def fresh_sink_def Let_def example_dialer_def)

text \<open>What the two sockets' \<open>Read\<close>s make of packets, and what the reply loop of the server writes.\<close>

lemma packets_framed:
  assumes "length buf = UDPBufferSize" and "\<forall>d \<in> set ds. length d < 65536"
  shows "map (\<lambda>d. case udp_conn_read buf d None of (b, n, _) \<Rightarrow> take n b) ds = map udp_frame ds"
proof (rule map_cong [OF refl])
  fix d
  assume "d \<in> set ds"
  with assms have "length d + 2 \<le> length buf" by (auto simp: UDPBufferSize_def)
  from udp_conn_read_frame [OF this, of None]
  show "(case udp_conn_read buf d None of (b, n, _) \<Rightarrow> take n b) = udp_frame d"
    by (cases "udp_conn_read buf d None") simp
qed

lemma only_datagrams: "[d. Datagram d \<leftarrow> map Datagram ds] = ds"
  by (induction ds) auto

lemma replies_written:
  assumes "length buf = UDPBufferSize" and "\<forall>d \<in> set ds. length d < 65536"
  obtains w where "up_to_down (\<lambda>_. False) 0 buf (map Datagram ds) fresh_sink = Some w"
    and "accepted w = concat (map udp_frame ds)"
proof -
  have d: "\<forall>d. Datagram d \<in> set (map Datagram ds) \<longrightarrow> length d < 65536"
    and e: "\<forall>e. UdpFail e \<in> set (map Datagram ds) \<longrightarrow> e = ErrTimeout"
    using assms(2) by auto
  have f: "wr_script fresh_sink = []" "accepted fresh_sink = []" by (simp_all add: fresh_sink_def)
  show thesis
    using that up_to_down_frames [OF assms(1) d e f(1), of 0] unfolding only_datagrams f(2) by auto
qed

text \<open>
  Datagrams make the whole way through the tunnel. Out: the packets the client's socket receives,
  framed by its \<open>ReadFrom\<close> and written to the data stream, leave the server's socket as the same packets
  in the same order, but for empty ones. Back: every packet the server's socket receives, empty or not,
  is written to the client's peer, in order.
\<close>

lemma udp_end_to_end:
  assumes "\<forall>d \<in> set ds. length d < 65536" and "length buf = UDPBufferSize"
    and "no_fail out" and "no_fail back"
    and "pending out = concat (map (\<lambda>d. case udp_conn_read buf d None of (b, n, _) \<Rightarrow> take n b) ds)"
    and "up_to_down (\<lambda>_. False) 0 buf (map Datagram ds) fresh_sink = Some w" and "pending back = accepted w"
  shows "(\<exists>u. down_to_up fired 0 out fresh_sink = Some u \<and> packets u = filter (\<lambda>d. d \<noteq> []) ds)
    \<and> stream_to_packets (\<lambda>_. None) back = Some ds"
proof -
  have open_sink: "wr_script fresh_sink = []" "packets fresh_sink = []"
    by (simp_all add: fresh_sink_def)
  have p: "pending out = concat (map udp_frame ds) @ []"
    using assms(5) packets_framed [OF assms(2,1)] by simp
  obtain s' where "down_to_up fired 0 (out @ []) fresh_sink = down_to_up fired 0 (s' @ []) (send_all ds fresh_sink)"
    and "no_fail s'" "pending s' = []"
    using down_to_up_frames [OF assms(3) p assms(1) open_sink(1), of fired 0 "[]"] by blast
  then have out: "\<exists>u. down_to_up fired 0 out fresh_sink = Some u \<and> packets u = filter (\<lambda>d. d \<noteq> []) ds"
    using down_to_up_end packets_send_all [OF open_sink(1), of ds] open_sink(2) by simp
  obtain w' where "up_to_down (\<lambda>_. False) 0 buf (map Datagram ds) fresh_sink = Some w'"
    and "accepted w' = concat (map udp_frame ds)"
    by (rule replies_written [OF assms(2,1)])
  with assms(6,7) have "pending back = concat (map udp_frame ds)" by simp
  then have "stream_to_packets (\<lambda>_. None) back = Some ds"
    using assms(1) by (intro stream_to_packets_frames [OF assms(4)]) simp_all
  with out show ?thesis by simp
qed

text \<open>
  Heartbeats only keep the server awake: on every tick until a failure the client writes one
  keepalive header to a fresh stream, and the server that reads it dials nothing and answers nothing.
\<close>

lemma heartbeats_received:
  assumes "length i = lengthRequestID" and "pending s = header_marshal (heartbeat_header i) @ rest"
    and "wr_script w = []"
  shows "(\<exists>w'. send_heartbeats (HeartbeatTick i (Inr w) # evs) = map_option ((#) w') (send_heartbeats evs) \<and>
       accepted w' = accepted w @ header_marshal (heartbeat_header i))
    \<and> (let r = handle_conn dial s c in ended r = HeartbeatReceived \<and> dialed r = [] \<and> conn_out r = c
         \<and> pending (conn_in r) = rest)"
proof -
  obtain s' where "pending s' = rest"
    and "header_from_reader read_full
      \<lparr>hVersion = 0, hRequestID = [], hProtocol = 0, hPort = 0, hAddr = zero_addr\<rparr> s = (heartbeat_header i, None, s')"
    by (rule handle_conn_header [OF heartbeat_header_wf [OF assms(1)] assms(2)])
  moreover have "hProtocol (heartbeat_header i) = ProtocolKeepalive" by (simp add: heartbeat_header_def)
  moreover have "\<exists>w'. send_heartbeats (HeartbeatTick i (Inr w) # evs) = map_option ((#) w') (send_heartbeats evs) \<and>
       accepted w' = accepted w @ header_marshal (heartbeat_header i)"
    by (rule exI [of _ "take_in (length (header_marshal (heartbeat_header i))) (header_marshal (heartbeat_header i)) w"])
      (simp add: write_header_open [OF assms(3)])
  ultimately show ?thesis by (simp add: handle_conn_def Let_def)
qed

text \<open>
  C15: A target given on the command line is what the server dials: for \<open>host/NAME\<close> and for
  \<open>ip/A.B.C.D\<close> with any ports the parser accepts, the client makes one forwarder for each pair, every
  connection a forwarder takes is handled with the address of the target and the remote port of the pair,
  and the server that reads the header of such a request dials NAME or A.B.C.D with that port, as text.
\<close>

theorem target_is_dialled:
  fixes env :: "('sel, 'conn) app_env"
  assumes "t_resource t = ''host/'' @ dst \<and> CHR ''/'' \<notin> set dst \<and> length dst < 65524
      \<or> t_resource t = ''ip/'' @ dst \<and> (\<exists>b. length b = 4 \<and> dst = v4_string b)"
    and "parse_ports (t_ports t) (None :: 'sel object option) = Inr pps"
    and "length i = lengthRequestID" and "network_of p = Some net"
  shows "\<exists>g. target_forwarders env t =
      Ok (map (\<lambda>pp. \<lparr>pf_addrGetter = g, pf_ports = pp, pf_listenAddr = t_lisAddr t\<rparr>) pps) \<and>
    (\<forall>port. \<exists>ap.
       run_tcp port (Client c (getter_get g) # evs) = HandleTCP c ap # run_tcp port evs \<and>
       (\<forall>s rest. pending s = header_marshal (request_header i p ap) @ rest \<longrightarrow>
          dialed (handle_conn dial s fresh_sink) = [(net, join_host_port dst (itoa (unat port)))]))"
proof -
  obtain a where r: "resolve_target env t = Ok (StaticAddr a, None)"
    and a: "addr_string a = dst" "length (a_data a) < 65524"
    using resolve_static [OF assms(1)] by blast
  have "target_forwarders env t =
      Ok (map (\<lambda>pp. \<lparr>pf_addrGetter = StaticAddr a, pf_ports = pp, pf_listenAddr = t_lisAddr t\<rparr>) pps)"
    using r assms(2) by (simp add: target_forwarders_def)
  moreover have "run_tcp port (Client c (getter_get (StaticAddr a)) # evs) =
      HandleTCP c (addr_port_from a port) # run_tcp port evs" for port
    by (simp add: getter_get_def static_get_def)
  moreover have "dialed (handle_conn dial s fresh_sink) = [(net, join_host_port dst (itoa (unat port)))]"
    if "pending s = header_marshal (request_header i p (addr_port_from a port)) @ rest" for port s rest
    using server_serves_request [OF assms(3) _ assms(4) that, of fresh_sink dial] a
    by (simp add: Let_def fresh_sink_def addr_port_from_def addr_port_string_def)
  ultimately show ?thesis by blast
qed

theorem target_is_dialled_witness:
  "\<forall>env :: (nat, nat) app_env. \<exists>g. target_forwarders env \<lparr>t_resource = ''ip/'' @ v4_string [10, 0, 0, 7], t_ports = ['':53@udp''],
        t_namespace = ''default'', t_lisAddr = ''127.0.0.1''\<rparr> =
      Ok [\<lparr>pf_addrGetter = g, pf_ports = \<lparr>LocalPort = 0, RemotePort = 53, Protocol = ''udp''\<rparr>,
           pf_listenAddr = ''127.0.0.1''\<rparr>]"
proof -
  have "parse_ports ['':53@udp''] (None :: nat object option) = Inr [\<lparr>LocalPort = 0, RemotePort = 53, Protocol = ''udp''\<rparr>]"
    by (simp add: parse_ports_def help_arguments)
  then show ?thesis
    using target_is_dialled [of "\<lparr>t_resource = ''ip/'' @ v4_string [10, 0, 0, 7], t_ports = ['':53@udp''],
        t_namespace = ''default'', t_lisAddr = ''127.0.0.1''\<rparr>" "v4_string [10, 0, 0, 7]" _ "''abcde''" ProtocolUDP "''udp''"]
    by (force simp: lengthRequestID_def network_of_def)
qed

text \<open>What a TCP request comes to, by what comes of the dialling.\<close>

lemma tcp_request_answered:
  assumes "length i = lengthRequestID" and "length (a_data (ap_addr ap)) < 65524" and "wr_script out = []"
    and "pending s = header_marshal (request_header i ProtocolTCP ap) @ rest"
  shows "let r = handle_conn dial s fresh_sink;
      client = open_request ProtocolTCP i ap (Inr \<lparr>ds_in = [Chunk (accepted (conn_out r))], ds_out = out\<rparr>)
    in dialed r = [(''tcp'', addr_port_string ap)] \<and> pending (conn_in r) = rest \<and>
       (case dial ''tcp'' (addr_port_string ap) of
          Inr up \<Rightarrow> ended r = ProxyingTCP i up \<and> (\<exists>ds. client = Some (Inr ds) \<and> ds_in ds = [])
        | Inl err \<Rightarrow> ended r = DialFailed err \<and> client = Some (Inl (ConnectRefused (ack_code_from_err err))))"
proof -
  have "network_of ProtocolTCP = Some ''tcp''" by (simp add: network_of_def)
  moreover have "wr_script fresh_sink = []" "accepted fresh_sink = []" by (simp_all add: fresh_sink_def)
  ultimately show ?thesis
    using server_serves_request [OF assms(1,2) _ assms(4), of "''tcp''" fresh_sink dial] assms(3)
    by (cases "dial ''tcp'' (addr_port_string ap)")
      (simp_all add: Let_def open_request_def write_header_open ack_from_reader_Chunk)
qed

text \<open>
  C16: A SOCKS5 client gets a tunnel to what it asked for, if that can be dialled: from the bytes of its
  request the proxy command takes a destination, and the server that reads the header made of it dials
  just that. If the dial fails, the client's request is refused, although the SOCKS5 client has been told
  that it is connected. If it succeeds, both programs begin to copy, the client's end with what the
  SOCKS5 client had sent behind its request and is not read yet; and from then on what is written to
  the destination is a front of what the SOCKS5 client sends, beginning with those bytes, and while
  both programs copy and the destination has not closed, everything it has sent comes to be written to the
  destination, in whatever order the goroutines run, unless a copy waits in a write that is not
  accepted.
\<close>

theorem socks5_tunnel:
  assumes "length methods < 256" and "wf_dest (ap_addr ap)"
    and "pending cs = socks_connect v methods v' rsv ap @ early" and "wr_script w = []"
    and "length i = lengthRequestID" and "wr_script out = []"
    and "pending s = header_marshal (request_header i ProtocolTCP ap)"
  shows "\<exists>cs'. handle_socks5_conn cs w = SocksHandedOver ap cs' (sends [[5, 0], socks_reply 0] w) \<and> pending cs' = early \<and>
    (let r = handle_conn dial s fresh_sink;
         client = open_request ProtocolTCP i ap (Inr \<lparr>ds_in = [Chunk (accepted (conn_out r))], ds_out = out\<rparr>)
     in dialed r = [(''tcp'', addr_port_string ap)] \<and>
        (case dial ''tcp'' (addr_port_string ap) of
           Inl err \<Rightarrow> ended r = DialFailed err \<and> client = Some (Inl (ConnectRefused (ack_code_from_err err)))
         | Inr up \<Rightarrow> ended r = ProxyingTCP i up \<and> (\<exists>ds. client = Some (Inr ds)) \<and>
             (\<forall>t accepts. tunnel_step\<^sup>*\<^sup>* (opened_tunnel (pending cs') (pending (conn_in r))) t \<longrightarrow>
                (\<exists>more. tc_sent (tr_conn (tu_client t) Down) = early @ more) \<and>
                prefix (tc_out (tp_conn (tu_server t) Up)) (tc_sent (tr_conn (tu_client t) Down)) \<and>
                (\<not> tu_lost t \<and> app_flows t \<longrightarrow>
                   comes_to (tunnel_runs accepts)
                     (\<lambda>u. held_up accepts u \<or> tc_out (tp_conn (tu_server u) Up) = tc_sent (tr_conn (tu_client t) Down)) t))))"
proof -
  have "length (a_data (ap_addr ap)) < 65524" using assms(2) by (auto simp: wf_dest_def split: if_splits)
  note answered = tcp_request_answered [OF assms(5) this assms(6), of s "[]" dial]
  obtain cs' where h: "handle_socks5_conn cs w = SocksHandedOver ap cs' (sends [[5, 0], socks_reply 0] w)" "pending cs' = early"
    using socks5_handshake_connects [OF assms(1-4)] by (auto simp: handle_socks5_conn_def)
  have "(\<exists>more. tc_sent (tr_conn (tu_client t) Down) = early @ more) \<and>
      prefix (tc_out (tp_conn (tu_server t) Up)) (tc_sent (tr_conn (tu_client t) Down)) \<and>
      (\<not> tu_lost t \<and> app_flows t \<longrightarrow> comes_to (tunnel_runs accepts)
         (\<lambda>u. held_up accepts u \<or> tc_out (tp_conn (tu_server u) Up) = tc_sent (tr_conn (tu_client t) Down)) t)"
    if "tunnel_step\<^sup>*\<^sup>* (opened_tunnel early []) t" for t accepts
    using tunnel_early [OF opened_tunnel_steps [OF that]] tunnel_up.whole.in_order [OF opened_tunnel_steps [OF that]]
      tunnel_delivers [OF opened_tunnel_steps [OF that]]
    by (auto simp: prefix_def)
  with h answered assms(7) show ?thesis
    by (cases "dial ''tcp'' (addr_port_string ap)") (auto simp: Let_def)
qed

theorem socks5_tunnel_witness:
  "\<exists>cs'.
    handle_socks5_conn [Chunk ([5, 1, 0] @ [5, 1, 0, 3, 2, 100, 98, 21, 56, 71])] fresh_sink =
      SocksHandedOver example_target cs' (sends [[5, 0], socks_reply 0] fresh_sink) \<and> pending cs' = [71] \<and>
    ended (handle_conn example_dialer [Chunk (header_marshal (request_header ''abcde'' ProtocolTCP example_target))]
      fresh_sink) = ProxyingTCP ''abcde'' 3 \<and>
    comes_to (tunnel_runs (\<lambda>_ _. True)) (\<lambda>u. tc_out (tp_conn (tu_server u) Up) = [71]) example_tunnel"
proof -
  let ?s = "[Chunk (header_marshal (request_header ''abcde'' ProtocolTCP example_target))]"
  have d: "ap_addr example_target = \<lparr>a_typ = AddrTypeHost, a_data = [100, 98]\<rparr>" "ap_port example_target = 5432"
    by (simp_all add: example_target_def addr_port_from_def) code_simp
  have c: "socks_connect 5 [0] 5 0 example_target = [5, 1, 0] @ [5, 1, 0, 3, 2, 100, 98, 21, 56]"
    by (simp add: socks_connect_def socks_dest_def d put_uint16_def drop_bit_eq_div)
  have wf: "wf_dest (ap_addr example_target)" by (simp add: wf_dest_def d)
  have dial: "example_dialer ''tcp'' (addr_port_string example_target) = Inr 3"
    by (simp add: example_dialer_def example_target_facts)
  have e: "tc_sent (tr_conn (tu_client example_tunnel) Down) = [71]" "app_flows example_tunnel" "\<not> tu_lost example_tunnel"
    by (simp_all add: example_tunnel_def example_client_def app_flows_def new_tcp_proxy_def new_tcp_conn_def)
  have "pending (conn_in (handle_conn example_dialer ?s fresh_sink)) = []"
    using tcp_request_answered [of "''abcde''" example_target fresh_sink ?s "[]" example_dialer]
    by (simp add: lengthRequestID_def fresh_sink_def example_target_facts Let_def)
  moreover have "length [0 :: byte] < 256" "pending [Chunk ([5, 1, 0] @ [5, 1, 0, 3, 2, 100, 98, 21, 56, 71])] =
      socks_connect 5 [0] 5 0 example_target @ [71]" "wr_script fresh_sink = []" "length ''abcde'' = lengthRequestID"
      "pending ?s = header_marshal (request_header ''abcde'' ProtocolTCP example_target)"
    by (simp_all only: c) (simp_all add: fresh_sink_def lengthRequestID_def)
  note socks5_tunnel [OF this(1) wf this(2,3,4,3,5), of example_dialer]
  ultimately obtain cs' where cs: "handle_socks5_conn [Chunk ([5, 1, 0] @ [5, 1, 0, 3, 2, 100, 98, 21, 56, 71])] fresh_sink =
        SocksHandedOver example_target cs' (sends [[5, 0], socks_reply 0] fresh_sink)" "pending cs' = [71]"
      "ended (handle_conn example_dialer ?s fresh_sink) = ProxyingTCP ''abcde'' 3"
    and t: "\<And>t accepts. tunnel_step\<^sup>*\<^sup>* (opened_tunnel [71] []) t \<Longrightarrow> \<not> tu_lost t \<Longrightarrow> app_flows t \<Longrightarrow>
      comes_to (tunnel_runs accepts)
        (\<lambda>u. held_up accepts u \<or> tc_out (tp_conn (tu_server u) Up) = tc_sent (tr_conn (tu_client t) Down)) t"
    unfolding dial Let_def by auto
  from t [OF example_tunnel_opened e(3,2), of "\<lambda>_ _. True"] cs show ?thesis
    by (intro exI [of _ cs']) (simp add: e(1) held_up_def)
qed

text \<open>
  C24: The server serves every client: on the port every stream of the client names, it handles all
  connections that come before the listener is closed, whatever temporary errors come between them, and
  for each that carries a request of a client it dials just the destination of that request; then it
  returns without an error.
\<close>

theorem server_run_serves:
  assumes "listen ''tcp'' (''0.0.0.0:'' @ port) = None" and "create_stream (\<lambda>h. Inr (sh_Port h)) reqID = Inr (port, port')"
    and "list_all goes_on evs" and "concat (map conn_of evs) = map (\<lambda>(s, i, p, ap, net). (s, fresh_sink)) reqs"
    and "list_all (\<lambda>(s, i, p, ap, net). length i = lengthRequestID \<and> length (a_data (ap_addr ap)) < 65524 \<and>
      network_of p = Some net \<and> (\<exists>rest. pending s = header_marshal (request_header i p ap) @ rest)) reqs"
  shows "\<exists>served. server_run listen dial (evs @ AcceptError True temporary msg # later) = (RunOK, served) \<and>
    map dialed served = map (\<lambda>(s, i, p, ap, net). [(net, addr_port_string ap)]) reqs"
proof -
  have "port = itoa ServerPort" using assms(2) by (simp add: create_stream_def Let_def)
  then have l: "listen ''tcp'' (''0.0.0.0:'' @ itoa ServerPort) = None" using assms(1) by (simp only:)
  have "server_run listen dial (evs @ AcceptError True temporary msg # later) =
      (RunOK, map (\<lambda>(s, i, p, ap, net). handle_conn dial s fresh_sink) reqs)"
    by (simp only: server_run_conns [of listen, OF l assms(3)] assms(4)) (simp add: case_prod_beta)
  moreover have "dialed (handle_conn dial s fresh_sink) = [(net, addr_port_string ap)]"
    if "(s, i, p, ap, net) \<in> set reqs" for s i p ap net
  proof -
    from assms(5) that obtain rest where "length i = lengthRequestID" "length (a_data (ap_addr ap)) < 65524"
      "network_of p = Some net" "pending s = header_marshal (request_header i p ap) @ rest"
      by (auto simp: list_all_iff)
    from server_serves_request [OF this, of fresh_sink dial] show ?thesis by (simp add: Let_def fresh_sink_def)
  qed
  ultimately show ?thesis by (auto simp: case_prod_beta)
qed

theorem server_run_serves_witness:
  "\<exists>served. server_run (\<lambda>_ _. None) example_dialer
      [AcceptError False True ''again'',
       Accepted ([Chunk (header_marshal (request_header ''abcde'' ProtocolTCP example_target))], fresh_sink),
       AcceptError True False ''closed''] = (RunOK, served) \<and>
    map dialed served = [[(''tcp'', ''db:5432'')]]"
  using server_run_serves [of "\<lambda>_ _. None" "itoa ServerPort" "''abcde''" "itoa ServerPort"
      "[AcceptError False True ''again'',
        Accepted ([Chunk (header_marshal (request_header ''abcde'' ProtocolTCP example_target))], fresh_sink)]"
      "[([Chunk (header_marshal (request_header ''abcde'' ProtocolTCP example_target))], ''abcde'', ProtocolTCP,
         example_target, ''tcp'')]" example_dialer False "''closed''" "[]"]
    example_target_facts
  by (simp add: create_stream_def Let_def lengthRequestID_def network_of_def)

end
